(* ===== verification/Rust_Str.thy ===== *)
theory Rust_Str
  imports Judge_Prelude
begin

text \<open>
  The Rust \<open>str\<close> and the operations of it the program calls. A \<open>char\<close> is a Unicode
  scalar value, here its number; a \<open>str\<close> is the list of its characters. Byte offsets of
  the source (\<open>find\<close>, \<open>match_indices\<close>, slices) are character offsets here; the slices
  the program takes always fall on character boundaries, so the pieces are the same.
  \<open>utf8\<close> is \<open>as_bytes\<close>.
\<close>

type_synonym uchar = nat
type_synonym ustr = "uchar list"

section \<open>Literals\<close>

definition lit :: "string \<Rightarrow> ustr" where
  "lit s = map of_char s"

lemma lit_Nil [str_eval]: "lit [] = []"
  by (simp add: lit_def)

lemma lit_Cons [str_eval]: "lit (c # s) = of_char c # lit s"
  by (simp add: lit_def)

lemma lit_inject [simp]: "lit s = lit t \<longleftrightarrow> s = t"
proof -
  have "inj (of_char :: char \<Rightarrow> nat)"
    by (rule injI) (simp add: of_char_eq_iff)
  then show ?thesis
    by (simp add: lit_def inj_map_eq_map)
qed

lemma lit_empty_iff [simp]: "lit s = [] \<longleftrightarrow> s = []" "[] = lit s \<longleftrightarrow> s = []"
  by (auto simp: lit_def)

lemma length_lit [simp]: "length (lit s) = length s"
  by (simp add: lit_def)

section \<open>Character classes\<close>

definition is_ascii_digit :: "uchar \<Rightarrow> bool" where
  "is_ascii_digit c \<longleftrightarrow> 48 \<le> c \<and> c \<le> 57"

definition is_ascii_hexdigit :: "uchar \<Rightarrow> bool" where
  "is_ascii_hexdigit c \<longleftrightarrow> is_ascii_digit c \<or> (65 \<le> c \<and> c \<le> 70) \<or> (97 \<le> c \<and> c \<le> 102)"

definition is_ascii_alphanumeric :: "uchar \<Rightarrow> bool" where
  "is_ascii_alphanumeric c \<longleftrightarrow> is_ascii_digit c \<or> (65 \<le> c \<and> c \<le> 90) \<or> (97 \<le> c \<and> c \<le> 122)"

text \<open>\<open>char::is_whitespace\<close>: the Unicode property \<open>White_Space\<close>, which is this finite set.\<close>

definition is_whitespace :: "uchar \<Rightarrow> bool" where
  "is_whitespace c \<longleftrightarrow>
     (9 \<le> c \<and> c \<le> 13) \<or> c = 32 \<or> c = 133 \<or> c = 160 \<or> c = 5760 \<or> (8192 \<le> c \<and> c \<le> 8202) \<or>
     c = 8232 \<or> c = 8233 \<or> c = 8239 \<or> c = 8287 \<or> c = 12288"

definition ascii_lower :: "uchar \<Rightarrow> uchar" where
  "ascii_lower c = (if 65 \<le> c \<and> c \<le> 90 then c + 32 else c)"

definition to_ascii_lowercase :: "ustr \<Rightarrow> ustr" where
  "to_ascii_lowercase s = map ascii_lower s"

lemmas char_defs [str_eval] =
  is_ascii_digit_def is_ascii_hexdigit_def is_ascii_alphanumeric_def is_whitespace_def
  ascii_lower_def to_ascii_lowercase_def

lemma ascii_lower_idem [simp]: "ascii_lower (ascii_lower c) = ascii_lower c"
  by (simp add: ascii_lower_def)

lemma to_ascii_lowercase_idem [simp]:
  "to_ascii_lowercase (to_ascii_lowercase s) = to_ascii_lowercase s"
  by (simp add: to_ascii_lowercase_def)

lemma to_ascii_lowercase_append [simp]:
  "to_ascii_lowercase (s @ t) = to_ascii_lowercase s @ to_ascii_lowercase t"
  by (simp add: to_ascii_lowercase_def)

lemma to_ascii_lowercase_id: "(\<And>c. c \<in> set s \<Longrightarrow> \<not> (65 \<le> c \<and> c \<le> 90)) \<Longrightarrow> to_ascii_lowercase s = s"
  unfolding to_ascii_lowercase_def by (rule map_idI) (auto simp: ascii_lower_def)

lemma ascii_lower_less_48 [simp]: "ascii_lower c = k \<longleftrightarrow> c = k" if "k < 65"
  using that by (auto simp: ascii_lower_def)

section \<open>Trimming and splitting\<close>

definition trim_start :: "ustr \<Rightarrow> ustr" where
  "trim_start s = dropWhile is_whitespace s"

definition trim_end :: "ustr \<Rightarrow> ustr" where
  "trim_end s = rev (dropWhile is_whitespace (rev s))"

definition trim :: "ustr \<Rightarrow> ustr" where
  "trim s = trim_end (trim_start s)"

text \<open>\<open>split\<close> on a character class: one piece more than there are separators.\<close>

fun split_on :: "(uchar \<Rightarrow> bool) \<Rightarrow> ustr \<Rightarrow> ustr list" where
  "split_on p [] = [[]]"
| "split_on p (c # cs) =
     (if p c then [] # split_on p cs
      else (case split_on p cs of [] \<Rightarrow> [[c]] | w # ws \<Rightarrow> (c # w) # ws))"

text \<open>\<open>rsplit_once\<close>: the parts before and after the last occurrence.\<close>

fun rsplit_once :: "uchar \<Rightarrow> ustr \<Rightarrow> (ustr \<times> ustr) option" where
  "rsplit_once c [] = None"
| "rsplit_once c (x # xs) =
     (case rsplit_once c xs of
        Some (a, b) \<Rightarrow> Some (x # a, b)
      | None \<Rightarrow> if x = c then Some ([], xs) else None)"

fun find_char :: "uchar \<Rightarrow> ustr \<Rightarrow> nat option" where
  "find_char c [] = None"
| "find_char c (x # xs) = (if x = c then Some 0 else map_option Suc (find_char c xs))"

fun strip_prefix :: "ustr \<Rightarrow> ustr \<Rightarrow> ustr option" where
  "strip_prefix [] s = Some s"
| "strip_prefix (p # ps) [] = None"
| "strip_prefix (p # ps) (c # cs) = (if p = c then strip_prefix ps cs else None)"

definition starts_with :: "ustr \<Rightarrow> ustr \<Rightarrow> bool" where
  "starts_with s p \<longleftrightarrow> strip_prefix p s \<noteq> None"

text \<open>\<open>join\<close> of a slice of strings with a separator.\<close>

fun join :: "ustr \<Rightarrow> ustr list \<Rightarrow> ustr" where
  "join sep [] = []"
| "join sep [w] = w"
| "join sep (w # v # ws) = w @ sep @ join sep (v # ws)"

lemmas split_eval [str_eval] = trim_def trim_start_def trim_end_def starts_with_def

lemma trim_no_ws:
  assumes "\<And>c. c \<in> set s \<Longrightarrow> \<not> is_whitespace c"
  shows "trim s = s"
proof -
  have "dropWhile is_whitespace s = s" and "dropWhile is_whitespace (rev s) = rev s"
    using assms by (auto intro: dropWhile_none)
  then show ?thesis
    by (simp add: trim_def trim_start_def trim_end_def)
qed

lemma trim_Nil [simp]: "trim [] = []"
  by (simp add: trim_def trim_start_def trim_end_def)

lemma set_trim_subset: "set (trim s) \<subseteq> set s"
  unfolding trim_def trim_start_def trim_end_def
  by (auto dest!: set_dropWhileD)

lemma trim_idem [simp]: "trim (trim s) = trim s"
proof -
  have start: "trim_start (trim_end t) = trim_end t" if "trim_start t = t" for t
  proof (cases "trim_end t")
    case Nil
    then show ?thesis by (simp add: trim_start_def)
  next
    case (Cons a u)
    obtain w where w: "t = trim_end t @ w"
      by (metis takeWhile_dropWhile_id rev_append rev_rev_ident trim_end_def)
    with Cons have "hd t = a" and "t \<noteq> []"
      by (metis append_Cons list.sel(1), auto)
    with that have "\<not> is_whitespace a"
      by (metis hd_dropWhile trim_start_def)
    with Cons show ?thesis by (simp add: trim_start_def)
  qed
  have "trim_end (trim_end t) = trim_end t" for t
    by (simp add: trim_end_def)
  with start show ?thesis
    by (simp add: trim_def) (simp add: trim_start_def)
qed

lemma split_on_not_Nil [simp]: "split_on p s \<noteq> []"
  by (cases s) (auto split: list.split)

lemma split_on_no_sep: "(\<And>c. c \<in> set s \<Longrightarrow> \<not> p c) \<Longrightarrow> split_on p s = [s]"
  by (induction s) auto

lemma split_on_append_sep:
  "(\<And>c. c \<in> set w \<Longrightarrow> \<not> p c) \<Longrightarrow> p x \<Longrightarrow> split_on p (w @ x # s) = w # split_on p s"
  by (induction w) auto

lemma split_on_append: "p x \<Longrightarrow> split_on p (s @ x # t) = split_on p s @ split_on p t"
proof (induction s)
  case Nil
  then show ?case by simp
next
  case (Cons c cs)
  then show ?case by (cases "split_on p cs") auto
qed

text \<open>A maximal stretch without separators is one of the pieces.\<close>

lemma split_on_token:
  assumes "\<And>c. c \<in> set w \<Longrightarrow> \<not> p c"
    and "a = [] \<or> p (last a)" and "b = [] \<or> p (hd b)"
  shows "w \<in> set (split_on p (a @ w @ b))"
proof -
  have whole: "split_on p w = [w]" using assms(1) by (rule split_on_no_sep)
  have front: "w \<in> set (split_on p (w @ b))"
  proof (cases b)
    case Nil
    with whole show ?thesis by simp
  next
    case (Cons x b')
    with assms(3) have "split_on p (w @ x # b') = split_on p w @ split_on p b'"
      by (intro split_on_append) simp
    with Cons whole show ?thesis by simp
  qed
  show ?thesis
  proof (cases a rule: rev_cases)
    case Nil
    with front show ?thesis by simp
  next
    case (snoc a' x)
    with assms(2) front show ?thesis by (simp add: split_on_append)
  qed
qed

lemma split_on_chars: "w \<in> set (split_on p s) \<Longrightarrow> c \<in> set w \<Longrightarrow> c \<in> set s \<and> \<not> p c"
proof (induction s arbitrary: w)
  case Nil
  then show ?case by simp
next
  case (Cons x xs)
  then show ?case
    by (cases "split_on p xs") (auto split: if_splits, blast+)
qed

lemma rsplit_once_None: "rsplit_once c s = None \<longleftrightarrow> c \<notin> set s"
  by (induction s) (auto split: option.splits)

lemma rsplit_once_Some: "rsplit_once c s = Some (a, b) \<Longrightarrow> s = a @ c # b \<and> c \<notin> set b"
proof (induction s arbitrary: a)
  case Nil
  then show ?case by simp
next
  case (Cons x xs)
  then show ?case
    by (auto split: option.splits if_splits simp: rsplit_once_None)
qed

lemma strip_prefix_Some_iff: "strip_prefix p s = Some r \<longleftrightarrow> s = p @ r"
  by (induction p s rule: strip_prefix.induct) auto

lemma starts_with_iff: "starts_with s p \<longleftrightarrow> (\<exists>r. s = p @ r)"
  by (auto simp: starts_with_def strip_prefix_Some_iff)

section \<open>Searching for a substring\<close>

text \<open>
  \<open>match_indices\<close>: the starts of the matches found from left to right, each search
  beginning where the previous match ended (so overlapping occurrences are not all listed).
\<close>

function match_from :: "nat \<Rightarrow> ustr \<Rightarrow> ustr \<Rightarrow> nat list" where
  "match_from i n [] = (if n = [] then [i] else [])"
| "match_from i n (c # cs) =
     (if n = [] then i # match_from (Suc i) n cs
      else if starts_with (c # cs) n then i # match_from (i + length n) n (drop (length n) (c # cs))
      else match_from (Suc i) n cs)"
  by pat_completeness auto
termination
  by (relation "measure (\<lambda>(i, n, s). length s)") auto

definition match_indices :: "ustr \<Rightarrow> ustr \<Rightarrow> nat list" where
  "match_indices s n = match_from 0 n s"

definition str_contains :: "ustr \<Rightarrow> ustr \<Rightarrow> bool" where
  "str_contains s n \<longleftrightarrow> match_indices s n \<noteq> []"

text \<open>
  The two characters next to a match, as the source reads them:
  \<open>s[..idx].chars().next_back()\<close> and \<open>s[idx + n.len()..].chars().next()\<close>.
\<close>

definition char_before :: "ustr \<Rightarrow> nat \<Rightarrow> uchar option" where
  "char_before s i = (case rev (take i s) of [] \<Rightarrow> None | c # _ \<Rightarrow> Some c)"

definition char_at :: "ustr \<Rightarrow> nat \<Rightarrow> uchar option" where
  "char_at s i = (case drop i s of [] \<Rightarrow> None | c # _ \<Rightarrow> Some c)"

text \<open>\<open>option.map(p).unwrap_or(false)\<close>.\<close>

definition opt_holds :: "('a \<Rightarrow> bool) \<Rightarrow> 'a option \<Rightarrow> bool" where
  "opt_holds p x = (case x of None \<Rightarrow> False | Some c \<Rightarrow> p c)"

lemma opt_holds_simps [simp]: "opt_holds p None = False" "opt_holds p (Some c) = p c"
  by (simp_all add: opt_holds_def)

text \<open>A match with no character of class \<open>bc\<close> on either side.\<close>

definition match_on_boundary :: "(uchar \<Rightarrow> bool) \<Rightarrow> ustr \<Rightarrow> ustr \<Rightarrow> nat \<Rightarrow> bool" where
  "match_on_boundary bc s n i \<longleftrightarrow>
     \<not> opt_holds bc (char_before s i) \<and> \<not> opt_holds bc (char_at s (i + length n))"

text \<open>The declarative reading: an occurrence of \<open>n\<close> delimited on both sides.\<close>

definition occurs_delimited :: "(uchar \<Rightarrow> bool) \<Rightarrow> ustr \<Rightarrow> ustr \<Rightarrow> bool" where
  "occurs_delimited bc s n \<longleftrightarrow>
     (\<exists>a b. s = a @ n @ b \<and> (a = [] \<or> \<not> bc (last a)) \<and> (b = [] \<or> \<not> bc (hd b)))"

text \<open>
  A pattern none of whose overlaps with itself starts behind a character outside \<open>bc\<close>:
  for these, searching for disjoint matches loses no delimited occurrence.
\<close>

definition overlap_safe :: "(uchar \<Rightarrow> bool) \<Rightarrow> ustr \<Rightarrow> bool" where
  "overlap_safe bc n \<longleftrightarrow>
     list_all (\<lambda>k. take (length n - k) n = drop k n \<longrightarrow> bc (n ! (k - 1))) [1..<length n]"

lemma char_before_append [simp]: "char_before (a @ s) (length a) = (if a = [] then None else Some (last a))"
  by (cases a rule: rev_cases) (simp_all add: char_before_def)

lemma char_at_append [simp]: "char_at (a @ s) (length a) = (if s = [] then None else Some (hd s))"
  by (cases s) (simp_all add: char_at_def)

lemma match_on_boundary_append:
  "match_on_boundary bc (a @ n @ b) n (length a) \<longleftrightarrow>
     (a = [] \<or> \<not> bc (last a)) \<and> (b = [] \<or> \<not> bc (hd b))"
proof -
  have "char_at (a @ n @ b) (length a + length n) = (if b = [] then None else Some (hd b))"
    using char_at_append [of "a @ n" b] by simp
  then show ?thesis by (auto simp: match_on_boundary_def)
qed

lemma match_from_sound:
  "j \<in> set (match_from i n s) \<Longrightarrow> \<exists>a b. s = a @ n @ b \<and> j = i + length a"
proof (induction i n s rule: match_from.induct)
  case (1 i n)
  then show ?case by (auto split: if_splits)
next
  case (2 i n c cs)
  consider (empty) "n = []" | (hit) "n \<noteq> []" "starts_with (c # cs) n"
    | (miss) "n \<noteq> []" "\<not> starts_with (c # cs) n" by blast
  then show ?case
  proof cases
    case empty
    with "2.prems" consider "j = i" | "j \<in> set (match_from (Suc i) n cs)" by auto
    then show ?thesis
    proof cases
      case 1
      with empty show ?thesis by (intro exI [of _ "[]"] exI [of _ "c # cs"]) simp
    next
      case 2
      with empty "2.IH"(1) obtain a b where "cs = a @ n @ b" "j = Suc i + length a" by blast
      with empty show ?thesis
        by (intro exI [of _ "c # a"] exI [of _ b]) simp
    qed
  next
    case hit
    then obtain r where r: "c # cs = n @ r" by (auto simp: starts_with_iff)
    have "drop (length n) (c # cs) = r" unfolding r by simp
    with hit have "match_from i n (c # cs) = i # match_from (i + length n) n r"
      by simp
    with "2.prems" have "j = i \<or> j \<in> set (match_from (i + length n) n r)"
      by auto
    then show ?thesis
    proof
      assume "j = i"
      with r show ?thesis by (metis add.right_neutral append_Nil list.size(3))
    next
      assume "j \<in> set (match_from (i + length n) n r)"
      with hit "2.IH"(2) r obtain a b where "r = a @ n @ b" "j = i + length n + length a"
        by auto
      with r show ?thesis
        by (intro exI [of _ "n @ a"] exI [of _ b]) simp
    qed
  next
    case miss
    with "2.prems" "2.IH"(3) obtain a b where "cs = a @ n @ b" "j = Suc i + length a"
      by auto
    then show ?thesis
      by (intro exI [of _ "c # a"] exI [of _ b]) simp
  qed
qed

lemma overlap_safeD:
  assumes "overlap_safe bc n" and "n @ r = a @ n @ b" and "a \<noteq> []" and "\<not> bc (last a)"
  shows "length n \<le> length a"
proof (rule ccontr)
  assume "\<not> length n \<le> length a"
  then have less: "length a < length n" by simp
  let ?k = "length a"
  have "take ?k n = a"
    using assms(2) less by (metis append_eq_conv_conj less_imp_le take_append take_all_iff
        diff_is_0_eq take_0 append_Nil2)
  moreover have "drop ?k n @ r = n @ b"
    using assms(2) less by (metis append_eq_conv_conj drop_append diff_is_0_eq drop_0 less_imp_le)
  then have "drop ?k n = take (length n - ?k) n"
    by (metis append_eq_conv_conj length_drop take_append take_drop append_Nil2 append_eq_append_conv_if diff_le_self)
  moreover have "last a = n ! (?k - 1)"
    using \<open>take ?k n = a\<close> assms(3) less by (metis One_nat_def diff_Suc_less last_conv_nth
        length_greater_0_conv nth_take)
  moreover have "?k \<in> set [1..<length n]"
    using less assms(3) by (cases a) auto
  ultimately show False
    using assms(1,4) by (auto simp: overlap_safe_def list_all_iff)
qed

lemma match_from_complete:
  "s = a @ n @ b \<Longrightarrow> a = [] \<or> \<not> bc (last a) \<Longrightarrow> overlap_safe bc n \<Longrightarrow> n \<noteq> [] \<Longrightarrow>
     i + length a \<in> set (match_from i n s)"
proof (induction i n s arbitrary: a rule: match_from.induct)
  case (1 i n)
  then show ?case by simp
next
  case (2 i n c cs)
  note split = "2.prems"(1) and safe = "2.prems"(3) and ne = "2.prems"(4)
  show ?case
  proof (cases "starts_with (c # cs) n")
    case True
    then obtain r where r: "c # cs = n @ r" by (auto simp: starts_with_iff)
    show ?thesis
    proof (cases "a = []")
      case True
      with \<open>starts_with (c # cs) n\<close> ne show ?thesis by simp
    next
      case False
      with "2.prems" have last: "\<not> bc (last a)" by simp
      with False have "length n \<le> length a"
        by (rule overlap_safeD [OF safe r [symmetric, unfolded split]])
      then obtain a' where a': "a = n @ a'" "r = a' @ n @ b"
        using r split by (metis append_eq_append_conv_if append_take_drop_id append.assoc same_append_eq)
      have "a' = [] \<or> \<not> bc (last a')"
        using last a'(1) by auto
      moreover have rest: "drop (length n) (c # cs) = r" unfolding r by simp
      ultimately have "i + length n + length a' \<in> set (match_from (i + length n) n r)"
        using "2.IH"(2) [of a'] a' True safe ne by simp
      with True ne rest a'(1) show ?thesis by (simp add: add.assoc)
    qed
  next
    case False
    then have "a \<noteq> []" using split by (auto simp: starts_with_iff)
    then obtain a' where a': "a = c # a'" "cs = a' @ n @ b"
      using split by (cases a) auto
    then have "a' = [] \<or> \<not> bc (last a')"
      using "2.prems"(2) by auto
    then have "Suc i + length a' \<in> set (match_from (Suc i) n cs)"
      using "2.IH"(3) [of a'] a' False safe ne by simp
    with False ne a'(1) show ?thesis by simp
  qed
qed

text \<open>
  The search of the source, \<open>match_indices(n).any(boundary test)\<close>, decides whether there is
  a delimited occurrence.
\<close>

lemma delimited_match_iff:
  assumes "overlap_safe bc n" and "n \<noteq> []"
  shows "list_ex (match_on_boundary bc s n) (match_indices s n) \<longleftrightarrow> occurs_delimited bc s n"
proof
  assume "list_ex (match_on_boundary bc s n) (match_indices s n)"
  then obtain j where j: "j \<in> set (match_from 0 n s)" "match_on_boundary bc s n j"
    by (auto simp: list_ex_iff match_indices_def)
  from match_from_sound [OF j(1)] obtain a b where "s = a @ n @ b" "j = length a" by auto
  with j(2) show "occurs_delimited bc s n"
    by (auto simp: match_on_boundary_append occurs_delimited_def)
next
  assume "occurs_delimited bc s n"
  then obtain a b where ab: "s = a @ n @ b" "a = [] \<or> \<not> bc (last a)" "b = [] \<or> \<not> bc (hd b)"
    by (auto simp: occurs_delimited_def)
  from match_from_complete [OF ab(1,2) assms, of 0] have "length a \<in> set (match_indices s n)"
    by (simp add: match_indices_def)
  moreover have "match_on_boundary bc s n (length a)"
    using ab by (simp add: match_on_boundary_append)
  ultimately show "list_ex (match_on_boundary bc s n) (match_indices s n)"
    by (auto simp: list_ex_iff)
qed

lemma overlap_safe_all: "(\<And>c. c \<in> set n \<Longrightarrow> bc c) \<Longrightarrow> overlap_safe bc n"
  by (auto simp: overlap_safe_def list_all_iff)

lemma occurs_delimited_exact: "occurs_delimited bc n n"
  unfolding occurs_delimited_def by (intro exI [of _ "[]"]) simp

lemma match_from_occurs: "s = a @ n @ b \<Longrightarrow> match_from i n s \<noteq> []"
proof (induction i n s arbitrary: a rule: match_from.induct)
  case (1 i n)
  then show ?case by simp
next
  case (2 i n c cs)
  show ?case
  proof (cases "n = [] \<or> starts_with (c # cs) n")
    case True
    then show ?thesis by auto
  next
    case False
    with "2.prems" have "a \<noteq> []" by (auto simp: starts_with_iff)
    with "2.prems" obtain a' where "cs = a' @ n @ b" by (cases a) auto
    with False "2.IH"(3) show ?thesis by auto
  qed
qed

lemma str_contains_iff: "str_contains s n \<longleftrightarrow> (\<exists>a b. s = a @ n @ b)"
proof
  assume "str_contains s n"
  then obtain j where "j \<in> set (match_from 0 n s)"
    unfolding str_contains_def match_indices_def by (meson list.set_sel(1))
  then show "\<exists>a b. s = a @ n @ b"
    by (blast dest: match_from_sound)
next
  assume "\<exists>a b. s = a @ n @ b"
  then show "str_contains s n"
    using match_from_occurs [of s _ n] by (auto simp: str_contains_def match_indices_def)
qed

text \<open>\<open>unwrap_or("")\<close>.\<close>

definition text_of :: "ustr option \<Rightarrow> ustr" where
  "text_of x = (case x of None \<Rightarrow> [] | Some s \<Rightarrow> s)"

section \<open>Numbers in text\<close>

text \<open>The digits of a number as \<open>Display\<close> (base 10) and \<open>LowerHex\<close> (base 16) print them.\<close>

definition digit_char :: "nat \<Rightarrow> uchar" where
  "digit_char d = (if d < 10 then 48 + d else 87 + d)"

function show_radix :: "nat \<Rightarrow> nat \<Rightarrow> ustr" where
  "show_radix b n =
     (if b < 2 \<or> n < b then [digit_char n] else show_radix b (n div b) @ [digit_char (n mod b)])"
  by pat_completeness auto
termination
  by (relation "measure snd") auto

declare show_radix.simps [simp del]

definition show_nat :: "nat \<Rightarrow> ustr" where
  "show_nat n = show_radix 10 n"

text \<open>\<open>char::to_digit\<close>.\<close>

definition to_digit :: "nat \<Rightarrow> uchar \<Rightarrow> nat option" where
  "to_digit radix c =
     (let d = (if is_ascii_digit c then Some (c - 48)
               else if 97 \<le> c \<and> c \<le> 122 then Some (c - 87)
               else if 65 \<le> c \<and> c \<le> 90 then Some (c - 55)
               else None)
      in case d of Some v \<Rightarrow> if v < radix then Some v else None | None \<Rightarrow> None)"

lemma to_digit_digit_char [simp]: "d < b \<Longrightarrow> b \<le> 36 \<Longrightarrow> to_digit b (digit_char d) = Some d"
  by (auto simp: to_digit_def digit_char_def is_ascii_digit_def)

lemma show_radix_not_Nil [simp]: "show_radix b n \<noteq> []"
  by (subst show_radix.simps) simp

lemma show_radix_chars:
  "1 < b \<Longrightarrow> c \<in> set (show_radix b n) \<Longrightarrow> \<exists>d < b. c = digit_char d"
proof (induction b n rule: show_radix.induct)
  case (1 b n)
  show ?case
  proof (cases "n < b")
    case True
    with 1 show ?thesis by (auto simp: show_radix.simps [of b n])
  next
    case False
    with "1.prems" have "c \<in> set (show_radix b (n div b)) \<or> c = digit_char (n mod b)"
      by (auto simp: show_radix.simps [of b n])
    then show ?thesis
    proof
      assume "c \<in> set (show_radix b (n div b))"
      with 1 False show ?thesis by simp
    next
      assume "c = digit_char (n mod b)"
      with "1.prems"(1) show ?thesis by (intro exI [of _ "n mod b"]) simp
    qed
  qed
qed

lemma show_nat_digits: "c \<in> set (show_nat n) \<Longrightarrow> is_ascii_digit c"
  unfolding show_nat_def
  by (drule show_radix_chars [rotated]) (auto simp: digit_char_def is_ascii_digit_def)

lemma length_show_radix:
  "1 < b \<Longrightarrow> 0 < k \<Longrightarrow> n < b ^ k \<Longrightarrow> length (show_radix b n) \<le> k"
proof (induction b n arbitrary: k rule: show_radix.induct)
  case (1 b n)
  show ?case
  proof (cases "n < b")
    case True
    with 1 show ?thesis by (simp add: show_radix.simps [of b n])
  next
    case False
    with 1 have "k \<noteq> 1" by auto
    with "1.prems" obtain k' where k': "k = Suc k'" "0 < k'" by (cases k) auto
    with "1.prems" have "n div b < b ^ k'"
      by (simp add: less_mult_imp_div_less mult.commute)
    with 1 False k' show ?thesis by (simp add: show_radix.simps [of b n])
  qed
qed

text \<open>No leading zero, but for zero itself.\<close>

lemma hd_show_radix: "1 < b \<Longrightarrow> hd (show_radix b n) = digit_char 0 \<longleftrightarrow> n = 0"
proof (induction b n rule: show_radix.induct)
  case (1 b n)
  show ?case
  proof (cases "n < b")
    case True
    then show ?thesis by (simp add: show_radix.simps [of b n]) (simp add: digit_char_def)
  next
    case False
    with 1 show ?thesis by (simp add: show_radix.simps [of b n] div_eq_0_iff)
  qed
qed

section \<open>Lower-casing and the other operations\<close>

text \<open>Lower-casing leaves every character outside the letters alone and produces no other.\<close>

lemma ascii_lower_eq_iff: "k < 65 \<or> (90 < k \<and> k < 97) \<or> 122 < k \<Longrightarrow> ascii_lower c = k \<longleftrightarrow> c = k"
  by (auto simp: ascii_lower_def)

lemma is_whitespace_lower [simp]: "is_whitespace (ascii_lower c) = is_whitespace c"
  by (auto simp: is_whitespace_def ascii_lower_def)

lemma is_ascii_digit_lower [simp]: "is_ascii_digit (ascii_lower c) = is_ascii_digit c"
  by (auto simp: is_ascii_digit_def ascii_lower_def)

lemma dropWhile_lower:
  assumes "\<And>c. P (ascii_lower c) = P c"
  shows "dropWhile P (map ascii_lower s) = map ascii_lower (dropWhile P s)"
  using assms by (induction s) auto

lemma trim_lower: "trim (to_ascii_lowercase s) = to_ascii_lowercase (trim s)"
  by (simp add: trim_def trim_start_def trim_end_def to_ascii_lowercase_def dropWhile_lower
      rev_map)

lemma split_on_lower:
  assumes "\<And>c. P (ascii_lower c) = P c"
  shows "split_on P (map ascii_lower s) = map (map ascii_lower) (split_on P s)"
proof (induction s)
  case Nil
  then show ?case by simp
next
  case (Cons c cs)
  with assms show ?case by (cases "split_on P cs") auto
qed

lemma find_char_lower:
  assumes "\<And>x. ascii_lower x = c \<longleftrightarrow> x = c"
  shows "find_char c (map ascii_lower s) = find_char c s"
  using assms by (induction s) auto

lemma rsplit_once_lower:
  assumes "\<And>x. ascii_lower x = c \<longleftrightarrow> x = c"
  shows "rsplit_once c (map ascii_lower s) =
    map_option (map_prod (map ascii_lower) (map ascii_lower)) (rsplit_once c s)"
  using assms by (induction s) (auto split: option.split)

lemma to_digit_lower [simp]: "b \<in> {10, 16} \<Longrightarrow> to_digit b (ascii_lower c) = to_digit b c"
  by (auto simp: to_digit_def is_ascii_digit_def ascii_lower_def)

end
