(* ===== verification/Ip_Addr.thy ===== *)
theory Ip_Addr
  imports Rust_Str
begin

text \<open>
  \<open>std::net::IpAddr\<close> as the program uses it: the addresses, \<open>FromStr\<close> (the backtracking
  parser of the standard library, function by function), \<open>Display\<close> (with the compression of
  the longest zero run), \<open>to_canonical\<close> and the classification predicates. The main results:
  printing an address and parsing the text gives the address back, printing is injective on
  canonical addresses, and printed text contains only address characters.
\<close>

section \<open>Addresses\<close>

datatype ipv4_addr = Ipv4Addr u8 u8 u8 u8

datatype ipv6_addr = Ipv6Addr u16 u16 u16 u16 u16 u16 u16 u16

datatype ip_addr = V4 ipv4_addr | V6 ipv6_addr

fun octets :: "ipv4_addr \<Rightarrow> u8 list" where
  "octets (Ipv4Addr a b c d) = [a, b, c, d]"

fun segments :: "ipv6_addr \<Rightarrow> u16 list" where
  "segments (Ipv6Addr a b c d e f g h) = [a, b, c, d, e, f, g, h]"

text \<open>The address whose segments are the first eight of the list.\<close>

definition v6_of_segments :: "u16 list \<Rightarrow> ipv6_addr" where
  "v6_of_segments s =
     Ipv6Addr (s ! 0) (s ! 1) (s ! 2) (s ! 3) (s ! 4) (s ! 5) (s ! 6) (s ! 7)"

definition u16_from_be_bytes :: "u8 \<Rightarrow> u8 \<Rightarrow> u16" where
  "u16_from_be_bytes hi lo = push_bit 8 (ucast hi) OR ucast lo"

definition hi_byte :: "u16 \<Rightarrow> u8" where
  "hi_byte w = ucast (drop_bit 8 w)"

definition lo_byte :: "u16 \<Rightarrow> u8" where
  "lo_byte w = ucast w"

lemma u16_of_bytes [simp]: "u16_from_be_bytes (hi_byte w) (lo_byte w) = w"
  unfolding u16_from_be_bytes_def hi_byte_def lo_byte_def
  by (rule bit_word_eqI) (auto simp: bit_simps not_le)

lemma hi_byte_of_bytes [simp]: "hi_byte (u16_from_be_bytes a b) = a"
  unfolding u16_from_be_bytes_def hi_byte_def
  by (rule bit_word_eqI) (auto simp: bit_simps dest: bit_imp_le_length)

lemma lo_byte_of_bytes [simp]: "lo_byte (u16_from_be_bytes a b) = b"
  unfolding u16_from_be_bytes_def lo_byte_def
  by (rule bit_word_eqI) (auto simp: bit_simps)

fun to_ipv4_mapped :: "ipv6_addr \<Rightarrow> ipv4_addr option" where
  "to_ipv4_mapped (Ipv6Addr a b c d e f g h) =
     (if a = 0 \<and> b = 0 \<and> c = 0 \<and> d = 0 \<and> e = 0 \<and> f = 0xFFFF
      then Some (Ipv4Addr (hi_byte g) (lo_byte g) (hi_byte h) (lo_byte h)) else None)"

fun to_canonical :: "ip_addr \<Rightarrow> ip_addr" where
  "to_canonical (V4 a) = V4 a"
| "to_canonical (V6 a) = (case to_ipv4_mapped a of Some m \<Rightarrow> V4 m | None \<Rightarrow> V6 a)"

lemma to_canonical_idem [simp]: "to_canonical (to_canonical a) = to_canonical a"
  by (cases a) (auto split: option.split)

lemma to_canonical_V6: "to_canonical a = V6 v \<Longrightarrow> to_ipv4_mapped v = None"
  by (cases a) (auto split: option.splits)

section \<open>Parsing\<close>

text \<open>\<open>read_number\<close> of the standard parser, for a digit limit and a value bound.\<close>

fun read_digits :: "nat \<Rightarrow> nat \<Rightarrow> nat \<Rightarrow> nat \<Rightarrow> ustr \<Rightarrow> (nat \<times> nat \<times> ustr) option" where
  "read_digits radix maxd res cnt [] = Some (res, cnt, [])"
| "read_digits radix maxd res cnt (c # cs) =
     (case to_digit radix c of
        None \<Rightarrow> Some (res, cnt, c # cs)
      | Some d \<Rightarrow>
          if maxd < cnt + 1 then None
          else read_digits radix maxd (res * radix + d) (cnt + 1) cs)"

definition read_number :: "nat \<Rightarrow> nat \<Rightarrow> bool \<Rightarrow> nat \<Rightarrow> ustr \<Rightarrow> (nat \<times> ustr) option" where
  "read_number radix maxd allow_zero_prefix bound s =
     (let has_leading_zero = (case s of c # _ \<Rightarrow> c = 48 | [] \<Rightarrow> False)
      in case read_digits radix maxd 0 0 s of
           None \<Rightarrow> None
         | Some (res, cnt, rest) \<Rightarrow>
             if cnt = 0 then None
             else if \<not> allow_zero_prefix \<and> has_leading_zero \<and> 1 < cnt then None
             else if res \<le> bound then Some (res, rest) else None)"

definition read_given_char :: "uchar \<Rightarrow> ustr \<Rightarrow> ustr option" where
  "read_given_char c s = (case s of x # xs \<Rightarrow> if x = c then Some xs else None | [] \<Rightarrow> None)"

definition read_separator :: "uchar \<Rightarrow> nat \<Rightarrow> (ustr \<Rightarrow> ('a \<times> ustr) option) \<Rightarrow> ustr \<Rightarrow> ('a \<times> ustr) option" where
  "read_separator sep i inner s =
     (if 0 < i then (case read_given_char sep s of Some r \<Rightarrow> inner r | None \<Rightarrow> None) else inner s)"

text \<open>\<open>read_ipv4_addr\<close>: the loop over the four slots, \<open>k\<close> of them left.\<close>

fun read_octets :: "nat \<Rightarrow> nat \<Rightarrow> ustr \<Rightarrow> (u8 list \<times> ustr) option" where
  "read_octets i 0 s = Some ([], s)"
| "read_octets i (Suc k) s =
     (case read_separator 46 i (read_number 10 3 False 255) s of
        None \<Rightarrow> None
      | Some (n, r) \<Rightarrow>
          (case read_octets (Suc i) k r of
             None \<Rightarrow> None
           | Some (ns, r') \<Rightarrow> Some (of_nat n # ns, r')))"

definition read_ipv4_addr :: "ustr \<Rightarrow> (ipv4_addr \<times> ustr) option" where
  "read_ipv4_addr s =
     (case read_octets 0 4 s of
        Some (ns, r) \<Rightarrow> Some (Ipv4Addr (ns ! 0) (ns ! 1) (ns ! 2) (ns ! 3), r)
      | None \<Rightarrow> None)"

text \<open>
  \<open>read_groups\<close> from slot \<open>i\<close> with \<open>k\<close> slots left: the groups read, whether the last two
  came from an embedded IPv4 address, and the rest of the text.
\<close>

fun read_groups :: "nat \<Rightarrow> nat \<Rightarrow> ustr \<Rightarrow> u16 list \<times> bool \<times> ustr" where
  "read_groups i 0 s = ([], False, s)"
| "read_groups i (Suc k) s =
     (case (if 0 < k then read_separator 58 i read_ipv4_addr s else None) of
        Some (Ipv4Addr one two three four, r) \<Rightarrow>
          ([u16_from_be_bytes one two, u16_from_be_bytes three four], True, r)
      | None \<Rightarrow>
          (case read_separator 58 i (read_number 16 4 True 65535) s of
             Some (g, r) \<Rightarrow>
               (let (gs, v4, r') = read_groups (Suc i) k r in (of_nat g # gs, v4, r'))
           | None \<Rightarrow> ([], False, s)))"

definition read_ipv6_addr :: "ustr \<Rightarrow> (ipv6_addr \<times> ustr) option" where
  "read_ipv6_addr s =
     (case read_groups 0 8 s of (head, head_ipv4, r) \<Rightarrow>
        if length head = 8 then Some (v6_of_segments head, r)
        else if head_ipv4 then None
        else (case read_given_char 58 r of
                None \<Rightarrow> None
              | Some r1 \<Rightarrow>
                  (case read_given_char 58 r1 of
                     None \<Rightarrow> None
                   | Some r2 \<Rightarrow>
                       (case read_groups 0 (8 - (length head + 1)) r2 of (tail, _, r3) \<Rightarrow>
                          Some (v6_of_segments
                                  (head @ replicate (8 - (length head + length tail)) 0 @ tail),
                                r3)))))"

definition read_ip_addr :: "ustr \<Rightarrow> (ip_addr \<times> ustr) option" where
  "read_ip_addr s =
     (case read_ipv4_addr s of
        Some (a, r) \<Rightarrow> Some (V4 a, r)
      | None \<Rightarrow> map_option (map_prod V6 id) (read_ipv6_addr s))"

text \<open>\<open>str::parse::<IpAddr>\<close>: the whole text has to be used up.\<close>

definition parse_ip :: "ustr \<Rightarrow> ip_addr option" where
  "parse_ip s =
     (case read_ip_addr s of Some (a, r) \<Rightarrow> if r = [] then Some a else None | None \<Rightarrow> None)"

section \<open>Printing\<close>

definition show_ipv4 :: "ipv4_addr \<Rightarrow> ustr" where
  "show_ipv4 a = join [46] (map (\<lambda>v. show_nat (unat v)) (octets a))"

text \<open>The longest run of zero segments: \<open>(start, len)\<close>, the first one of that length.\<close>

fun longest_zeroes :: "nat \<Rightarrow> nat \<times> nat \<Rightarrow> nat \<times> nat \<Rightarrow> u16 list \<Rightarrow> nat \<times> nat" where
  "longest_zeroes i longest cur [] = longest"
| "longest_zeroes i longest cur (x # xs) =
     (if x = 0 then
        (let cur' = (if snd cur = 0 then i else fst cur, snd cur + 1)
         in longest_zeroes (Suc i) (if snd longest < snd cur' then cur' else longest) cur' xs)
      else longest_zeroes (Suc i) longest (0, 0) xs)"

definition fmt_subslice :: "u16 list \<Rightarrow> ustr" where
  "fmt_subslice ws = join [58] (map (\<lambda>w. show_radix 16 (unat w)) ws)"

definition show_ipv6 :: "ipv6_addr \<Rightarrow> ustr" where
  "show_ipv6 a =
     (case to_ipv4_mapped a of
        Some v4 \<Rightarrow> lit ''::ffff:'' @ show_ipv4 v4
      | None \<Rightarrow>
          (let s = segments a; (start, len) = longest_zeroes 0 (0, 0) (0, 0) s
           in if 1 < len
              then fmt_subslice (take start s) @ [58, 58] @ fmt_subslice (drop (start + len) s)
              else fmt_subslice s))"

fun show_ip :: "ip_addr \<Rightarrow> ustr" where
  "show_ip (V4 a) = show_ipv4 a"
| "show_ip (V6 a) = show_ipv6 a"

section \<open>Reading back a printed number\<close>

lemma read_digits_show:
  "1 < b \<Longrightarrow> b \<le> 36 \<Longrightarrow> cnt + length (show_radix b n) \<le> maxd \<Longrightarrow>
   read_digits b maxd res cnt (show_radix b n @ rest) =
     read_digits b maxd (res * b ^ length (show_radix b n) + n) (cnt + length (show_radix b n)) rest"
proof (induction b n arbitrary: rest rule: show_radix.induct)
  case (1 b n)
  show ?case
  proof (cases "n < b")
    case True
    with 1 show ?thesis by (simp add: show_radix.simps [of b n])
  next
    case False
    let ?l = "length (show_radix b (n div b))"
    have eq: "show_radix b n = show_radix b (n div b) @ [digit_char (n mod b)]"
      using False "1.prems" by (subst show_radix.simps) simp
    have m: "n mod b < b" using "1.prems" by simp
    have "(res * b ^ ?l + n div b) * b + n mod b = res * b ^ Suc ?l + n"
      by (simp add: algebra_simps)
    with 1 False m show ?thesis by (simp add: eq)
  qed
qed

text \<open>The text after a number is empty or starts with a character that is no digit.\<close>

definition ends_number :: "nat \<Rightarrow> ustr \<Rightarrow> bool" where
  "ends_number b rest \<longleftrightarrow> (case rest of [] \<Rightarrow> True | c # _ \<Rightarrow> to_digit b c = None)"

lemma read_digits_end: "ends_number b rest \<Longrightarrow> read_digits b maxd res cnt rest = Some (res, cnt, rest)"
  by (cases rest) (auto simp: ends_number_def)

lemma ends_number_simps [simp]:
  "ends_number b []"
  "ends_number 10 (46 # s)" "ends_number 10 (58 # s)" "ends_number 16 (58 # s)"
  by (simp_all add: ends_number_def to_digit_def is_ascii_digit_def)

lemma read_number_show:
  assumes b: "1 < b" "b \<le> 36" and len: "length (show_radix b n) \<le> maxd"
    and le: "n \<le> bound" and rest: "ends_number b rest"
  shows "read_number b maxd z bound (show_radix b n @ rest) = Some (n, rest)"
proof -
  have read: "read_digits b maxd 0 0 (show_radix b n @ rest) = Some (n, length (show_radix b n), rest)"
    using b len rest by (simp add: read_digits_show read_digits_end)
  have "length (show_radix b n) = 1" if "case show_radix b n @ rest of c # _ \<Rightarrow> c = 48 | [] \<Rightarrow> False"
  proof -
    have "hd (show_radix b n) = digit_char 0"
      using that by (cases "show_radix b n") (auto simp: digit_char_def)
    then have "n = 0" using hd_show_radix b by simp
    with b show ?thesis by (simp add: show_radix.simps [of b 0])
  qed
  with read le show ?thesis
    by (auto simp: read_number_def Let_def)
qed

lemma read_octet_show:
  fixes w :: u8
  assumes "ends_number 10 rest"
  shows "read_number 10 3 False 255 (show_nat (unat w) @ rest) = Some (unat w, rest)"
proof -
  have "unat w < 256" by (rule unat_u8_less)
  then have "length (show_radix 10 (unat w)) \<le> 3" by (intro length_show_radix) simp_all
  with \<open>unat w < 256\<close> assms show ?thesis
    by (simp add: show_nat_def read_number_show)
qed

lemma read_group_show:
  fixes w :: u16
  assumes "ends_number 16 rest"
  shows "read_number 16 4 True 65535 (show_radix 16 (unat w) @ rest) = Some (unat w, rest)"
proof -
  have "unat w < 65536" by (rule unat_u16_less)
  then have "length (show_radix 16 (unat w)) \<le> 4" by (intro length_show_radix) simp_all
  with \<open>unat w < 65536\<close> assms show ?thesis
    by (simp add: read_number_show)
qed

section \<open>Reading back an IPv4 address\<close>

lemma read_octets_pos [addr_eval]:
  "0 < k \<Longrightarrow> read_octets i k s =
     (case read_separator 46 i (read_number 10 3 False 255) s of
        None \<Rightarrow> None
      | Some (n, r) \<Rightarrow>
          (case read_octets (Suc i) (k - 1) r of
             None \<Rightarrow> None
           | Some (ns, r') \<Rightarrow> Some (of_nat n # ns, r')))"
  by (cases k, simp, simp only: read_octets.simps diff_Suc_1)

lemma read_groups_pos [addr_eval]:
  "0 < k \<Longrightarrow> read_groups i k s =
     (case (if 1 < k then read_separator 58 i read_ipv4_addr s else None) of
        Some (Ipv4Addr one two three four, r) \<Rightarrow>
          ([u16_from_be_bytes one two, u16_from_be_bytes three four], True, r)
      | None \<Rightarrow>
          (case read_separator 58 i (read_number 16 4 True 65535) s of
             Some (g, r) \<Rightarrow>
               (let (gs, v4, r') = read_groups (Suc i) (k - 1) r in (of_nat g # gs, v4, r'))
           | None \<Rightarrow> ([], False, s)))"
  by (cases k, simp, simp only: read_groups.simps One_nat_def Suc_less_eq diff_Suc_Suc minus_nat.diff_0)

lemma read_separator_simps [simp]:
  "read_separator sep 0 inner s = inner s"
  "read_separator sep (Suc i) inner [] = None"
  "read_separator sep (Suc i) inner (c # s) = (if c = sep then inner s else None)"
  by (simp_all add: read_separator_def read_given_char_def)

lemma read_ipv4_show:
  assumes "ends_number 10 rest"
  shows "read_ipv4_addr (show_ipv4 a @ rest) = Some (a, rest)"
  using assms
  by (cases a) (simp add: show_ipv4_def read_ipv4_addr_def read_octets_pos read_octet_show)

section \<open>Reading back an IPv6 address\<close>

text \<open>
  Group text never parses as an IPv4 address: no dot follows the digits it starts with.
\<close>

lemma read_digits_Some:
  "read_digits b maxd res cnt s = Some (res', cnt', rest) \<Longrightarrow>
     \<exists>p. s = p @ rest \<and> (\<forall>c \<in> set p. to_digit b c \<noteq> None) \<and> ends_number b rest"
proof (induction b maxd res cnt s rule: read_digits.induct)
  case (1 radix maxd res cnt)
  then show ?case by simp
next
  case (2 radix maxd res cnt c cs)
  show ?case
  proof (cases "to_digit radix c")
    case None
    with "2.prems" show ?thesis by (auto simp: ends_number_def)
  next
    case (Some d)
    with "2.prems" have "\<not> maxd < cnt + 1" by auto
    with 2 Some obtain p where "cs = p @ rest" "\<forall>c \<in> set p. to_digit radix c \<noteq> None" "ends_number radix rest"
      by auto
    with Some show ?thesis by (intro exI [of _ "c # p"]) auto
  qed
qed

lemma read_number_Some:
  "read_number b maxd z bound s = Some (n, rest) \<Longrightarrow>
     \<exists>p. s = p @ rest \<and> (\<forall>c \<in> set p. to_digit b c \<noteq> None) \<and> ends_number b rest"
  by (auto simp: read_number_def Let_def dest!: read_digits_Some split: option.splits if_splits)

lemma read_ipv4_needs_dot:
  assumes "read_ipv4_addr s = Some r"
  obtains p q where "s = p @ 46 # q" and "\<forall>c \<in> set p. to_digit 10 c \<noteq> None"
proof -
  from assms obtain n r1 where first: "read_number 10 3 False 255 s = Some (n, r1)"
    and second: "read_octets 1 3 r1 \<noteq> None"
    by (auto simp: read_ipv4_addr_def read_octets_pos split: option.splits prod.splits)
  from second obtain q where "r1 = 46 # q"
    by (cases r1) (auto simp: read_octets_pos split: if_splits)
  with read_number_Some [OF first] that show ?thesis by auto
qed

lemma read_ipv4_group_None:
  assumes "46 \<notin> set w" and "t = [] \<or> hd t = 58"
  shows "read_ipv4_addr (w @ t) = None"
proof (rule ccontr)
  assume "read_ipv4_addr (w @ t) \<noteq> None"
  then obtain p q where eq: "w @ t = p @ 46 # q" and p: "\<forall>c \<in> set p. to_digit 10 c \<noteq> None"
    by (auto elim: read_ipv4_needs_dot)
  have "to_digit 10 58 = None" by (simp add: to_digit_def is_ascii_digit_def)
  with p have no58: "58 \<notin> set p" by auto
  from eq obtain us where "w = p @ us \<and> us @ t = 46 # q \<or> w @ us = p \<and> t = us @ 46 # q"
    by (auto simp: append_eq_append_conv2)
  then show False
  proof
    assume us: "w = p @ us \<and> us @ t = 46 # q"
    then show False using assms by (cases us) auto
  next
    assume "w @ us = p \<and> t = us @ 46 # q"
    with assms(2) no58 show False by (cases us) auto
  qed
qed

lemma no_dot_hex [simp]: "46 \<notin> set (show_radix 16 n)"
  by (auto dest!: show_radix_chars [rotated] simp: digit_char_def split: if_splits)

text \<open>The groups of an address, each behind its colon.\<close>

definition colon_groups :: "u16 list \<Rightarrow> ustr" where
  "colon_groups gs = concat (map (\<lambda>g. 58 # show_radix 16 (unat g)) gs)"

lemma colon_groups_simps [simp]:
  "colon_groups [] = []"
  "colon_groups (g # gs) = 58 # show_radix 16 (unat g) @ colon_groups gs"
  by (simp_all add: colon_groups_def)

lemma fmt_subslice_Cons: "fmt_subslice (g # gs) = show_radix 16 (unat g) @ colon_groups gs"
proof (induction gs arbitrary: g)
  case Nil
  then show ?case by (simp add: fmt_subslice_def)
next
  case (Cons h gs)
  then show ?case by (simp add: fmt_subslice_def)
qed

lemma fmt_subslice_Nil [simp]: "fmt_subslice [] = []"
  by (simp add: fmt_subslice_def)

definition ends_groups :: "ustr \<Rightarrow> bool" where
  "ends_groups rest \<longleftrightarrow> rest = [] \<or> (\<exists>t. rest = 58 # 58 # t)"

lemma ends_groups_colon: "ends_groups rest \<Longrightarrow> colon_groups gs @ rest = [] \<or> hd (colon_groups gs @ rest) = 58"
  by (cases gs) (auto simp: ends_groups_def)

lemma ends_groups_number: "ends_groups rest \<Longrightarrow> ends_number 16 (colon_groups gs @ rest)"
  by (cases gs) (auto simp: ends_groups_def)

lemma read_ipv4_group_show [simp]:
  "ends_groups rest \<Longrightarrow> read_ipv4_addr (show_radix 16 n @ colon_groups gs @ rest) = None"
  by (rule read_ipv4_group_None [OF no_dot_hex ends_groups_colon])

lemma read_group_then_groups [simp]:
  "ends_groups rest \<Longrightarrow>
     read_number 16 4 True 65535 (show_radix 16 (unat w) @ colon_groups gs @ rest) =
       Some (unat (w :: u16), colon_groups gs @ rest)"
  by (rule read_group_show [OF ends_groups_number])

lemmas last_group_simps [simp] =
  read_ipv4_group_show [where gs = "[]", simplified] read_group_then_groups [where gs = "[]", simplified]

lemma read_number_colon [simp]: "read_number b maxd z bound (58 # t) = None" if "b \<in> {10, 16}"
  using that by (auto simp: read_number_def to_digit_def is_ascii_digit_def)

lemma read_number_Nil [simp]: "read_number b maxd z bound [] = None"
  by (simp add: read_number_def)

lemma read_ipv4_colon [simp]: "read_ipv4_addr (58 # t) = None"
  using read_ipv4_group_None [of "[]" "58 # t"] by simp

lemma read_ipv4_Nil [simp]: "read_ipv4_addr [] = None"
  using read_ipv4_group_None [of "[]" "[]"] by simp

lemma read_groups_behind_colon:
  "length gs \<le> k \<Longrightarrow> ends_groups rest \<Longrightarrow>
     read_groups (Suc i) k (colon_groups gs @ rest) = (gs, False, rest)"
proof (induction gs arbitrary: i k)
  case Nil
  then show ?case
    by (cases k) (auto simp: ends_groups_def)
next
  case (Cons g gs)
  then obtain k' where k: "k = Suc k'" "length gs \<le> k'" by (cases k) auto
  with Cons.IH [of k' "Suc i"] Cons.prems show ?case
    by (cases "k' = 0") simp_all
qed

lemma read_groups_show:
  assumes "length gs \<le> k" and "ends_groups rest"
  shows "read_groups 0 k (fmt_subslice gs @ rest) = (gs, False, rest)"
proof (cases gs)
  case Nil
  with assms show ?thesis
    by (cases k) (auto simp: ends_groups_def)
next
  case (Cons g gs')
  with assms obtain k' where k: "k = Suc k'" "length gs' \<le> k'" by (cases k) auto
  with Cons assms read_groups_behind_colon [of gs' k' rest 0] show ?thesis
    by (cases "k' = 0") (simp_all add: fmt_subslice_Cons)
qed

text \<open>The run the printer compresses consists of zero segments of the address.\<close>

definition zero_run :: "u16 list \<Rightarrow> nat \<times> nat \<Rightarrow> bool" where
  "zero_run ss p \<longleftrightarrow> fst p + snd p \<le> length ss \<and> (\<forall>j < snd p. ss ! (fst p + j) = 0)"

lemma longest_zeroes_run:
  "ss = pre @ xs \<Longrightarrow> i = length pre \<Longrightarrow> zero_run ss longest \<Longrightarrow> zero_run ss cur \<Longrightarrow>
     (0 < snd cur \<longrightarrow> fst cur + snd cur = i) \<Longrightarrow> zero_run ss (longest_zeroes i longest cur xs)"
proof (induction i longest cur xs arbitrary: pre rule: longest_zeroes.induct)
  case (1 i longest cur)
  then show ?case by simp
next
  case (2 i longest cur x xs)
  have pre: "ss = (pre @ [x]) @ xs" "Suc i = length (pre @ [x])"
    using "2.prems" by simp_all
  show ?case
  proof (cases "x = 0")
    case True
    define cur' where "cur' = (if snd cur = 0 then i else fst cur, snd cur + 1)"
    have pos: "fst cur' + snd cur' = Suc i"
      using "2.prems"(5) by (auto simp: cur'_def)
    have "ss ! i = 0" using "2.prems"(1,2) True by (simp add: nth_append)
    then have "zero_run ss cur'"
      using "2.prems" by (auto simp: zero_run_def cur'_def less_Suc_eq)
    then have "zero_run ss (longest_zeroes (Suc i) (if snd longest < snd cur' then cur' else longest) cur' xs)"
      using "2.IH"(1) [OF True cur'_def pre] "2.prems"(3) pos by auto
    moreover have "longest_zeroes i longest cur (x # xs) =
        longest_zeroes (Suc i) (if snd longest < snd cur' then cur' else longest) cur' xs"
      using True by (simp only: longest_zeroes.simps Let_def cur'_def if_True refl)
    ultimately show ?thesis by simp
  next
    case False
    have "zero_run ss (0, 0)" by (simp add: zero_run_def)
    with "2.IH"(2) [OF False pre] "2.prems"(3) False show ?thesis by simp
  qed
qed

lemma zero_run_split:
  assumes "zero_run ss (st, len)"
  shows "take st ss @ replicate len 0 @ drop (st + len) ss = ss"
proof -
  have "take len (drop st ss) = replicate len 0"
    using assms by (auto simp: zero_run_def list_eq_iff_nth_eq)
  then show ?thesis
    by (metis append_take_drop_id drop_drop add.commute)
qed

lemma v6_of_segments_segments [simp]: "v6_of_segments (segments a) = a"
  by (cases a) (simp add: v6_of_segments_def)

lemma length_segments [simp]: "length (segments a) = 8"
  by (cases a) simp

lemma read_ipv6_mapped:
  assumes "to_ipv4_mapped a = Some v4"
  shows "read_ipv6_addr (show_ipv6 a) = Some (a, [])"
proof -
  obtain g h where a: "a = Ipv6Addr 0 0 0 0 0 0xFFFF g h"
    and v4: "v4 = Ipv4Addr (hi_byte g) (lo_byte g) (hi_byte h) (lo_byte h)"
    using assms by (cases a) (auto split: if_splits)
  let ?ffff = "show_radix 16 65535"
  have shown: "show_ipv6 a = 58 # 58 # ?ffff @ 58 # show_ipv4 v4"
    using assms by (simp add: show_ipv6_def str_eval show_radix.simps digit_char_def)
  have no_v4: "read_ipv4_addr (?ffff @ 58 # show_ipv4 v4) = None"
    by (rule read_ipv4_group_None) simp_all
  have ffff: "read_number 16 4 True 65535 (?ffff @ 58 # show_ipv4 v4) = Some (65535, 58 # show_ipv4 v4)"
    using read_group_show [of "58 # show_ipv4 v4" 65535] by simp
  have "read_ipv4_addr (show_ipv4 v4) = Some (v4, [])"
    using read_ipv4_show [of "[]" v4] by simp
  then have dotted: "read_ipv4_addr (show_ipv4 v4) =
      Some (Ipv4Addr (hi_byte g) (lo_byte g) (hi_byte h) (lo_byte h), [])"
    by (simp only: v4)
  have tail: "read_groups 0 7 (?ffff @ 58 # show_ipv4 v4) = ([0xFFFF, g, h], True, [])"
    by (simp add: read_groups_pos no_v4 ffff dotted)
  have head: "read_groups 0 8 (58 # 58 # ?ffff @ 58 # show_ipv4 v4) =
      ([], False, 58 # 58 # ?ffff @ 58 # show_ipv4 v4)"
    by (simp add: read_groups_pos)
  have segs: "v6_of_segments (replicate 5 0 @ [0xFFFF, g, h]) = Ipv6Addr 0 0 0 0 0 0xFFFF g h"
    by (simp add: v6_of_segments_def nth_append)
  show ?thesis
    unfolding shown read_ipv6_addr_def head
    by (simp add: read_given_char_def tail segs a)
qed

lemma read_ipv6_plain:
  assumes "to_ipv4_mapped a = None"
  shows "read_ipv6_addr (show_ipv6 a) = Some (a, [])"
proof -
  obtain st len where z: "longest_zeroes 0 (0, 0) (0, 0) (segments a) = (st, len)" by force
  have run: "zero_run (segments a) (st, len)"
    using longest_zeroes_run [of "segments a" "[]" "segments a" 0 "(0, 0)" "(0, 0)"] z
    by (simp add: zero_run_def)
  show ?thesis
  proof (cases "1 < len")
    case True
    let ?hd = "take st (segments a)" and ?tl = "drop (st + len) (segments a)"
    have le: "st + len \<le> 8" using run by (simp add: zero_run_def)
    have shown: "show_ipv6 a = fmt_subslice ?hd @ 58 # 58 # fmt_subslice ?tl"
      using assms z True by (simp add: show_ipv6_def Let_def)
    have head: "read_groups 0 8 (fmt_subslice ?hd @ 58 # 58 # fmt_subslice ?tl) =
        (?hd, False, 58 # 58 # fmt_subslice ?tl)"
      using le by (intro read_groups_show) (auto simp: ends_groups_def)
    have tail: "read_groups 0 (8 - (length ?hd + 1)) (fmt_subslice ?tl) = (?tl, False, [])"
      using read_groups_show [of ?tl "8 - (length ?hd + 1)" "[]"] le True
      by (simp add: ends_groups_def)
    have "?hd @ replicate (8 - (length ?hd + length ?tl)) 0 @ ?tl = segments a"
      using zero_run_split [OF run] le by simp
    with head tail le True show ?thesis
      by (simp add: shown read_ipv6_addr_def read_given_char_def)
  next
    case False
    then have "show_ipv6 a = fmt_subslice (segments a)"
      using assms z by (simp add: show_ipv6_def Let_def)
    moreover have "read_groups 0 8 (fmt_subslice (segments a)) = (segments a, False, [])"
      using read_groups_show [of "segments a" 8 "[]"] by (simp add: ends_groups_def)
    ultimately show ?thesis by (simp add: read_ipv6_addr_def)
  qed
qed

lemma read_ipv6_show: "read_ipv6_addr (show_ipv6 a) = Some (a, [])"
  by (cases "to_ipv4_mapped a") (simp_all add: read_ipv6_plain read_ipv6_mapped)

section \<open>The round trip\<close>

text \<open>An IPv6 text does not start like an IPv4 address.\<close>

lemma read_ipv4_show_ipv6: "read_ipv4_addr (show_ipv6 a) = None"
proof (cases "to_ipv4_mapped a")
  case (Some v4)
  then show ?thesis by (simp add: show_ipv6_def str_eval)
next
  case None
  have group: "read_ipv4_addr (fmt_subslice ws @ t) = None" if "t = [] \<or> hd t = 58" for ws t
  proof (cases ws)
    case Nil
    with that show ?thesis by (cases t) auto
  next
    case (Cons w ws')
    have "colon_groups ws' @ t = [] \<or> hd (colon_groups ws' @ t) = 58"
      using that by (cases ws') auto
    with Cons show ?thesis by (simp add: fmt_subslice_Cons read_ipv4_group_None)
  qed
  show ?thesis
    using None group [of "[]"] group [of "58 # 58 # u" for u]
    by (simp add: show_ipv6_def Let_def split: prod.split)
qed

lemma parse_show_ip: "parse_ip (show_ip a) = Some a"
proof (cases a)
  case (V4 v)
  with read_ipv4_show [of "[]" v] show ?thesis
    by (simp add: parse_ip_def read_ip_addr_def)
next
  case (V6 v)
  then show ?thesis
    by (simp add: parse_ip_def read_ip_addr_def read_ipv4_show_ipv6 read_ipv6_show)
qed

lemma show_ip_inject [simp]: "show_ip a = show_ip b \<longleftrightarrow> a = b"
  using parse_show_ip by (metis option.inject)

section \<open>The characters of an address text\<close>

definition is_ipv4_char :: "uchar \<Rightarrow> bool" where
  "is_ipv4_char c \<longleftrightarrow> is_ascii_digit c \<or> c = 46"

definition is_ipv6_char :: "uchar \<Rightarrow> bool" where
  "is_ipv6_char c \<longleftrightarrow> is_ascii_hexdigit c \<or> c = 58 \<or> c = 46"

lemma set_join: "set (join sep ws) \<subseteq> set sep \<union> (\<Union>w \<in> set ws. set w)"
  by (induction sep ws rule: join.induct) auto

lemma show_ipv4_chars: "c \<in> set (show_ipv4 a) \<Longrightarrow> is_ipv4_char c"
  using set_join [of "[46]" "map (\<lambda>v. show_nat (unat v)) (octets a)"]
  by (auto simp: show_ipv4_def is_ipv4_char_def dest!: subsetD show_nat_digits)

lemma show_hex_chars: "c \<in> set (show_radix 16 n) \<Longrightarrow> is_ascii_digit c \<or> (97 \<le> c \<and> c \<le> 102)"
  by (auto dest!: show_radix_chars [rotated] simp: digit_char_def is_ascii_digit_def split: if_splits)

lemma fmt_subslice_chars:
  "c \<in> set (fmt_subslice ws) \<Longrightarrow> c = 58 \<or> is_ascii_digit c \<or> (97 \<le> c \<and> c \<le> 102)"
  using set_join [of "[58]" "map (\<lambda>w. show_radix 16 (unat w)) ws"]
  by (auto simp: fmt_subslice_def dest!: subsetD show_hex_chars)

lemma show_ipv6_plain_chars:
  "to_ipv4_mapped a = None \<Longrightarrow> c \<in> set (show_ipv6 a) \<Longrightarrow>
     c = 58 \<or> is_ascii_digit c \<or> (97 \<le> c \<and> c \<le> 102)"
  by (auto simp: show_ipv6_def Let_def dest!: fmt_subslice_chars split: prod.splits if_splits)

lemma show_ipv6_chars: "c \<in> set (show_ipv6 a) \<Longrightarrow> is_ipv6_char c \<and> \<not> (65 \<le> c \<and> c \<le> 90)"
proof (cases "to_ipv4_mapped a")
  case None
  assume "c \<in> set (show_ipv6 a)"
  with None have "c = 58 \<or> is_ascii_digit c \<or> (97 \<le> c \<and> c \<le> 102)"
    by (rule show_ipv6_plain_chars)
  then show ?thesis
    by (auto simp: is_ipv6_char_def is_ascii_hexdigit_def is_ascii_digit_def)
next
  case (Some v4)
  assume "c \<in> set (show_ipv6 a)"
  with Some have "c = 58 \<or> c = 102 \<or> c \<in> set (show_ipv4 v4)"
    by (auto simp: show_ipv6_def str_eval)
  then show ?thesis
    by (auto dest!: show_ipv4_chars
        simp: is_ipv6_char_def is_ipv4_char_def is_ascii_hexdigit_def is_ascii_digit_def)
qed

lemma show_ip_chars: "c \<in> set (show_ip a) \<Longrightarrow> is_ipv6_char c \<and> \<not> (65 \<le> c \<and> c \<le> 90)"
  by (cases a) (auto dest!: show_ipv4_chars show_ipv6_chars
      simp: is_ipv6_char_def is_ipv4_char_def is_ascii_hexdigit_def is_ascii_digit_def)

lemma ipv6_char_no_ws: "is_ipv6_char c \<Longrightarrow> \<not> is_whitespace c \<and> c \<noteq> 91 \<and> c \<noteq> 44 \<and> c \<noteq> 10"
  by (auto simp: is_ipv6_char_def is_ascii_hexdigit_def is_ascii_digit_def is_whitespace_def)

lemma show_ip_lower [simp]: "to_ascii_lowercase (show_ip a) = show_ip a"
  by (rule to_ascii_lowercase_id) (use show_ip_chars in blast)

lemma trim_show_ip [simp]: "trim (show_ip a) = show_ip a"
  by (rule trim_no_ws) (use show_ip_chars ipv6_char_no_ws in blast)

lemma show_ipv4_not_Nil [simp]: "show_ipv4 a \<noteq> []"
  by (cases a) (simp add: show_ipv4_def)

lemma show_ipv6_colon: "58 \<in> set (show_ipv6 a)"
proof (cases "to_ipv4_mapped a")
  case (Some v4)
  then show ?thesis by (simp add: show_ipv6_def str_eval)
next
  case None
  have "58 \<in> set (fmt_subslice (segments a))"
    by (cases a) (simp add: fmt_subslice_def)
  with None show ?thesis
    by (cases "longest_zeroes 0 (0, 0) (0, 0) (segments a)") (simp add: show_ipv6_def Let_def)
qed

lemma show_ip_not_Nil [simp]: "show_ip a \<noteq> []"
proof (cases a)
  case (V6 v)
  have "show_ipv6 v \<noteq> []"
    using show_ipv6_colon [of v] by (cases "show_ipv6 v") auto
  with V6 show ?thesis by simp
qed simp

section \<open>Classification predicates\<close>

fun v4_is_loopback :: "ipv4_addr \<Rightarrow> bool" where
  "v4_is_loopback (Ipv4Addr a b c d) \<longleftrightarrow> a = 127"

fun v4_is_private :: "ipv4_addr \<Rightarrow> bool" where
  "v4_is_private (Ipv4Addr a b c d) \<longleftrightarrow>
     a = 10 \<or> (a = 172 \<and> 16 \<le> b \<and> b \<le> 31) \<or> (a = 192 \<and> b = 168)"

fun v4_is_link_local :: "ipv4_addr \<Rightarrow> bool" where
  "v4_is_link_local (Ipv4Addr a b c d) \<longleftrightarrow> a = 169 \<and> b = 254"

fun v4_is_unspecified :: "ipv4_addr \<Rightarrow> bool" where
  "v4_is_unspecified (Ipv4Addr a b c d) \<longleftrightarrow> a = 0 \<and> b = 0 \<and> c = 0 \<and> d = 0"

fun v4_is_broadcast :: "ipv4_addr \<Rightarrow> bool" where
  "v4_is_broadcast (Ipv4Addr a b c d) \<longleftrightarrow> a = 255 \<and> b = 255 \<and> c = 255 \<and> d = 255"

fun v4_is_multicast :: "ipv4_addr \<Rightarrow> bool" where
  "v4_is_multicast (Ipv4Addr a b c d) \<longleftrightarrow> 224 \<le> a \<and> a \<le> 239"

fun v4_is_documentation :: "ipv4_addr \<Rightarrow> bool" where
  "v4_is_documentation (Ipv4Addr a b c d) \<longleftrightarrow>
     (a = 192 \<and> b = 0 \<and> c = 2) \<or> (a = 198 \<and> b = 51 \<and> c = 100) \<or> (a = 203 \<and> b = 0 \<and> c = 113)"

definition v6_is_unspecified :: "ipv6_addr \<Rightarrow> bool" where
  "v6_is_unspecified a \<longleftrightarrow> segments a = [0, 0, 0, 0, 0, 0, 0, 0]"

definition v6_is_loopback :: "ipv6_addr \<Rightarrow> bool" where
  "v6_is_loopback a \<longleftrightarrow> segments a = [0, 0, 0, 0, 0, 0, 0, 1]"

definition v6_is_multicast :: "ipv6_addr \<Rightarrow> bool" where
  "v6_is_multicast a \<longleftrightarrow> segments a ! 0 AND 0xFF00 = 0xFF00"

definition v6_is_unique_local :: "ipv6_addr \<Rightarrow> bool" where
  "v6_is_unique_local a \<longleftrightarrow> segments a ! 0 AND 0xFE00 = 0xFC00"

definition v6_is_unicast_link_local :: "ipv6_addr \<Rightarrow> bool" where
  "v6_is_unicast_link_local a \<longleftrightarrow> segments a ! 0 AND 0xFFC0 = 0xFE80"

text \<open>\<open>u128::from(Ipv6Addr)\<close> and \<open>Ipv6Addr::from(u128)\<close>, big-endian.\<close>

definition append_segment :: "u128 \<Rightarrow> u16 \<Rightarrow> u128" where
  "append_segment acc s = push_bit 16 acc OR ucast s"

definition u128_of_v6 :: "ipv6_addr \<Rightarrow> u128" where
  "u128_of_v6 a = foldl append_segment 0 (segments a)"

definition v6_of_u128 :: "u128 \<Rightarrow> ipv6_addr" where
  "v6_of_u128 w =
     v6_of_segments (map (\<lambda>i. ucast (drop_bit (16 * (7 - i)) w)) [0, 1, 2, 3, 4, 5, 6, 7])"

text \<open>\<open>u128::MAX << 64\<close>.\<close>

definition upper_64_bits :: u128 where
  "upper_64_bits = push_bit 64 (- 1)"

lemma u128_low_segment: "(ucast (append_segment acc s) :: u16) = s"
  unfolding append_segment_def by (rule bit_word_eqI) (auto simp: bit_simps)

lemma u128_high_segment:
  assumes "16 \<le> m" and "m \<le> 112"
  shows "(ucast (drop_bit m (append_segment acc s)) :: u16) = ucast (drop_bit (m - 16) acc)"
  unfolding append_segment_def
  using assms by (intro bit_word_eqI) (auto simp: bit_simps dest: bit_imp_le_length)

lemma u128_segment_masked:
  "64 \<le> m \<Longrightarrow> m \<le> 112 \<Longrightarrow> (ucast (drop_bit m (w AND upper_64_bits)) :: u16) = ucast (drop_bit m w)"
  "m \<le> 48 \<Longrightarrow> (ucast (drop_bit m (w AND upper_64_bits)) :: u16) = 0"
  "(ucast (w AND upper_64_bits) :: u16) = 0"
  unfolding upper_64_bits_def by (rule bit_word_eqI; auto simp: bit_simps)+

lemmas u128_segments = u128_low_segment u128_high_segment u128_segment_masked

lemma v6_of_u128_of_v6 [simp]: "v6_of_u128 (u128_of_v6 a) = a"
  by (cases a) (simp add: v6_of_u128_def u128_of_v6_def v6_of_segments_def u128_segments
      del: drop_bit_and)

text \<open>Masking to the upper 64 bits keeps the first four segments and clears the others.\<close>

lemma v6_network_64:
  "v6_of_u128 (u128_of_v6 (Ipv6Addr a b c d e f g h) AND upper_64_bits) =
     Ipv6Addr a b c d 0 0 0 0"
  by (simp add: v6_of_u128_def u128_of_v6_def v6_of_segments_def u128_segments del: drop_bit_and)

section \<open>Upper and lower case\<close>

text \<open>Every reader gives the same result on a lower-cased text.\<close>

definition rest_lower :: "('a \<times> ustr) option \<Rightarrow> ('a \<times> ustr) option" where
  "rest_lower = map_option (map_prod id (map ascii_lower))"

lemma rest_lower_simps [simp]:
  "rest_lower None = None" "rest_lower (Some (a, r)) = Some (a, map ascii_lower r)"
  by (simp_all add: rest_lower_def)

lemma read_digits_lower:
  "b \<in> {10, 16} \<Longrightarrow> read_digits b maxd res cnt (map ascii_lower s) =
     map_option (map_prod id (map_prod id (map ascii_lower))) (read_digits b maxd res cnt s)"
  by (induction b maxd res cnt s rule: read_digits.induct) (auto split: option.splits)

lemma read_number_lower:
  "b \<in> {10, 16} \<Longrightarrow> read_number b maxd z bound (map ascii_lower s) = rest_lower (read_number b maxd z bound s)"
  by (cases s) (auto simp: read_number_def Let_def read_digits_lower ascii_lower_eq_iff split: option.splits)

lemma read_separator_lower:
  assumes "sep < 65" and "\<And>t. inner (map ascii_lower t) = rest_lower (inner t)"
  shows "read_separator sep i inner (map ascii_lower s) = rest_lower (read_separator sep i inner s)"
proof (cases i)
  case 0
  with assms(2) show ?thesis by simp
next
  case (Suc j)
  with assms show ?thesis by (cases s) auto
qed

lemma read_octets_lower: "read_octets i k (map ascii_lower s) = rest_lower (read_octets i k s)"
proof (induction i k s rule: read_octets.induct)
  case (1 i s)
  then show ?case by simp
next
  case (2 i k s)
  then show ?case
    by (auto simp: read_separator_lower read_number_lower split: option.splits)
qed

lemma read_ipv4_lower: "read_ipv4_addr (map ascii_lower s) = rest_lower (read_ipv4_addr s)"
  by (auto simp: read_ipv4_addr_def read_octets_lower split: option.splits)

lemma read_groups_lower:
  "read_groups i k (map ascii_lower s) = map_prod id (map_prod id (map ascii_lower)) (read_groups i k s)"
proof (induction i k s rule: read_groups.induct)
  case (1 i s)
  then show ?case by simp
next
  case (2 i k s)
  have v4: "(if 0 < k then read_separator 58 i read_ipv4_addr (map ascii_lower s) else None) =
      rest_lower (if 0 < k then read_separator 58 i read_ipv4_addr s else None)"
    by (simp add: read_separator_lower read_ipv4_lower)
  have group: "read_separator 58 i (read_number 16 4 True 65535) (map ascii_lower s) =
      rest_lower (read_separator 58 i (read_number 16 4 True 65535) s)"
    by (simp add: read_separator_lower read_number_lower)
  show ?case
    unfolding read_groups.simps v4 group using 2
    by (auto split: option.splits ipv4_addr.splits prod.splits simp: Let_def)
qed

lemma read_given_char_lower:
  "c < 65 \<Longrightarrow> read_given_char c (map ascii_lower s) = map_option (map ascii_lower) (read_given_char c s)"
  by (cases s) (auto simp: read_given_char_def)

lemma read_ipv6_lower: "read_ipv6_addr (map ascii_lower s) = rest_lower (read_ipv6_addr s)"
  by (auto simp: read_ipv6_addr_def read_groups_lower read_given_char_lower
      split: option.splits prod.splits)

lemma parse_ip_lower: "parse_ip (map ascii_lower s) = parse_ip s"
  by (cases "read_ipv4_addr s"; cases "read_ipv6_addr s")
    (auto simp: parse_ip_def read_ip_addr_def read_ipv4_lower read_ipv6_lower)

section \<open>Evaluating addresses\<close>

lemmas ip_eval [addr_eval] =
  parse_ip_def read_ip_addr_def read_ipv4_addr_def read_ipv6_addr_def read_number_def
  read_given_char_def read_separator_def to_digit_def is_ascii_digit_def v6_of_segments_def
  show_ipv4_def show_nat_def show_radix.simps digit_char_def show_ipv6_def fmt_subslice_def
  u16_from_be_bytes_def hi_byte_def lo_byte_def nth_append

lemma parse_ip_examples:
  "parse_ip (lit ''1.2.3.4'') = Some (V4 (Ipv4Addr 1 2 3 4))"
  "parse_ip (lit ''2001:0DB8::1'') = Some (V6 (Ipv6Addr 0x2001 0xDB8 0 0 0 0 0 1))"
  "parse_ip (lit ''::ffff:1.2.3.4'') = Some (V6 (Ipv6Addr 0 0 0 0 0 0xFFFF 0x102 0x304))"
  "parse_ip (lit ''01.2.3.4'') = None"
  "parse_ip (lit ''1.2.3.256'') = None"
  "parse_ip (lit ''1:2:3:4:5:6:7::8'') = None"
  by (simp_all add: addr_eval str_eval)

lemma show_ip_examples:
  "show_ip (V6 (Ipv6Addr 0x2001 0xDB8 0 0 1 0 0 1)) = lit ''2001:db8::1:0:0:1''"
  "show_ip (V6 (Ipv6Addr 0 0 0 0 0 0 0 0)) = lit ''::''"
  "show_ip (V6 (Ipv6Addr 0 0 0 0 0 0xFFFF 0x102 0x304)) = lit ''::ffff:1.2.3.4''"
  "show_ip (V4 (Ipv4Addr 10 0 0 255)) = lit ''10.0.0.255''"
  by (simp_all add: addr_eval str_eval)

end
