(* ===== verification/Host_Chain.thy ===== *)
theory Host_Chain
  imports Ip_Addr "HOL-Library.Sublist"
begin

text \<open>
  Address texts taken from headers (\<open>clean_host\<close>, \<open>normalize_host\<close>), the client address
  (\<open>client_ip\<close>) and the part of \<open>X-Forwarded-For\<close> that was there before the deployment's
  own reverse proxy appended to it (\<open>pre_edge_xff\<close>); \<open>src/logic.rs\<close>.
\<close>

section \<open>Splitting and normalizing entries\<close>

definition split_xff :: "ustr option \<Rightarrow> ustr list" where
  "split_xff value =
     (case value of
        Some v \<Rightarrow> filter (\<lambda>p. p \<noteq> []) (map trim (split_on (\<lambda>c. c = 44) v))
      | None \<Rightarrow> [])"

definition clean_host :: "ustr \<Rightarrow> ustr" where
  "clean_host s =
     (let t = trim s
      in case strip_prefix [91] t of
           Some stripped \<Rightarrow>
             (case find_char 93 stripped of Some e \<Rightarrow> take e stripped | None \<Rightarrow> t)
         | None \<Rightarrow>
             (case rsplit_once 58 t of
                Some (ip, port) \<Rightarrow>
                  if port \<noteq> [] \<and> list_all is_ascii_digit port \<and>
                     length (split_on (\<lambda>c. c = 46) ip) = 4 \<and>
                     list_all (\<lambda>c. is_ascii_digit c \<or> c = 46) ip
                  then ip else t
              | None \<Rightarrow> t))"

definition normalize_host :: "ustr \<Rightarrow> ustr option" where
  "normalize_host s = map_option (\<lambda>ip. show_ip (to_canonical ip)) (parse_ip (clean_host s))"

definition normalize_chain :: "ustr list \<Rightarrow> ustr list" where
  "normalize_chain entries = List.map_filter normalize_host entries"

section \<open>The client address\<close>

definition client_ip :: "ustr option \<Rightarrow> ustr option \<Rightarrow> ustr \<Rightarrow> bool \<Rightarrow> bool \<Rightarrow> ustr" where
  "client_ip cf_ip xff socket_ip trust_proxy trust_cf =
     (case (if trust_cf then Option.bind cf_ip normalize_host else None) of
        Some cf \<Rightarrow> cf
      | None \<Rightarrow>
          (case (if trust_proxy
                 then (case rev (split_xff xff) of e # _ \<Rightarrow> normalize_host e | [] \<Rightarrow> None)
                 else None) of
             Some ip \<Rightarrow> ip
           | None \<Rightarrow>
               (case normalize_host socket_ip of Some s \<Rightarrow> s | None \<Rightarrow> socket_ip)))"

section \<open>The forwarded entries before our edge\<close>

text \<open>\<open>Iterator::rposition\<close>: the index of the last element with the property.\<close>

fun rposition :: "('a \<Rightarrow> bool) \<Rightarrow> 'a list \<Rightarrow> nat option" where
  "rposition p [] = None"
| "rposition p (x # xs) =
     (case rposition p xs of Some i \<Rightarrow> Some (Suc i) | None \<Rightarrow> if p x then Some 0 else None)"

definition pre_edge_xff :: "ustr option \<Rightarrow> ustr \<Rightarrow> bool \<Rightarrow> bool \<Rightarrow> ustr option \<Rightarrow> ustr list" where
  "pre_edge_xff xff client0 trust_proxy trust_cf cf_ip =
     (let raw = split_xff xff
      in if \<not> trust_proxy then raw
         else
           (let client = (case normalize_host client0 of Some c \<Rightarrow> c | None \<Rightarrow> client0);
                cdn_client = (if trust_cf then Option.bind cf_ip normalize_host else None)
            in if cdn_client = Some client
               then
                 (let raw' = (case rposition (\<lambda>e. normalize_host e = Some client) raw of
                                Some pos \<Rightarrow> take pos raw
                              | None \<Rightarrow> raw)
                  in filter (\<lambda>e. normalize_host e \<noteq> Some client) raw')
               else if (case rev raw of e # _ \<Rightarrow> normalize_host e | [] \<Rightarrow> None) = Some client
               then butlast raw
               else raw))"

section \<open>The interface of address texts\<close>

text \<open>
  What the rest of the program relies on about texts of addresses: parsing inverts printing,
  canonicalizing twice is canonicalizing once, and cleaning leaves a printed canonical
  address alone. Then comparing normalized texts is comparing addresses.
\<close>

locale address_text =
  fixes cleaned :: "ustr \<Rightarrow> ustr"
    and parse :: "ustr \<Rightarrow> 'a option"
    and printed :: "'a \<Rightarrow> ustr"
    and canonical :: "'a \<Rightarrow> 'a"
  assumes parse_printed: "parse (printed a) = Some a"
    and canonical_idem: "canonical (canonical a) = canonical a"
    and cleaned_printed: "cleaned (printed (canonical a)) = printed (canonical a)"
begin

lemma printed_inject: "printed a = printed b \<longleftrightarrow> a = b"
  using parse_printed by (metis option.inject)

lemma normalized_idem:
  "map_option (\<lambda>a. printed (canonical a)) (parse (cleaned s)) = Some t \<Longrightarrow>
     map_option (\<lambda>a. printed (canonical a)) (parse (cleaned t)) = Some t"
  by (auto simp: cleaned_printed parse_printed canonical_idem)

lemma normalized_eq_iff:
  "map_option (\<lambda>a. printed (canonical a)) (parse (cleaned s)) =
     map_option (\<lambda>a. printed (canonical a)) (parse (cleaned t)) \<longleftrightarrow>
   map_option canonical (parse (cleaned s)) = map_option canonical (parse (cleaned t))"
  by (cases "parse (cleaned s)"; cases "parse (cleaned t)") (auto simp: printed_inject)

lemma normalized_printed_iff:
  "map_option (\<lambda>a. printed (canonical a)) (parse (cleaned s)) = Some (printed (canonical b)) \<longleftrightarrow>
     map_option canonical (parse (cleaned s)) = Some (canonical b)"
  by (cases "parse (cleaned s)") (auto simp: printed_inject)

lemma normalized_canonical:
  "map_option (\<lambda>a. printed (canonical a)) (parse (cleaned (printed (canonical b)))) =
     Some (printed (canonical b))"
  by (simp add: cleaned_printed parse_printed canonical_idem)

end

lemma clean_host_show: "clean_host (show_ip (to_canonical a)) = show_ip (to_canonical a)"
proof -
  let ?t = "show_ip (to_canonical a)"
  have chars: "c \<in> set ?t \<Longrightarrow> c \<noteq> 91" for c
    using show_ip_chars ipv6_char_no_ws by blast
  have no_bracket: "strip_prefix [91] ?t = None"
    using chars by (cases ?t) auto
  show ?thesis
  proof (cases "rsplit_once 58 ?t")
    case None
    with no_bracket show ?thesis by (simp add: clean_host_def)
  next
    case (Some p)
    obtain ip port where p: "p = (ip, port)" by force
    with Some have split: "?t = ip @ 58 # port" by (auto dest: rsplit_once_Some)
    then have "58 \<in> set ?t" by simp
    then obtain v where v: "to_canonical a = V6 v"
      by (cases "to_canonical a") (auto dest!: show_ipv4_chars simp: is_ipv4_char_def is_ascii_digit_def)
    then have "46 \<notin> set ?t"
      using show_ipv6_plain_chars [OF to_canonical_V6 [OF v], of 46]
      by (auto simp: is_ascii_digit_def)
    then have "length (split_on (\<lambda>c. c = 46) ip) = 1"
      using split by (subst split_on_no_sep) auto
    with no_bracket Some p show ?thesis by (simp add: clean_host_def)
  qed
qed

interpretation host: address_text clean_host parse_ip show_ip to_canonical
  by unfold_locales (simp_all add: parse_show_ip clean_host_show)

text \<open>The interface's facts, stated for \<open>normalize_host\<close>.\<close>

lemmas normalize_host_idem = host.normalized_idem [folded normalize_host_def]
lemmas normalize_host_eq_iff = host.normalized_eq_iff [folded normalize_host_def]
lemmas normalize_host_printed_iff = host.normalized_printed_iff [folded normalize_host_def]
lemmas normalize_host_canonical [simp] = host.normalized_canonical [folded normalize_host_def]

lemma normalize_host_SomeE:
  assumes "normalize_host s = Some t"
  obtains a where "parse_ip (clean_host s) = Some a" and "t = show_ip (to_canonical a)"
  using assms by (auto simp: normalize_host_def)

section \<open>Facts about the chain\<close>

lemma split_xff_None [simp]: "split_xff None = []"
  by (simp add: split_xff_def)

text \<open>A proxy that appends \<open>, entry\<close> adds the entries of that text at the end.\<close>

lemma split_xff_append: "split_xff (Some (s @ 44 # t)) = split_xff (Some s) @ split_xff (Some t)"
  by (simp add: split_xff_def split_on_append)

lemma split_xff_single:
  assumes "44 \<notin> set e" and "trim e \<noteq> []"
  shows "split_xff (Some e) = [trim e]"
proof -
  have "split_on (\<lambda>c. c = 44) e = [e]"
    using assms(1) by (intro split_on_no_sep) auto
  with assms(2) show ?thesis by (simp add: split_xff_def)
qed

lemma clean_host_trim [simp]: "clean_host (trim s) = clean_host s"
  by (simp add: clean_host_def)

lemma normalize_host_trim [simp]: "normalize_host (trim s) = normalize_host s"
  by (simp add: normalize_host_def)

lemma parse_ip_Nil [simp]: "parse_ip [] = None"
  by (simp add: parse_ip_def read_ip_addr_def read_ipv6_addr_def read_groups_pos read_given_char_def)

lemma normalize_host_blank: "trim s = [] \<Longrightarrow> normalize_host s = None"
  by (simp add: normalize_host_def clean_host_def)

lemma trim_leading_space [simp]: "trim (32 # s) = trim s"
  by (simp add: trim_def trim_start_def is_whitespace_def)

lemma split_xff_show [simp]:
  "split_xff (Some (show_ip a)) = [show_ip a]" "split_xff (Some (32 # show_ip a)) = [show_ip a]"
proof -
  have no_comma: "44 \<notin> set (show_ip a)"
    using show_ip_chars ipv6_char_no_ws by blast
  then show "split_xff (Some (show_ip a)) = [show_ip a]"
    by (subst split_xff_single) simp_all
  from no_comma show "split_xff (Some (32 # show_ip a)) = [show_ip a]"
    by (subst split_xff_single) simp_all
qed

lemma split_xff_trimmed: "e \<in> set (split_xff v) \<Longrightarrow> e \<noteq> [] \<and> trim e = e"
  by (cases v) (auto simp: split_xff_def)

lemma rposition_None: "rposition p xs = None \<longleftrightarrow> (\<forall>x \<in> set xs. \<not> p x)"
  by (induction xs) (auto split: option.splits)

lemma rposition_append:
  "p x \<Longrightarrow> (\<forall>y \<in> set ys. \<not> p y) \<Longrightarrow> rposition p (xs @ x # ys) = Some (length xs)"
  by (induction xs) (auto simp: rposition_None [THEN iffD2])

lemma clean_host_lower: "clean_host (to_ascii_lowercase s) = to_ascii_lowercase (clean_host s)"
proof -
  let ?t = "trim s"
  have "strip_prefix [91] (map ascii_lower ?t) = map_option (map ascii_lower) (strip_prefix [91] ?t)"
    by (cases ?t) (auto simp: ascii_lower_eq_iff)
  moreover have "rsplit_once 58 (map ascii_lower ?t) =
      map_option (map_prod (map ascii_lower) (map ascii_lower)) (rsplit_once 58 ?t)"
    by (rule rsplit_once_lower) simp
  moreover have "find_char 93 (map ascii_lower u) = find_char 93 u" for u
    by (rule find_char_lower) (simp add: ascii_lower_eq_iff)
  moreover have "split_on (\<lambda>c. c = 46) (map ascii_lower u) = map (map ascii_lower) (split_on (\<lambda>c. c = 46) u)" for u
    by (rule split_on_lower) simp
  moreover have "list_all is_ascii_digit (map ascii_lower u) = list_all is_ascii_digit u"
    "list_all (\<lambda>c. is_ascii_digit c \<or> c = 46) (map ascii_lower u) =
       list_all (\<lambda>c. is_ascii_digit c \<or> c = 46) u" for u
    by (simp_all add: list_all_iff)
  ultimately show ?thesis
    unfolding clean_host_def trim_lower
    by (auto simp: to_ascii_lowercase_def Let_def take_map split: option.split)
qed

lemma normalize_host_lower [simp]: "normalize_host (to_ascii_lowercase s) = normalize_host s"
  by (simp add: normalize_host_def clean_host_lower)
    (simp add: to_ascii_lowercase_def parse_ip_lower)

section \<open>The client address: sources and trust\<close>

lemma client_ip_socket:
  "client_ip cf xff sock False False = (case normalize_host sock of Some s \<Rightarrow> s | None \<Rightarrow> sock)"
  by (simp add: client_ip_def)

lemma client_ip_canonical:
  assumes "normalize_host sock \<noteq> None"
  shows "normalize_host (client_ip cf xff sock tp tc) = Some (client_ip cf xff sock tp tc)"
proof -
  have "\<exists>s. normalize_host s = Some (client_ip cf xff sock tp tc)"
    using assms by (auto simp: client_ip_def bind_eq_Some_conv split: option.splits if_splits list.splits)
  then show ?thesis by (auto dest: normalize_host_idem)
qed

lemma client_ip_last_hop:
  assumes "normalize_host e = Some t" and "44 \<notin> set e"
  shows "client_ip None (Some (s @ 44 # e)) sock True tc = t"
    and "client_ip cf (Some (s @ 44 # e)) sock True False = t"
proof -
  have "trim e \<noteq> []" using assms(1) normalize_host_blank by fastforce
  with assms show "client_ip None (Some (s @ 44 # e)) sock True tc = t"
    and "client_ip cf (Some (s @ 44 # e)) sock True False = t"
    by (simp_all add: client_ip_def split_xff_append split_xff_single)
qed

section \<open>What the edge strips\<close>

lemma pre_edge_untrusted: "pre_edge_xff xff client False tc cf = split_xff xff"
  by (simp add: pre_edge_xff_def Let_def)

text \<open>Nothing is added or reordered.\<close>

lemma pre_edge_subseq: "subseq (pre_edge_xff xff client tp tc cf) (split_xff xff)"
proof -
  have "subseq (case rposition P xs of Some i \<Rightarrow> take i xs | None \<Rightarrow> xs) xs" for P and xs :: "ustr list"
    by (auto split: option.split simp: take_is_prefix)
  then have "subseq (filter Q (case rposition P xs of Some i \<Rightarrow> take i xs | None \<Rightarrow> xs)) xs"
    for P Q and xs :: "ustr list"
    using subseq_filter_left subseq_order.trans by blast
  moreover have "subseq (butlast xs) xs" for xs :: "ustr list"
    by (cases xs rule: rev_cases) auto
  ultimately show ?thesis by (simp add: pre_edge_xff_def Let_def)
qed

text \<open>The direct edge appended the client: exactly that entry goes.\<close>

lemma pre_edge_direct:
  assumes "client = show_ip (to_canonical a)"
    and "\<not> (tc \<and> Option.bind cf normalize_host = Some client)"
    and "normalize_host e = Some client" and "44 \<notin> set e"
  shows "pre_edge_xff (Some (s @ 44 # e)) client True tc cf = split_xff (Some s)"
proof -
  have "trim e \<noteq> []" using assms(3) normalize_host_blank by fastforce
  with assms(3,4) have "split_xff (Some (s @ 44 # e)) = split_xff (Some s) @ [trim e]"
    by (simp add: split_xff_append split_xff_single)
  with assms show ?thesis
    by (simp add: pre_edge_xff_def Let_def butlast_append)
qed

text \<open>
  The CDN appended the client and the hops below it appended themselves: what the checked
  proxy wrote stays, but for copies of the client's own address.
\<close>

lemma pre_edge_cdn:
  assumes "client = show_ip (to_canonical a)"
    and "Option.bind cf normalize_host = Some client"
    and "split_xff xff = before @ e # hops"
    and "normalize_host e = Some client"
    and "\<forall>h \<in> set hops. normalize_host h \<noteq> Some client"
  shows "pre_edge_xff xff client True True cf = filter (\<lambda>h. normalize_host h \<noteq> Some client) before"
  using assms
  by (simp add: pre_edge_xff_def Let_def rposition_append)

section \<open>Evaluation\<close>

lemmas chain_eval [host_eval] =
  split_xff_def clean_host_def normalize_host_def normalize_chain_def client_ip_def
  pre_edge_xff_def List.map_filter_simps

lemma normalize_host_examples:
  "normalize_host (lit '' [2001:0DB8:0:0:0:0:0:1]:8080'') = Some (lit ''2001:db8::1'')"
  "normalize_host (lit ''::ffff:1.2.3.4'') = Some (lit ''1.2.3.4'')"
  "normalize_host (lit ''1.2.3.4:5678'') = Some (lit ''1.2.3.4'')"
  "normalize_host (lit ''unknown'') = None"
  by (simp_all add: host_eval addr_eval str_eval)

section \<open>Properties\<close>

text \<open>
  Normalizing is idempotent: what \<open>normalize_host\<close> returns is already in canonical form,
  so comparing two normalized texts never depends on how often they were normalized.
\<close>

theorem normalized_host_is_fixed:
  "normalize_host s = Some t \<Longrightarrow> normalize_host t = Some t"
  by (rule normalize_host_idem)

theorem normalized_host_is_fixed_witness:
  "normalize_host (lit ''2001:db8::1'') = Some (lit ''2001:db8::1'')"
  by (rule normalized_host_is_fixed [OF normalize_host_examples(1)])

text \<open>
  Two header entries have the same normalized text exactly when both are no address, or
  both denote the same address up to IPv4-mapping: the string comparisons of the program
  are comparisons of addresses.
\<close>

theorem normalized_hosts_agree_iff:
  "normalize_host s = normalize_host t \<longleftrightarrow>
     map_option to_canonical (parse_ip (clean_host s)) = map_option to_canonical (parse_ip (clean_host t))"
  by (rule normalize_host_eq_iff)

text \<open>
  Client headers are believed only as far as the deployment says: with both flags off the
  client address depends on the socket alone, and without \<open>trust_cf\<close> the value of
  \<open>CF-Connecting-IP\<close> has no influence.
\<close>

theorem client_ip_trust:
  "client_ip cf xff sock False False = client_ip None None sock False False \<and>
   client_ip cf xff sock tp False = client_ip None xff sock tp False"
  by (simp add: client_ip_def)

text \<open>
  Behind a reverse proxy the last hop decides: whatever text the client side puts before
  it, the entry the edge appended (any spelling of an address) is the client address.
\<close>

theorem client_ip_last_hop_wins:
  assumes "normalize_host e = Some t" and "44 \<notin> set e"
  shows "client_ip cf (Some (s @ 44 # e)) sock True False = t"
  by (rule client_ip_last_hop(2) [OF assms])

theorem client_ip_last_hop_wins_witness:
  "client_ip (Some (lit ''6.6.6.6'')) (Some (lit ''6.6.6.6, 7.7.7.7'' @ 44 # lit ''::ffff:1.2.3.4''))
     (lit ''10.0.0.1'') True False = lit ''1.2.3.4''"
  by (rule client_ip_last_hop_wins [OF normalize_host_examples(2)]) (simp add: str_eval)

text \<open>
  The client address is always a canonical address text when the socket address is an
  address: it can be used as a cache key, a rate-limit key and a comparison value as it is.
\<close>

theorem client_ip_is_canonical:
  "normalize_host sock \<noteq> None \<Longrightarrow>
     normalize_host (client_ip cf xff sock tp tc) = Some (client_ip cf xff sock tp tc)"
  by (rule client_ip_canonical)

theorem client_ip_is_canonical_witness:
  "normalize_host (client_ip None (Some (lit ''garbage'')) (lit ''1.2.3.4:5678'') True True) =
     Some (client_ip None (Some (lit ''garbage'')) (lit ''1.2.3.4:5678'') True True)"
  by (rule client_ip_is_canonical) (simp add: normalize_host_examples)

text \<open>
  Stripping our own infrastructure from \<open>X-Forwarded-For\<close> only removes entries: the result
  is a subsequence of what was received, and without \<open>trust_proxy\<close> it is everything.
\<close>

theorem pre_edge_only_removes:
  "subseq (pre_edge_xff xff client tp tc cf) (split_xff xff) \<and>
   pre_edge_xff xff client False tc cf = split_xff xff"
  by (simp add: pre_edge_subseq pre_edge_untrusted)

text \<open>
  C12. Behind a direct edge (Caddy, nginx), which appends the client's own address, exactly that
  last hop is removed: every entry the checked proxy wrote is kept, none of ours remains.
\<close>

theorem pre_edge_direct_edge:
  assumes "\<not> (tc \<and> Option.bind cf normalize_host = Some (show_ip (to_canonical a)))"
    and "normalize_host e = Some (show_ip (to_canonical a))" and "44 \<notin> set e"
  shows "pre_edge_xff (Some (s @ 44 # e)) (show_ip (to_canonical a)) True tc cf = split_xff (Some s)"
  by (rule pre_edge_direct [OF refl assms])

theorem pre_edge_direct_edge_witness:
  "pre_edge_xff (Some (lit ''unknown,1.2.3.4'' @ 44 # lit ''[2001:db8::1]:443''))
     (show_ip (to_canonical (V6 (Ipv6Addr 0x2001 0xdb8 0 0 0 0 0 1)))) True False None =
   split_xff (Some (lit ''unknown,1.2.3.4''))"
  by (rule pre_edge_direct_edge) (simp_all add: host_eval addr_eval str_eval)

text \<open>
  C13. Behind a CDN that appended the client before further infrastructure hops, the chain is
  cut at the last occurrence of the client: the entries before it all stay, but for copies of
  the client's own address, and none of the hops behind it remains. An address the checked
  proxy leaked is therefore never hidden by the cut.
\<close>

theorem pre_edge_behind_cdn:
  assumes "Option.bind cf normalize_host = Some (show_ip (to_canonical a))"
    and "split_xff xff = before @ e # hops"
    and "normalize_host e = Some (show_ip (to_canonical a))"
    and "\<forall>h \<in> set hops. normalize_host h \<noteq> Some (show_ip (to_canonical a))"
  shows "pre_edge_xff xff (show_ip (to_canonical a)) True True cf =
    filter (\<lambda>h. normalize_host h \<noteq> Some (show_ip (to_canonical a))) before"
  by (rule pre_edge_cdn [OF refl assms])

theorem pre_edge_behind_cdn_witness:
  "pre_edge_xff (Some (lit ''9.9.9.9, 1.2.3.4, 9.9.9.9, 172.71.146.141''))
     (show_ip (to_canonical (V4 (Ipv4Addr 9 9 9 9)))) True True (Some (lit ''9.9.9.9'')) =
   filter (\<lambda>h. normalize_host h \<noteq> Some (show_ip (to_canonical (V4 (Ipv4Addr 9 9 9 9)))))
     [lit ''9.9.9.9'', lit ''1.2.3.4'']"
  by (rule pre_edge_behind_cdn [where e = "lit ''9.9.9.9''" and hops = "[lit ''172.71.146.141'']"])
    (simp_all add: host_eval addr_eval str_eval)

end
