(* ===== verification/Anonymity.thy ===== *)
theory Anonymity
  imports Host_Chain
begin

text \<open>
  The anonymity verdict (\<open>src/logic.rs\<close>): which headers belong to the infrastructure, which
  betray a proxy, when an address occurs in a header value, and the level that follows. The
  lemmas characterise each verdict by what the headers contain.
\<close>

section \<open>Header names\<close>

definition INFRA_HEADERS :: "ustr list" where
  "INFRA_HEADERS = map lit
     [''x-forwarded-proto'', ''x-forwarded-host'', ''x-forwarded-port'', ''x-forwarded-ssl'',
      ''x-real-port'']"

definition CF_INFRA_HEADERS :: "ustr list" where
  "CF_INFRA_HEADERS = map lit
     [''cdn-loop'', ''cf-connecting-ip'', ''cf-ipcountry'', ''cf-ray'', ''cf-visitor'',
      ''true-client-ip'']"

definition is_infra :: "ustr \<Rightarrow> bool \<Rightarrow> bool" where
  "is_infra name trust_cf =
     (let n = to_ascii_lowercase name
      in n \<in> set INFRA_HEADERS \<or> (trust_cf \<and> n \<in> set CF_INFRA_HEADERS))"

definition is_telltale :: "ustr \<Rightarrow> bool \<Rightarrow> bool" where
  "is_telltale name trust_cf =
     (let n = to_ascii_lowercase name
      in if is_infra n trust_cf then False
         else n \<in> set (map lit
                  [''via'', ''forwarded'', ''proxy-connection'', ''proxy-authorization'',
                   ''proxy-authenticate'', ''proxy-agent'', ''x-proxy-id'', ''x-real-ip''])
              \<or> starts_with n (lit ''proxy-'') \<or> starts_with n (lit ''x-proxy''))"

section \<open>An address in a text\<close>

definition addr_boundary :: "ip_addr \<Rightarrow> uchar \<Rightarrow> bool" where
  "addr_boundary ip = (case ip of V4 _ \<Rightarrow> is_ipv4_char | V6 _ \<Rightarrow> is_ipv6_char)"

definition ip_in_text :: "ustr \<Rightarrow> ip_addr \<Rightarrow> bool" where
  "ip_in_text txt ip0 =
     (let ip = to_canonical ip0;
          needle = to_ascii_lowercase (show_ip ip);
          haystack = to_ascii_lowercase txt
      in if list_ex (match_on_boundary (addr_boundary ip) haystack needle) (match_indices haystack needle)
         then True
         else list_ex (\<lambda>cand. cand = needle)
                (List.map_filter normalize_host
                   (filter (\<lambda>tok. tok \<noteq> []) (split_on (\<lambda>c. \<not> is_ipv6_char c) haystack))))"

section \<open>The verdict\<close>

definition direct_addr :: "ustr option \<Rightarrow> ip_addr option" where
  "direct_addr direct_ip = Option.bind (Option.bind direct_ip normalize_host) parse_ip"

definition anonymity_level :: "(ustr \<times> ustr) list \<Rightarrow> ustr option \<Rightarrow> bool \<Rightarrow> ustr" where
  "anonymity_level headers direct_ip trust_cf =
     (let raw_xff = split_xff (map_of headers (lit ''x-forwarded-for''));
          chain = List.map_filter normalize_host raw_xff;
          leaked =
            (case direct_addr direct_ip of
               None \<Rightarrow> False
             | Some d \<Rightarrow>
                 list_ex (\<lambda>c. c = show_ip d) chain \<or>
                 list_ex (\<lambda>(k, v). k \<noteq> lit ''x-forwarded-for'' \<and> \<not> is_infra k trust_cf \<and>
                                    ip_in_text v d) headers)
      in if leaked then lit ''transparent''
         else if chain \<noteq> [] \<or> raw_xff \<noteq> [] then lit ''anonymous''
         else if list_ex (\<lambda>(k, v). is_telltale k trust_cf) headers then lit ''anonymous''
         else lit ''elite'')"

section \<open>What the text search finds\<close>

lemma addr_boundary_needle: "c \<in> set (show_ip (to_canonical a)) \<Longrightarrow> addr_boundary (to_canonical a) c"
  using show_ip_chars [of c "to_canonical a"]
  by (cases "to_canonical a") (auto simp: addr_boundary_def dest: show_ipv4_chars)

text \<open>The declarative reading of \<open>ip_in_text\<close>.\<close>

lemma ip_in_text_iff:
  "ip_in_text txt a \<longleftrightarrow>
     occurs_delimited (addr_boundary (to_canonical a)) (to_ascii_lowercase txt) (show_ip (to_canonical a)) \<or>
     (\<exists>tok \<in> set (split_on (\<lambda>c. \<not> is_ipv6_char c) txt).
        normalize_host tok = Some (show_ip (to_canonical a)))"
proof -
  let ?n = "show_ip (to_canonical a)"
  have tokens: "split_on (\<lambda>c. \<not> is_ipv6_char c) (map ascii_lower txt) =
      map (map ascii_lower) (split_on (\<lambda>c. \<not> is_ipv6_char c) txt)"
    by (rule split_on_lower)
      (auto simp: is_ipv6_char_def is_ascii_hexdigit_def is_ascii_digit_def ascii_lower_def)
  have norm: "normalize_host (map ascii_lower tok) = normalize_host tok" for tok
    using normalize_host_lower [of tok] by (simp add: to_ascii_lowercase_def)
  have safe: "overlap_safe (addr_boundary (to_canonical a)) ?n"
    by (rule overlap_safe_all) (rule addr_boundary_needle)
  have blank: "normalize_host [] = None" by (rule normalize_host_blank) simp
  have "list_ex (\<lambda>cand. cand = ?n)
      (List.map_filter normalize_host
         (filter (\<lambda>tok. tok \<noteq> []) (split_on (\<lambda>c. \<not> is_ipv6_char c) (to_ascii_lowercase txt)))) \<longleftrightarrow>
    (\<exists>tok \<in> set (split_on (\<lambda>c. \<not> is_ipv6_char c) txt). normalize_host tok = Some ?n)"
    unfolding list_ex_eq_map_filter to_ascii_lowercase_def tokens
    using blank by (auto simp: norm) (metis option.distinct(1))
  then show ?thesis
    unfolding ip_in_text_def Let_def show_ip_lower
    using delimited_match_iff [OF safe show_ip_not_Nil] by auto
qed

section \<open>What each verdict means\<close>

text \<open>An entry denotes an address when it normalizes to the address's canonical text.\<close>

definition denotes :: "ustr \<Rightarrow> ip_addr \<Rightarrow> bool" where
  "denotes e a \<longleftrightarrow> map_option to_canonical (parse_ip (clean_host e)) = Some (to_canonical a)"

lemma denotes_iff: "denotes e a \<longleftrightarrow> normalize_host e = Some (show_ip (to_canonical a))"
  by (simp add: denotes_def normalize_host_printed_iff)

definition forwarded_entries :: "(ustr \<times> ustr) list \<Rightarrow> ustr list" where
  "forwarded_entries headers = split_xff (map_of headers (lit ''x-forwarded-for''))"

definition leaks :: "(ustr \<times> ustr) list \<Rightarrow> bool \<Rightarrow> ip_addr \<Rightarrow> bool" where
  "leaks headers trust_cf a \<longleftrightarrow>
     (\<exists>e \<in> set (forwarded_entries headers). denotes e a) \<or>
     (\<exists>(k, v) \<in> set headers.
        k \<noteq> lit ''x-forwarded-for'' \<and> \<not> is_infra k trust_cf \<and> ip_in_text v a)"

lemma direct_addr_eq:
  "direct_addr d = Option.bind d (\<lambda>s. map_option to_canonical (parse_ip (clean_host s)))"
proof (cases d)
  case (Some s)
  then show ?thesis
    by (cases "parse_ip (clean_host s)") (simp_all add: direct_addr_def normalize_host_def parse_show_ip)
qed (simp add: direct_addr_def)

lemma direct_addr_canonical: "direct_addr d = Some a \<Longrightarrow> to_canonical a = a"
  by (cases d) (auto simp: direct_addr_eq)

lemma anonymity_level_eq:
  "anonymity_level headers direct_ip trust_cf =
     (if \<exists>d. direct_addr direct_ip = Some d \<and> leaks headers trust_cf d then lit ''transparent''
      else if forwarded_entries headers \<noteq> [] \<or> (\<exists>(k, v) \<in> set headers. is_telltale k trust_cf)
      then lit ''anonymous'' else lit ''elite'')"
proof -
  have leak: "(list_ex (\<lambda>c. c = show_ip d) (List.map_filter normalize_host (forwarded_entries headers)) \<or>
       list_ex (\<lambda>(k, v). k \<noteq> lit ''x-forwarded-for'' \<and> \<not> is_infra k trust_cf \<and> ip_in_text v d) headers)
      \<longleftrightarrow> leaks headers trust_cf d" if "to_canonical d = d" for d
    using that unfolding list_ex_eq_map_filter leaks_def denotes_iff by (simp add: list_ex_iff)
  have empty: "(List.map_filter normalize_host xs \<noteq> [] \<or> xs \<noteq> []) \<longleftrightarrow> xs \<noteq> []" for xs
    by (auto simp: map_filter_def)
  have tell: "list_ex (\<lambda>(k, v). is_telltale k trust_cf) headers \<longleftrightarrow>
      (\<exists>(k, v) \<in> set headers. is_telltale k trust_cf)"
    by (simp add: list_ex_iff)
  show ?thesis
  proof (cases "direct_addr direct_ip")
    case None
    then show ?thesis
      unfolding anonymity_level_def Let_def forwarded_entries_def [symmetric] empty tell by simp
  next
    case (Some d)
    then show ?thesis
      unfolding anonymity_level_def Let_def forwarded_entries_def [symmetric] empty tell
      by (simp add: leak [OF direct_addr_canonical [OF Some]])
  qed
qed

lemma transparent_iff:
  "anonymity_level headers direct_ip trust_cf = lit ''transparent'' \<longleftrightarrow>
     (\<exists>d. direct_addr direct_ip = Some d \<and> leaks headers trust_cf d)"
  by (simp add: anonymity_level_eq)

lemma elite_iff:
  "anonymity_level headers direct_ip trust_cf = lit ''elite'' \<longleftrightarrow>
     (\<forall>d. direct_addr direct_ip = Some d \<longrightarrow> \<not> leaks headers trust_cf d) \<and>
     forwarded_entries headers = [] \<and> \<not> (\<exists>(k, v) \<in> set headers. is_telltale k trust_cf)"
  by (auto simp: anonymity_level_eq)

lemma ip_in_text_token:
  assumes "txt = l @ w @ r" and "\<And>c. c \<in> set w \<Longrightarrow> is_ipv6_char c"
    and "l = [] \<or> \<not> is_ipv6_char (last l)" and "r = [] \<or> \<not> is_ipv6_char (hd r)"
    and "denotes w a"
  shows "ip_in_text txt a"
proof -
  have "w \<in> set (split_on (\<lambda>c. \<not> is_ipv6_char c) txt)"
    unfolding assms(1) by (rule split_on_token) (use assms(2-4) in auto)
  with assms(5) show ?thesis by (auto simp: ip_in_text_iff denotes_iff)
qed

section \<open>Order and growth of the header map\<close>

lemma anonymity_level_cong:
  assumes "distinct_keys hs" and "distinct_keys hs'" and "map_of hs = map_of hs'"
  shows "anonymity_level hs d tc = anonymity_level hs' d tc"
proof -
  have "set hs = set hs'" using assms by (rule map_of_eq_set_eq)
  moreover have "forwarded_entries hs = forwarded_entries hs'"
    using assms(3) by (simp add: forwarded_entries_def)
  ultimately show ?thesis
    unfolding anonymity_level_eq leaks_def by (simp only:)
qed

text \<open>The verdicts from harmless to bad.\<close>

definition verdict_rank :: "ustr \<Rightarrow> nat" where
  "verdict_rank v = (if v = lit ''elite'' then 0 else if v = lit ''anonymous'' then 1 else 2)"

lemma verdict_rank_mono:
  assumes "distinct_keys hs'" and "set hs \<subseteq> set hs'"
  shows "verdict_rank (anonymity_level hs d tc) \<le> verdict_rank (anonymity_level hs' d tc)"
proof -
  have sub: "set (forwarded_entries hs) \<subseteq> set (forwarded_entries hs')"
  proof (cases "map_of hs (lit ''x-forwarded-for'')")
    case None
    then show ?thesis by (simp add: forwarded_entries_def)
  next
    case (Some v)
    then have "(lit ''x-forwarded-for'', v) \<in> set hs'"
      using assms(2) by (auto dest: map_of_SomeD)
    with assms(1) Some show ?thesis
      by (simp add: forwarded_entries_def in_set_iff_map_of)
  qed
  with assms(2) have "leaks hs tc a \<Longrightarrow> leaks hs' tc a" for a
    unfolding leaks_def by blast
  moreover have "forwarded_entries hs \<noteq> [] \<Longrightarrow> forwarded_entries hs' \<noteq> []"
    using sub by auto
  ultimately show ?thesis
    using assms(2) by (auto simp: anonymity_level_eq verdict_rank_def)
qed

section \<open>Properties\<close>

lemmas verdict_eval [host_eval] =
  INFRA_HEADERS_def CF_INFRA_HEADERS_def is_infra_def is_telltale_def addr_boundary_def
  match_indices_def match_on_boundary_def char_before_def char_at_def is_ipv4_char_def
  is_ipv6_char_def direct_addr_def forwarded_entries_def

text \<open>
  C1. The verdict is \<open>transparent\<close> exactly when the caller named a valid address of its own and
  that address is visible: as an entry of the remaining \<open>X-Forwarded-For\<close>, or inside the value
  of some header that is neither \<open>X-Forwarded-For\<close> nor infrastructure.
\<close>

theorem transparent_means_leak:
  "anonymity_level headers direct_ip trust_cf = lit ''transparent'' \<longleftrightarrow>
     (\<exists>d. direct_addr direct_ip = Some d \<and> leaks headers trust_cf d)"
  by (rule transparent_iff)

text \<open>
  C2. The verdict is \<open>elite\<close> exactly when nothing leaks, no forwarded entry is left (not even
  a placeholder that is no address), and no header name betrays a proxy; every other case is
  one of the two remaining verdicts, and without an own address never \<open>transparent\<close>.
\<close>

theorem elite_means_clean:
  "(anonymity_level headers direct_ip trust_cf = lit ''elite'') =
     (\<not> (\<exists>d. direct_addr direct_ip = Some d \<and> leaks headers trust_cf d) \<and>
      forwarded_entries headers = [] \<and> \<not> (\<exists>(k, v) \<in> set headers. is_telltale k trust_cf)) \<and>
   anonymity_level headers direct_ip trust_cf \<in>
     {lit ''elite'', lit ''anonymous'', lit ''transparent''} \<and>
   anonymity_level headers None trust_cf \<in> {lit ''elite'', lit ''anonymous''}"
  by (simp add: anonymity_level_eq direct_addr_def)

text \<open>
  C8. No spelling hides a leak: if any text that denotes the caller's address (IPv6 not canonical,
  upper case, IPv4-mapped, with a port) is an entry of \<open>X-Forwarded-For\<close>, or stands, delimited from
  other address characters, anywhere in the value of another header that is not infrastructure, the
  verdict is \<open>transparent\<close>. \<open>X-Forwarded-For\<close> is read entry by entry and not searched for delimited
  texts, and the infrastructure headers are not read at all.
\<close>

theorem every_spelling_is_detected:
  assumes "direct_addr direct_ip = Some d" and "denotes w d"
    and "w \<in> set (split_xff (map_of headers (lit ''x-forwarded-for''))) \<or>
      (\<exists>k l r. (k, l @ w @ r) \<in> set headers \<and> k \<noteq> lit ''x-forwarded-for'' \<and> \<not> is_infra k trust_cf \<and>
         list_all is_ipv6_char w \<and> (l = [] \<or> \<not> is_ipv6_char (last l)) \<and> (r = [] \<or> \<not> is_ipv6_char (hd r)))"
  shows "anonymity_level headers direct_ip trust_cf = lit ''transparent''"
proof -
  have "ip_in_text (l @ w @ r) d"
    if "list_all is_ipv6_char w" "l = [] \<or> \<not> is_ipv6_char (last l)" "r = [] \<or> \<not> is_ipv6_char (hd r)" for l r
    using that by (intro ip_in_text_token [OF refl _ _ _ assms(2)]) (simp_all add: list_all_iff)
  with assms(2,3) have "leaks headers trust_cf d" unfolding leaks_def forwarded_entries_def by blast
  with assms(1) show ?thesis by (auto simp: transparent_iff)
qed

theorem every_spelling_is_detected_witness:
  "anonymity_level
     [(lit ''forwarded'', lit ''for=['' @ lit ''2001:0DB8:0:0:0:0:0:1'' @ lit '']:8080'')]
     (Some (lit ''2001:db8::1'')) True = lit ''transparent'' \<and>
   anonymity_level [(lit ''x-forwarded-for'', lit ''9.9.9.9, [2001:0DB8::1]:8080'')]
     (Some (lit ''2001:db8::1'')) True = lit ''transparent''"
proof
  let ?d = "V6 (Ipv6Addr 0x2001 0xdb8 0 0 0 0 0 1)" and ?direct = "Some (lit ''2001:db8::1'')"
  have d: "direct_addr ?direct = Some ?d" by (simp add: host_eval addr_eval str_eval)
  have w: "denotes (lit ''2001:0DB8:0:0:0:0:0:1'') ?d" "denotes (lit ''[2001:0DB8::1]:8080'') ?d"
    by (simp_all add: denotes_def host_eval addr_eval str_eval)
  show "anonymity_level [(lit ''forwarded'', lit ''for=['' @ lit ''2001:0DB8:0:0:0:0:0:1'' @ lit '']:8080'')] ?direct True =
      lit ''transparent''"
    by (rule every_spelling_is_detected [OF d w(1)], rule disjI2,
        rule exI [of _ "lit ''forwarded''"], rule exI [of _ "lit ''for=[''"], rule exI [of _ "lit '']:8080''"])
      (simp add: host_eval addr_eval str_eval)
  show "anonymity_level [(lit ''x-forwarded-for'', lit ''9.9.9.9, [2001:0DB8::1]:8080'')] ?direct True = lit ''transparent''"
    by (rule every_spelling_is_detected [OF d w(2)], rule disjI1) (simp add: split_xff_def str_eval)
qed

text \<open>
  C29. The search for the canonical text inside a header value, which only looks at disjoint
  matches, misses no delimited occurrence and reports no undelimited one: together with the
  token-wise comparison, this is all \<open>ip_in_text\<close> accepts (so \<open>1.2.3.4\<close> is not found in
  \<open>1.2.3.40\<close>).
\<close>

theorem text_search_is_exact:
  "ip_in_text txt a \<longleftrightarrow>
     occurs_delimited (addr_boundary (to_canonical a)) (to_ascii_lowercase txt) (show_ip (to_canonical a)) \<or>
     (\<exists>tok \<in> set (split_on (\<lambda>c. \<not> is_ipv6_char c) txt).
        normalize_host tok = Some (show_ip (to_canonical a)))"
  by (rule ip_in_text_iff)

text \<open>
  The verdict does not depend on the iteration order of the header map: two maps with the
  same lookup get the same verdict.
\<close>

theorem verdict_ignores_map_order:
  assumes "distinct_keys hs" and "distinct_keys hs'" and "map_of hs = map_of hs'"
  shows "anonymity_level hs d tc = anonymity_level hs' d tc"
  by (rule anonymity_level_cong [OF assms])

theorem verdict_ignores_map_order_witness:
  "anonymity_level [(lit ''via'', lit ''x''), (lit ''a'', lit ''y'')] None True =
   anonymity_level [(lit ''a'', lit ''y''), (lit ''via'', lit ''x'')] None True"
  by (rule verdict_ignores_map_order) (auto simp: distinct_keys_def fun_upd_twist)

text \<open>
  C38. More headers never look cleaner: adding headers can only move the verdict from \<open>elite\<close>
  towards \<open>anonymous\<close> and \<open>transparent\<close>.
\<close>

theorem verdict_is_monotone:
  assumes "distinct_keys hs'" and "set hs \<subseteq> set hs'"
  shows "verdict_rank (anonymity_level hs d tc) \<le> verdict_rank (anonymity_level hs' d tc)"
  by (rule verdict_rank_mono [OF assms])

theorem verdict_is_monotone_witness:
  "verdict_rank (anonymity_level [(lit ''a'', lit ''y'')] None True) \<le>
   verdict_rank (anonymity_level [(lit ''a'', lit ''y''), (lit ''via'', lit ''x'')] None True)"
  by (rule verdict_is_monotone) (auto simp: distinct_keys_def)

section \<open>What the search leaves out\<close>

text \<open>
  The headers a reverse proxy sets itself are never searched, with or without a trusted reverse
  proxy: an address the checked proxy writes into one of them does not count as a leak.
\<close>

lemma infra_headers_hide_a_leak:
  "anonymity_level [(lit ''x-forwarded-host'', lit ''1.2.3.4'')] (Some (lit ''1.2.3.4'')) False = lit ''elite''"
  by (simp add: anonymity_level_def is_infra_def is_telltale_def INFRA_HEADERS_def split_xff_def Let_def str_eval
      split: option.split)

end
