(* ===== verification/Float64.thy ===== *)
theory Float64
  imports Judge_Prelude "HOL-Library.Log_Nat"
begin

text \<open>
  The binary64 arithmetic of the rate limiter. A finite \<open>f64\<close> is the rational number it
  denotes; every arithmetic operation is the exact operation followed by \<open>fl\<close>, rounding to
  the nearest number with a 53-bit significand, ties to even. Exponents are unbounded: the
  limiter's values lie between \<open>2 ^ - 90\<close> and \<open>2 ^ 100\<close> (or are zero), far from overflow and
  from the subnormal range, so on them \<open>fl\<close> is the rounding of the hardware.
\<close>

section \<open>Rounding to an integer\<close>

definition round_half_even :: "rat \<Rightarrow> int" where
  "round_half_even x =
     (let f = \<lfloor>x\<rfloor>; r = x - of_int f
      in if r < 1 / 2 then f else if 1 / 2 < r then f + 1 else if even f then f else f + 1)"

lemma round_half_even_int [simp]: "round_half_even (of_int n) = n"
  by (simp add: round_half_even_def)

lemma round_half_even_error: "\<bar>of_int (round_half_even x) - x\<bar> \<le> 1 / 2"
proof -
  have "of_int \<lfloor>x\<rfloor> \<le> x" "x < of_int \<lfloor>x\<rfloor> + 1" by linarith+
  then show ?thesis
    unfolding round_half_even_def Let_def abs_if by (auto; linarith)
qed

lemma round_half_even_floor:
  "round_half_even x = \<lfloor>x\<rfloor> \<or> round_half_even x = \<lfloor>x\<rfloor> + 1"
  by (auto simp: round_half_even_def Let_def)

lemma round_half_even_mono:
  assumes "x \<le> y"
  shows "round_half_even x \<le> round_half_even y"
proof (cases "\<lfloor>x\<rfloor> = \<lfloor>y\<rfloor>")
  case True
  with assms show ?thesis by (auto simp: round_half_even_def Let_def)
next
  case False
  with assms have "\<lfloor>x\<rfloor> + 1 \<le> \<lfloor>y\<rfloor>" using floor_mono [OF assms] by linarith
  then show ?thesis using round_half_even_floor [of x] round_half_even_floor [of y] by linarith
qed

lemma round_half_even_eqI:
  assumes "of_int n - 1 / 2 < x" and "x < of_int n + 1 / 2"
  shows "round_half_even x = n"
proof -
  have "\<lfloor>x\<rfloor> = n \<or> \<lfloor>x\<rfloor> = n - 1" using assms by linarith
  then show ?thesis using assms by (auto simp: round_half_even_def Let_def)
qed

section \<open>The binary exponent\<close>

lemma powi2_less_iff [simp]: "(2 :: rat) powi a < 2 powi b \<longleftrightarrow> a < b"
proof
  assume less: "(2 :: rat) powi a < 2 powi b"
  show "a < b"
  proof (rule ccontr)
    assume "\<not> a < b"
    then have "(2 :: rat) powi b \<le> 2 powi a" by (intro power_int_increasing) auto
    with less show False by simp
  qed
qed (simp add: power_int_strict_increasing)

lemma powi2_le_iff [simp]: "(2 :: rat) powi a \<le> 2 powi b \<longleftrightarrow> a \<le> b"
  by (simp flip: not_less)

lemma powi2_minus: "(2::rat) powi (- numeral k) = 1 / 2 ^ numeral k"
  by (simp add: power_int_def power_one_over)

definition binary_exponent :: "rat \<Rightarrow> int" where
  "binary_exponent x =
     (case quotient_of x of (n, d) \<Rightarrow>
        (let k = int (floorlog 2 (nat n)) - int (floorlog 2 (nat d))
         in if 2 powi k \<le> x then k else k - 1))"

lemma floorlog_bounds_rat:
  assumes "0 < n"
  shows "(2 :: rat) powi (int (floorlog 2 n) - 1) \<le> of_nat n \<and> of_nat n < (2 :: rat) powi int (floorlog 2 n)"
proof -
  have "2 ^ (floorlog 2 n - 1) \<le> n" and "n < 2 ^ floorlog 2 n"
    using floorlog_bounds [of n 2] assms by auto
  moreover have "0 < floorlog 2 n" using assms by (simp add: floorlog_eq_zero_iff neq0_conv [symmetric] del: neq0_conv)
  ultimately show ?thesis
    by (simp add: power_int_def nat_diff_distrib flip: of_nat_less_iff of_nat_le_iff)
qed

lemma binary_exponent_bounds:
  assumes "0 < x"
  shows "2 powi binary_exponent x \<le> x \<and> x < 2 powi (binary_exponent x + 1)"
proof -
  obtain n d where q: "quotient_of x = (n, d)" by force
  then have d: "0 < d" and x: "x = of_int n / of_int d"
    by (auto dest: quotient_of_denom_pos quotient_of_div)
  with assms have n: "0 < n" by (simp add: zero_less_divide_iff)
  define a where "a = int (floorlog 2 (nat n))"
  define b where "b = int (floorlog 2 (nat d))"
  have N: "2 powi (a - 1) \<le> (of_int n :: rat)" "(of_int n :: rat) < 2 powi a"
    using floorlog_bounds_rat [of "nat n"] n by (simp_all add: a_def)
  have D: "2 powi (b - 1) \<le> (of_int d :: rat)" "(of_int d :: rat) < 2 powi b"
    using floorlog_bounds_rat [of "nat d"] d by (simp_all add: b_def)
  have "x < 2 powi a / 2 powi (b - 1)"
    unfolding x using N D n d by (intro frac_less) auto
  then have upper: "x < 2 powi (a - b + 1)"
    by (simp add: power_int_diff power_int_add field_simps)
  have "2 powi (a - 1) / 2 powi b \<le> x"
    unfolding x using N D n d by (intro frac_le) auto
  then have lower: "2 powi (a - b - 1) \<le> x"
    by (simp add: power_int_diff power_int_add field_simps)
  show ?thesis
    using upper lower by (auto simp: binary_exponent_def q Let_def a_def b_def not_le)
qed

lemma binary_exponent_mono:
  assumes "0 < x" and "x \<le> y"
  shows "binary_exponent x \<le> binary_exponent y"
proof -
  have "2 powi binary_exponent x < (2 :: rat) powi (binary_exponent y + 1)"
    using binary_exponent_bounds [OF assms(1)] binary_exponent_bounds [of y] assms by linarith
  then show ?thesis by simp
qed

lemma binary_exponent_eqI:
  assumes "0 < x" and "2 powi e \<le> x" and "x < 2 powi (e + 1)"
  shows "binary_exponent x = e"
proof -
  have "(2 :: rat) powi e < 2 powi (binary_exponent x + 1)"
    and "(2 :: rat) powi binary_exponent x < 2 powi (e + 1)"
    using binary_exponent_bounds [OF assms(1)] assms by linarith+
  then show ?thesis by simp
qed

section \<open>Rounding to 53 significant bits\<close>

definition fl_pos :: "rat \<Rightarrow> rat" where
  "fl_pos x =
     (let u = 2 powi (binary_exponent x - 52) in of_int (round_half_even (x / u)) * u)"

definition fl :: "rat \<Rightarrow> rat" where
  "fl x = (if x = 0 then 0 else if x < 0 then - fl_pos (- x) else fl_pos x)"

text \<open>The value of a rounding, from the exponent and the nearest multiple of the unit.\<close>

lemma fl_eqI:
  assumes "2 powi e \<le> x" and "x < 2 powi (e + 1)"
    and "of_int n - 1 / 2 < x / 2 powi (e - 52)" and "x / 2 powi (e - 52) < of_int n + 1 / 2"
  shows "fl x = of_int n * 2 powi (e - 52)"
proof -
  have "0 < x" using zero_less_power_int [of "2 :: rat" e] assms(1) by linarith
  moreover have "binary_exponent x = e" using calculation assms(1,2) by (intro binary_exponent_eqI)
  ultimately show ?thesis
    using round_half_even_eqI [OF assms(3,4)] by (simp add: fl_def fl_pos_def Let_def)
qed

lemma scaled_bounds:
  assumes "0 < x" and "u = 2 powi (binary_exponent x - 52)"
  shows "2 ^ 52 \<le> x / u \<and> x / u < 2 ^ 53"
proof -
  have "2 powi binary_exponent x = 2 ^ 52 * u" "2 powi (binary_exponent x + 1) = 2 ^ 53 * u"
    by (simp_all add: assms(2) power_int_diff power_int_add field_simps)
  with binary_exponent_bounds [OF assms(1)] show ?thesis
    by (simp add: assms(2) field_simps)
qed

lemma fl_pos_bounds:
  assumes "0 < x"
  shows "2 powi binary_exponent x \<le> fl_pos x \<and> fl_pos x \<le> 2 powi (binary_exponent x + 1)"
proof -
  define u :: rat where "u = 2 powi (binary_exponent x - 52)"
  have b: "2 ^ 52 \<le> x / u" "x / u < 2 ^ 53" using scaled_bounds [OF assms u_def] by auto
  have "round_half_even (of_int (2 ^ 52)) \<le> round_half_even (x / u)"
    by (rule round_half_even_mono) (use b in simp)
  moreover have "round_half_even (x / u) \<le> round_half_even (of_int (2 ^ 53))"
    by (rule round_half_even_mono) (use b in simp)
  ultimately have "of_int (2 ^ 52) \<le> (of_int (round_half_even (x / u)) :: rat)"
    "(of_int (round_half_even (x / u)) :: rat) \<le> of_int (2 ^ 53)"
    by (simp_all only: round_half_even_int of_int_le_iff)
  then have "of_int (2 ^ 52) * u \<le> of_int (round_half_even (x / u)) * u"
    "of_int (round_half_even (x / u)) * u \<le> of_int (2 ^ 53) * u"
    by (auto simp: u_def intro!: mult_right_mono simp del: of_int_power of_int_numeral)
  moreover have "2 powi binary_exponent x = 2 ^ 52 * u" "2 powi (binary_exponent x + 1) = 2 ^ 53 * u"
    by (simp_all add: u_def power_int_diff power_int_add field_simps)
  ultimately show ?thesis by (simp add: fl_pos_def Let_def u_def)
qed

lemma fl_pos_mono:
  assumes "0 < x" and "x \<le> y"
  shows "fl_pos x \<le> fl_pos y"
proof (cases "binary_exponent x = binary_exponent y")
  case True
  have "round_half_even (x / 2 powi (binary_exponent y - 52)) \<le> round_half_even (y / 2 powi (binary_exponent y - 52))"
    using assms by (intro round_half_even_mono divide_right_mono) auto
  with True show ?thesis by (auto simp: fl_pos_def Let_def intro!: mult_right_mono)
next
  case False
  with binary_exponent_mono [OF assms] have "binary_exponent x + 1 \<le> binary_exponent y" by simp
  then have "(2 :: rat) powi (binary_exponent x + 1) \<le> 2 powi binary_exponent y"
    by (intro power_int_increasing) auto
  with fl_pos_bounds [of x] fl_pos_bounds [of y] assms show ?thesis by linarith
qed

lemma fl_pos_pos: "0 < x \<Longrightarrow> 0 < fl_pos x"
proof -
  assume "0 < x"
  then have "2 powi binary_exponent x \<le> fl_pos x" using fl_pos_bounds by blast
  moreover have "(0 :: rat) < 2 powi binary_exponent x" by simp
  ultimately show ?thesis by linarith
qed

lemma fl_mono: "x \<le> y \<Longrightarrow> fl x \<le> fl y"
  using fl_pos_mono [of x y] fl_pos_mono [of "- y" "- x"] fl_pos_pos [of y] fl_pos_pos [of "- x"]
  by (auto simp: fl_def)

lemma fl_pos_error:
  assumes "0 < x"
  shows "\<bar>fl_pos x - x\<bar> \<le> x / 2 ^ 53"
proof -
  define u :: rat where "u = 2 powi (binary_exponent x - 52)"
  have u: "0 < u" by (simp add: u_def)
  have "fl_pos x - x = (of_int (round_half_even (x / u)) - x / u) * u"
    using u by (simp add: fl_pos_def Let_def u_def [symmetric] field_simps)
  then have "\<bar>fl_pos x - x\<bar> = \<bar>of_int (round_half_even (x / u)) - x / u\<bar> * u"
    using u by (simp add: abs_mult)
  also have "\<dots> \<le> 1 / 2 * u"
    using round_half_even_error u by (intro mult_right_mono) auto
  also have "\<dots> \<le> x / 2 ^ 53"
    using scaled_bounds [OF assms u_def] u by (simp add: field_simps)
  finally show ?thesis .
qed

lemma fl_error: "\<bar>fl x - x\<bar> \<le> \<bar>x\<bar> / 2 ^ 53"
  using fl_pos_error [of x] fl_pos_error [of "- x"]
  by (auto simp: fl_def abs_if split: if_splits)

text \<open>Integers of up to 53 bits are represented exactly.\<close>

lemma fl_pos_int:
  assumes "0 < n" and "n \<le> 2 ^ 53"
  shows "fl_pos (of_int n) = of_int n"
proof -
  let ?e = "binary_exponent (of_int n)"
  show ?thesis
  proof (cases "?e \<le> 52")
    case True
    define k where "k = nat (52 - ?e)"
    have u: "(2 :: rat) powi (?e - 52) = 1 / 2 ^ k"
      using True by (simp add: k_def power_int_def power_one_over)
    have "round_half_even (of_int n * 2 ^ k) = n * 2 ^ k"
      using round_half_even_int [of "n * 2 ^ k"] by simp
    then show ?thesis by (simp add: fl_pos_def Let_def u)
  next
    case False
    have "2 powi ?e \<le> (of_int n :: rat)"
      using binary_exponent_bounds [of "of_int n"] assms by simp
    moreover have "(2 :: rat) powi 53 \<le> 2 powi ?e"
      using False by (intro power_int_increasing) auto
    ultimately have "(2 ^ 53 :: rat) \<le> of_int n" by simp
    then have "(of_int (2 ^ 53) :: rat) \<le> of_int n" by simp
    then have "n = 2 ^ 53" using assms(2) by (simp only: of_int_le_iff)
    moreover have "fl_pos (of_int (2 ^ 53)) = of_int (2 ^ 53)"
    proof -
      have "binary_exponent (of_int (2 ^ 53)) = 53" by (rule binary_exponent_eqI) simp_all
      moreover have "round_half_even (of_int (2 ^ 52)) = 2 ^ 52" by (rule round_half_even_int)
      ultimately show ?thesis by (simp add: fl_pos_def)
    qed
    ultimately show ?thesis by simp
  qed
qed

lemma fl_int:
  assumes "\<bar>n\<bar> \<le> 2 ^ 53"
  shows "fl (of_int n) = of_int n"
  using fl_pos_int [of n] fl_pos_int [of "- n"] assms by (auto simp: fl_def)

lemma fl_numeral: "(numeral k :: int) \<le> 2 ^ 53 \<Longrightarrow> fl (numeral k) = numeral k"
  using fl_int [of "numeral k"] by simp

section \<open>The interface of rounded arithmetic\<close>

text \<open>
  What the clients of the arithmetic rely on: rounding is monotone, exact on 53-bit integers,
  and wrong by at most \<open>2 ^ - 53\<close> of the value.
\<close>

locale rounding =
  fixes rnd :: "rat \<Rightarrow> rat"
  assumes rnd_mono: "x \<le> y \<Longrightarrow> rnd x \<le> rnd y"
    and rnd_int: "\<bar>n\<bar> \<le> 2 ^ 53 \<Longrightarrow> rnd (of_int n) = of_int n"
    and rnd_error: "\<bar>rnd x - x\<bar> \<le> \<bar>x\<bar> / 2 ^ 53"
begin

lemma rnd_0 [simp]: "rnd 0 = 0"
  using rnd_int [of 0] by simp

lemma rnd_1 [simp]: "rnd 1 = 1"
  using rnd_int [of 1] by simp

lemma rnd_nonneg: "0 \<le> x \<Longrightarrow> 0 \<le> rnd x"
  using rnd_mono [of 0 x] by simp

lemma rnd_nat: "n \<le> 2 ^ 53 \<Longrightarrow> rnd (of_nat n) = of_nat n"
  using rnd_int [of "int n"] by simp

lemma rnd_le_nat: "x \<le> of_nat n \<Longrightarrow> n \<le> 2 ^ 53 \<Longrightarrow> rnd x \<le> of_nat n"
  using rnd_mono [of x "of_nat n"] rnd_nat by simp

lemma rnd_ge_nat: "of_nat n \<le> x \<Longrightarrow> n \<le> 2 ^ 53 \<Longrightarrow> of_nat n \<le> rnd x"
  using rnd_mono [of "of_nat n" x] rnd_nat by simp

lemma rnd_upper: "0 \<le> x \<Longrightarrow> rnd x \<le> x * (1 + 1 / 2 ^ 53)"
  using rnd_error [of x] by (simp add: algebra_simps abs_if split: if_splits)

lemma rnd_upper_add: "0 \<le> x \<Longrightarrow> rnd x \<le> x + x / 2 ^ 53"
  using rnd_error [of x] by (simp add: abs_if split: if_splits)

lemma rnd_lower: "0 \<le> x \<Longrightarrow> x * (1 - 1 / 2 ^ 53) \<le> rnd x"
  using rnd_error [of x] by (simp add: algebra_simps abs_if split: if_splits)

end

interpretation f64: rounding fl
  by unfold_locales (rule fl_mono, assumption, rule fl_int, assumption, rule fl_error)

end
