(* ===== verification/Utf8_Bytes.thy ===== *)
theory Utf8_Bytes
  imports Rust_Str
begin

text \<open>
  Bytes behind the strings of the source: the UTF-8 form of a \<open>str\<close> (\<open>as_bytes\<close>, \<open>len\<close>), the
  lossy decoder of header values (\<open>String::from_utf8_lossy\<close>), and the lower-case hexadecimal
  digests. Byte values are computed as numbers and stored as \<open>u8\<close>.
\<close>

section \<open>Encoding\<close>

text \<open>A Rust \<open>char\<close> is a Unicode scalar value, and a \<open>str\<close> consists of these.\<close>

definition is_scalar :: "uchar \<Rightarrow> bool" where
  "is_scalar c \<longleftrightarrow> c < 0xD800 \<or> (0xE000 \<le> c \<and> c < 0x110000)"

definition valid_str :: "ustr \<Rightarrow> bool" where
  "valid_str s \<longleftrightarrow> list_all is_scalar s"

definition utf8_char :: "uchar \<Rightarrow> nat list" where
  "utf8_char c =
     (if c < 0x80 then [c]
      else if c < 0x800 then [0xC0 + c div 64, 0x80 + c mod 64]
      else if c < 0x10000 then [0xE0 + c div 4096, 0x80 + c div 64 mod 64, 0x80 + c mod 64]
      else [0xF0 + c div 262144, 0x80 + c div 4096 mod 64, 0x80 + c div 64 mod 64, 0x80 + c mod 64])"

definition utf8_values :: "ustr \<Rightarrow> nat list" where
  "utf8_values s = concat (map utf8_char s)"

definition as_bytes :: "ustr \<Rightarrow> u8 list" where
  "as_bytes s = map of_nat (utf8_values s)"

section \<open>Lossy decoding\<close>

text \<open>
  An ill-formed sequence is replaced by one \<open>U+FFFD\<close> for its maximal well-formed prefix,
  with the second byte restricted after \<open>E0\<close>, \<open>ED\<close>, \<open>F0\<close> and \<open>F4\<close>.
\<close>

definition continuation :: "nat \<Rightarrow> bool" where
  "continuation b \<longleftrightarrow> 0x80 \<le> b \<and> b \<le> 0xBF"

definition second_of_3 :: "nat \<Rightarrow> nat \<Rightarrow> bool" where
  "second_of_3 b c \<longleftrightarrow>
     (if b = 0xE0 then 0xA0 \<le> c \<and> c \<le> 0xBF
      else if b = 0xED then 0x80 \<le> c \<and> c \<le> 0x9F
      else continuation c)"

definition second_of_4 :: "nat \<Rightarrow> nat \<Rightarrow> bool" where
  "second_of_4 b c \<longleftrightarrow>
     (if b = 0xF0 then 0x90 \<le> c \<and> c \<le> 0xBF
      else if b = 0xF4 then 0x80 \<le> c \<and> c \<le> 0x8F
      else continuation c)"

fun utf8_lossy :: "nat list \<Rightarrow> ustr" where
  "utf8_lossy [] = []"
| "utf8_lossy (b # bs) =
     (if b < 0x80 then b # utf8_lossy bs
      else if 0xC2 \<le> b \<and> b \<le> 0xDF then
        (case bs of
           c # cs \<Rightarrow> if continuation c then ((b - 0xC0) * 64 + (c - 0x80)) # utf8_lossy cs
                      else 0xFFFD # utf8_lossy bs
         | [] \<Rightarrow> [0xFFFD])
      else if 0xE0 \<le> b \<and> b \<le> 0xEF then
        (case bs of
           c # cs \<Rightarrow>
             if second_of_3 b c then
               (case cs of
                  d # ds \<Rightarrow> if continuation d
                             then ((b - 0xE0) * 4096 + (c - 0x80) * 64 + (d - 0x80)) # utf8_lossy ds
                             else 0xFFFD # utf8_lossy cs
                | [] \<Rightarrow> [0xFFFD])
             else 0xFFFD # utf8_lossy bs
         | [] \<Rightarrow> [0xFFFD])
      else if 0xF0 \<le> b \<and> b \<le> 0xF4 then
        (case bs of
           c # cs \<Rightarrow>
             if second_of_4 b c then
               (case cs of
                  d # ds \<Rightarrow>
                    if continuation d then
                      (case ds of
                         e # es \<Rightarrow> if continuation e
                                    then ((b - 0xF0) * 262144 + (c - 0x80) * 4096 + (d - 0x80) * 64 + (e - 0x80))
                                         # utf8_lossy es
                                    else 0xFFFD # utf8_lossy ds
                       | [] \<Rightarrow> [0xFFFD])
                    else 0xFFFD # utf8_lossy cs
                | [] \<Rightarrow> [0xFFFD])
             else 0xFFFD # utf8_lossy bs
         | [] \<Rightarrow> [0xFFFD])
      else 0xFFFD # utf8_lossy bs)"

definition from_utf8_lossy :: "u8 list \<Rightarrow> ustr" where
  "from_utf8_lossy bs = utf8_lossy (map unat bs)"

declare utf8_lossy.simps(2) [simp del]

section \<open>Round trip\<close>

lemma second_of_3_I:
  "y \<le> 63 \<Longrightarrow> (x = 0 \<Longrightarrow> 32 \<le> y) \<Longrightarrow> (x = 13 \<Longrightarrow> y \<le> 31) \<Longrightarrow> second_of_3 (0xE0 + x) (0x80 + y)"
  by (simp add: second_of_3_def continuation_def)

lemma second_of_4_I:
  "y \<le> 63 \<Longrightarrow> (x = 0 \<Longrightarrow> 16 \<le> y) \<Longrightarrow> (x = 4 \<Longrightarrow> y \<le> 15) \<Longrightarrow> second_of_4 (0xF0 + x) (0x80 + y)"
  by (simp add: second_of_4_def continuation_def)

lemma sextets_3: "c div 4096 * 4096 + c div 64 mod 64 * 64 + c mod 64 = (c :: nat)"
proof -
  have "c div 4096 = c div 64 div 64" by (simp add: div_mult2_eq [symmetric])
  then show ?thesis using div_mult_mod_eq [of c 64] div_mult_mod_eq [of "c div 64" 64] by linarith
qed

lemma sextets_4: "c div 262144 * 262144 + c div 4096 mod 64 * 4096 + c div 64 mod 64 * 64 + c mod 64 = (c :: nat)"
proof -
  have "c div 262144 = c div 4096 div 64" by (simp add: div_mult2_eq [symmetric])
  then show ?thesis using sextets_3 [of c] div_mult_mod_eq [of "c div 4096" 64] by linarith
qed

lemma utf8_lossy_char:
  assumes "is_scalar c"
  shows "utf8_lossy (utf8_char c @ rest) = c # utf8_lossy rest"
proof -
  consider "c < 0x80" | "0x80 \<le> c" "c < 0x800" | "0x800 \<le> c" "c < 0x10000" | "0x10000 \<le> c" "c < 0x110000"
    using assms by (fastforce simp: is_scalar_def)
  then show ?thesis
  proof cases
    case 1
    then show ?thesis by (simp add: utf8_char_def utf8_lossy.simps)
  next
    case 2
    then have "2 \<le> c div 64" by auto
    with 2 show ?thesis
      by (simp add: utf8_char_def utf8_lossy.simps continuation_def) linarith
  next
    case 3
    then have b: "c div 4096 \<le> 15" by auto
    have s: "second_of_3 (0xE0 + c div 4096) (0x80 + c div 64 mod 64)"
    proof -
      have "c div 64 mod 64 \<le> 63" by linarith
      moreover have "32 \<le> c div 64 mod 64" if "c div 4096 = 0"
      proof -
        have "c < 4096" using that by simp
        then have "c div 64 < 64" "32 \<le> c div 64" using 3 by auto
        then show ?thesis by simp
      qed
      moreover have "c div 64 mod 64 \<le> 31" if "c div 4096 = 13"
      proof -
        have "c < 0xE000" using that by linarith
        then have "c < 0xD800" using assms by (auto simp: is_scalar_def)
        then have "c div 64 < 864" by auto
        moreover have "c div 64 div 64 = 13" using that by (simp add: div_mult2_eq [symmetric])
        ultimately show ?thesis using div_mult_mod_eq [of "c div 64" 64] by linarith
      qed
      ultimately show ?thesis by (rule second_of_3_I)
    qed
    with 3 b s sextets_3 [of c] show ?thesis
      by (simp add: utf8_char_def utf8_lossy.simps continuation_def)
  next
    case 4
    then have b: "c div 262144 \<le> 4" by auto
    have s: "second_of_4 (0xF0 + c div 262144) (0x80 + c div 4096 mod 64)"
    proof -
      have q: "16 \<le> c div 4096" "c div 4096 < 272" using 4 by auto
      have d: "c div 262144 = c div 4096 div 64" by (simp add: div_mult2_eq [symmetric])
      have "c div 4096 mod 64 \<le> 63" by linarith
      moreover have "16 \<le> c div 4096 mod 64" if "c div 262144 = 0"
        using q d that div_mult_mod_eq [of "c div 4096" 64] by linarith
      moreover have "c div 4096 mod 64 \<le> 15" if "c div 262144 = 4"
        using q d that div_mult_mod_eq [of "c div 4096" 64] by linarith
      ultimately show ?thesis by (rule second_of_4_I)
    qed
    with 4 b s sextets_4 [of c] show ?thesis
      by (simp add: utf8_char_def utf8_lossy.simps continuation_def) linarith
  qed
qed

lemma utf8_char_byte: "is_scalar c \<Longrightarrow> b \<in> set (utf8_char c) \<Longrightarrow> b < 256"
proof -
  assume c: "is_scalar c" and b: "b \<in> set (utf8_char c)"
  have "c < 0x110000" using c by (auto simp: is_scalar_def)
  with b show "b < 256" by (auto simp: utf8_char_def split: if_splits)
qed

lemma utf8_lossy_values: "valid_str s \<Longrightarrow> utf8_lossy (utf8_values s) = s"
  by (induction s) (simp_all add: utf8_values_def valid_str_def utf8_lossy_char)

lemma unat_byte: "b < 256 \<Longrightarrow> unat (of_nat b :: u8) = b"
  by (simp add: unat_of_nat)

lemma values_of_bytes: "valid_str s \<Longrightarrow> map unat (as_bytes s) = utf8_values s"
  unfolding as_bytes_def valid_str_def
  by (induction s) (auto simp: utf8_values_def unat_byte dest: utf8_char_byte intro!: map_idI)

lemma valid_lit [simp]: "valid_str (lit s)"
proof -
  have "is_scalar (of_char c)" for c :: char
    using nat_of_char_less_256 [of c] unfolding is_scalar_def by linarith
  then show ?thesis by (simp add: valid_str_def lit_def list_all_iff)
qed

lemma from_utf8_lossy_as_bytes: "valid_str s \<Longrightarrow> from_utf8_lossy (as_bytes s) = s"
  by (simp add: from_utf8_lossy_def values_of_bytes utf8_lossy_values)

lemma as_bytes_inject: "valid_str s \<Longrightarrow> valid_str t \<Longrightarrow> as_bytes s = as_bytes t \<longleftrightarrow> s = t"
  by (metis from_utf8_lossy_as_bytes)

lemma as_bytes_Nil [simp]: "as_bytes [] = []"
  by (simp add: as_bytes_def utf8_values_def)

lemma as_bytes_append [simp]: "as_bytes (s @ t) = as_bytes s @ as_bytes t"
  by (simp add: as_bytes_def utf8_values_def)

text \<open>ASCII characters are their own byte, and no other character has an ASCII byte.\<close>

lemma utf8_char_ascii: "c < 0x80 \<Longrightarrow> utf8_char c = [c]"
  by (simp add: utf8_char_def)

lemma utf8_char_high: "0x80 \<le> c \<Longrightarrow> b \<in> set (utf8_char c) \<Longrightarrow> 0x80 \<le> b"
  by (auto simp: utf8_char_def split: if_splits)

lemma ascii_byte_iff:
  assumes "k < 0x80"
  shows "k \<in> set (utf8_values s) \<longleftrightarrow> k \<in> set s"
proof -
  have "k \<in> set (utf8_char c) \<longleftrightarrow> k = c" for c
    using assms utf8_char_high [of c k] utf8_char_ascii [of c] by (cases "c < 0x80") auto
  then show ?thesis by (simp add: utf8_values_def)
qed

lemma as_bytes_ascii:
  assumes "list_all (\<lambda>c. c < 0x80) s"
  shows "as_bytes s = map of_nat s"
  using assms by (induction s) (simp_all add: as_bytes_def utf8_values_def utf8_char_ascii)

lemma byte_in_as_bytes:
  assumes "valid_str s" and "k < 0x80"
  shows "of_nat k \<in> set (as_bytes s) \<longleftrightarrow> k \<in> set s"
proof -
  have "of_nat k \<in> set (as_bytes s) \<longleftrightarrow> k \<in> set (map unat (as_bytes s))"
    using assms(2) unat_byte [of k] by (force simp: image_iff)
  then show ?thesis using assms by (simp add: values_of_bytes ascii_byte_iff del: list.set_map)
qed

section \<open>What the lossy decoder returns\<close>

text \<open>Whatever the bytes, the result is a string: every character of it is a scalar value.\<close>

lemma lossy_2: "0xC2 \<le> b \<Longrightarrow> b \<le> 0xDF \<Longrightarrow> continuation c \<Longrightarrow> is_scalar ((b - 0xC0) * 64 + (c - 0x80))"
  unfolding is_scalar_def continuation_def by (rule disjI1) linarith

lemma lossy_3:
  "0xE0 \<le> b \<Longrightarrow> b \<le> 0xEF \<Longrightarrow> second_of_3 b c \<Longrightarrow> continuation d \<Longrightarrow>
     is_scalar ((b - 0xE0) * 4096 + (c - 0x80) * 64 + (d - 0x80))"
  unfolding is_scalar_def continuation_def second_of_3_def by (auto split: if_splits; linarith)

lemma lossy_4:
  "0xF0 \<le> b \<Longrightarrow> b \<le> 0xF4 \<Longrightarrow> second_of_4 b c \<Longrightarrow> continuation d \<Longrightarrow> continuation e \<Longrightarrow>
     is_scalar ((b - 0xF0) * 262144 + (c - 0x80) * 4096 + (d - 0x80) * 64 + (e - 0x80))"
  unfolding is_scalar_def continuation_def second_of_4_def by (auto split: if_splits; linarith)

lemma lossy_valid: "valid_str (utf8_lossy bs)"
proof (induction bs rule: utf8_lossy.induct)
  case 1
  then show ?case by (simp add: valid_str_def)
next
  case (2 b bs)
  have r: "is_scalar 0xFFFD" "b < 0x80 \<Longrightarrow> is_scalar b" by (simp_all add: is_scalar_def)
  show ?case
    using 2 r lossy_2 lossy_3 lossy_4
    by (subst utf8_lossy.simps) (simp add: valid_str_def split: list.split)
qed

section \<open>Hexadecimal digests and the fixed content\<close>

text \<open>\<open>format!("{byte:02x}")\<close>: at least two digits, padded with zeros.\<close>

definition hex_02 :: "u8 \<Rightarrow> ustr" where
  "hex_02 b = (let s = show_radix 16 (unat b) in replicate (2 - length s) 48 @ s)"

definition hex_lower :: "u8 list \<Rightarrow> ustr" where
  "hex_lower bytes = concat (map hex_02 bytes)"

definition FIXED_CONTENT :: "u8 list" where
  "FIXED_CONTENT = as_bytes (lit
     ''{\"proxpulse\":\"judge\",\"v\":1,\"payload\":\"0123456789abcdef0123456789abcdef0123456789abcdef\"}'')"

definition CONTENT_VERSION :: u8 where
  "CONTENT_VERSION = 1"

definition content_sha256 :: "(u8 list \<Rightarrow> u8 list) \<Rightarrow> ustr" where
  "content_sha256 sha256 = hex_lower (sha256 FIXED_CONTENT)"

lemma hex_02_digits: "hex_02 b = [digit_char (unat b div 16), digit_char (unat b mod 16)]"
proof (cases "unat b < 16")
  case True
  then show ?thesis by (simp add: hex_02_def show_radix.simps [of 16 "unat b"] digit_char_def)
next
  case False
  moreover have "unat b div 16 < 16" using unat_u8_less [of b] by simp
  ultimately show ?thesis
    by (simp add: hex_02_def show_radix.simps [of 16 "unat b"] show_radix.simps [of 16 "unat b div 16"])
qed

lemma length_hex_lower: "length (hex_lower bs) = 2 * length bs"
  by (induction bs) (simp_all add: hex_lower_def hex_02_digits)

lemma digit_char_inject: "d < 16 \<Longrightarrow> e < 16 \<Longrightarrow> digit_char d = digit_char e \<longleftrightarrow> d = e"
  by (auto simp: digit_char_def split: if_splits)

lemma hex_02_inject: "hex_02 a = hex_02 b \<longleftrightarrow> a = b"
proof
  assume "hex_02 a = hex_02 b"
  moreover have "unat a div 16 < 16" "unat b div 16 < 16"
    using unat_u8_less [of a] unat_u8_less [of b] by simp_all
  ultimately have "unat a div 16 = unat b div 16" "unat a mod 16 = unat b mod 16"
    by (simp_all add: hex_02_digits digit_char_inject)
  then have "unat a = unat b" by (metis div_mult_mod_eq)
  then show "a = b" by (simp add: word_unat_eq_iff)
qed simp

lemma hex_lower_inject: "hex_lower as = hex_lower bs \<longleftrightarrow> as = bs"
proof (induction as arbitrary: bs)
  case Nil
  then show ?case by (cases bs) (simp_all add: hex_lower_def hex_02_digits)
next
  case (Cons a as)
  show ?case
  proof (cases bs)
    case Nil
    then show ?thesis by (simp add: hex_lower_def hex_02_digits)
  next
    case (Cons b bs')
    have "hex_lower (a # as) = hex_02 a @ hex_lower as" "hex_lower (b # bs') = hex_02 b @ hex_lower bs'"
      by (simp_all add: hex_lower_def)
    then show ?thesis
      using Cons.IH [of bs'] Cons hex_02_inject [of a b] by (simp add: hex_02_digits) blast
  qed
qed

lemma hex_lower_chars: "c \<in> set (hex_lower bs) \<Longrightarrow> is_ascii_digit c \<or> (97 \<le> c \<and> c \<le> 102)"
proof -
  assume "c \<in> set (hex_lower bs)"
  then obtain b where b: "c \<in> set (hex_02 b)" by (auto simp: hex_lower_def)
  have "unat b div 16 < 16" "unat b mod 16 < 16" using unat_u8_less [of b] by simp_all
  with b show ?thesis by (auto simp: hex_02_digits digit_char_def is_ascii_digit_def split: if_splits)
qed

end
