(* ===== verification/Signed_Answers.thy ===== *)
theory Signed_Answers
  imports Utf8_Bytes
begin

text \<open>
  Ed25519 signatures on the answers of \<open>/judge\<close> (\<open>src/sign.rs\<close>): the signer and its key
  material, and the message that binds the body to the nonce and the direct address of the
  checker. Curve arithmetic, SHA-256 and base64 are libraries: the functions of \<open>crypto\<close>.
\<close>

section \<open>Libraries\<close>

record 'k crypto =
  key_from_bytes :: "u8 list \<Rightarrow> 'k"
  verifying_bytes :: "'k \<Rightarrow> u8 list"
  key_sign :: "'k \<Rightarrow> u8 list \<Rightarrow> u8 list"
  sha256 :: "u8 list \<Rightarrow> u8 list"
  b64_encode :: "u8 list \<Rightarrow> ustr"
  b64_decode :: "ustr \<Rightarrow> u8 list option"

section \<open>The signed message\<close>

definition SIGNATURE_CONTEXT :: "u8 list" where
  "SIGNATURE_CONTEXT = as_bytes (lit ''proxpulse-judge-v1'') @ [10]"

definition message :: "ustr \<Rightarrow> ustr \<Rightarrow> u8 list \<Rightarrow> u8 list" where
  "message challenge direct_ip body =
     SIGNATURE_CONTEXT @ as_bytes challenge @ [10] @ as_bytes direct_ip @ [10] @ body"

definition valid_nonce :: "ustr \<Rightarrow> bool" where
  "valid_nonce n \<longleftrightarrow>
     8 \<le> length (as_bytes n) \<and> length (as_bytes n) \<le> 64 \<and>
     list_all (\<lambda>b. is_ascii_alphanumeric (unat b) \<or> b = 95 \<or> b = 45) (as_bytes n)"

section \<open>The signer\<close>

record 'k signer =
  key :: 'k
  public_key :: ustr
  key_id :: ustr
  ephemeral :: bool

definition from_seed :: "'k crypto \<Rightarrow> u8 list \<Rightarrow> bool \<Rightarrow> 'k signer" where
  "from_seed lib seed eph =
     (let k = key_from_bytes lib seed;
          public = verifying_bytes lib k;
          digest = sha256 lib public
      in \<lparr>key = k, public_key = b64_encode lib public,
          key_id = concat (map hex_02 (take 4 digest)), ephemeral = eph\<rparr>)"

definition from_seed_b64 :: "'k crypto \<Rightarrow> ustr \<Rightarrow> ustr + 'k signer" where
  "from_seed_b64 lib seed =
     (case b64_decode lib (trim seed) of
        None \<Rightarrow> Inl (lit ''SIGNING_KEY is not valid base64'')
      | Some bytes \<Rightarrow>
          if length bytes = 32 then Inr (from_seed lib bytes False)
          else Inl (lit ''SIGNING_KEY must be 32 bytes (openssl rand -base64 32)''))"

text \<open>
  \<open>random\<close> is what the operating system's generator does with the 32-byte buffer: it fills it,
  or fails with an error (given by its text).
\<close>

definition generate :: "'k crypto \<Rightarrow> ustr + u8 list \<Rightarrow> ustr + 'k signer" where
  "generate lib random =
     (case random of
        Inl e \<Rightarrow> Inl (lit ''cannot generate a signing key: '' @ e)
      | Inr seed \<Rightarrow> Inr (from_seed lib seed True))"

definition sign :: "'k crypto \<Rightarrow> 'k signer \<Rightarrow> ustr \<Rightarrow> ustr \<Rightarrow> u8 list \<Rightarrow> ustr" where
  "sign lib s challenge direct_ip body =
     b64_encode lib (key_sign lib (key s) (message challenge direct_ip body))"

text \<open>
  The \<open>Debug\<close> text \<open>{:?}\<close>. A string is escaped as the standard library does it; which characters
  outside ASCII it prints as they are is the argument \<open>plain\<close>.
\<close>

definition debug_char :: "(uchar \<Rightarrow> bool) \<Rightarrow> uchar \<Rightarrow> ustr" where
  "debug_char plain c =
     (if c = 0 then lit [CHR 92, CHR ''0'']
      else if c = 9 then lit [CHR 92, CHR ''t'']
      else if c = 13 then lit [CHR 92, CHR ''r'']
      else if c = 10 then lit [CHR 92, CHR ''n'']
      else if c = 34 \<or> c = 92 then [92, c]
      else if (if c < 128 then 32 \<le> c \<and> c < 127 else plain c) then [c]
      else lit [CHR 92, CHR ''u'', CHR ''{''] @ show_radix 16 c @ lit ''}'')"

definition debug_str :: "(uchar \<Rightarrow> bool) \<Rightarrow> ustr \<Rightarrow> ustr" where
  "debug_str plain t = [34] @ concat (map (debug_char plain) t) @ [34]"

definition debug_signer :: "(uchar \<Rightarrow> bool) \<Rightarrow> 'k signer \<Rightarrow> ustr" where
  "debug_signer plain s =
     lit ''Signer { key_id: '' @ debug_str plain (key_id s) @ lit '', ephemeral: '' @
     (if ephemeral s then lit ''true'' else lit ''false'') @ lit '' }''"

section \<open>The fields of the message\<close>

lemma line_split:
  assumes "x \<notin> set a" and "x \<notin> set c"
  shows "a @ x # b = c @ x # d \<longleftrightarrow> a = c \<and> b = d"
  using assms
proof (induction a arbitrary: c)
  case Nil
  then show ?case by (cases c) auto
next
  case (Cons y a)
  then show ?case by (cases c) auto
qed

lemma no_lf_byte: "valid_str s \<Longrightarrow> 10 \<notin> set s \<Longrightarrow> 10 \<notin> set (as_bytes s)"
  using byte_in_as_bytes [of s 10] by simp

text \<open>
  The signed message determines its fields: with no line feed in the nonce and the direct
  address, two messages are equal exactly when nonce, direct address and body are.
\<close>

theorem message_injective:
  assumes "valid_str n" "valid_str n'" "valid_str d" "valid_str d'"
    and "10 \<notin> set n" "10 \<notin> set n'" "10 \<notin> set d" "10 \<notin> set d'"
  shows "message n d body = message n' d' body' \<longleftrightarrow> n = n' \<and> d = d' \<and> body = body'"
  using assms by (simp add: message_def line_split no_lf_byte as_bytes_inject)

theorem message_injective_witness:
  "message (lit ''nonce-123'') (lit ''1.2.3.4'') [1] = message (lit ''nonce-123'') (lit ''1.2.3.4'') [2]
     \<longleftrightarrow> ([1] :: u8 list) = [2]"
  by (subst message_injective) (simp_all add: valid_str_def is_scalar_def str_eval)

text \<open>A line feed in a field would make the layout ambiguous.\<close>

lemma message_ambiguous:
  "message (lit ''a'') (10 # lit ''b'') body = message (lit ''a'' @ [10]) (lit ''b'') body"
  by (simp add: message_def as_bytes_def utf8_values_def utf8_char_def str_eval)

lemma valid_nonce_iff:
  assumes "valid_str n"
  shows "valid_nonce n \<longleftrightarrow>
    8 \<le> length n \<and> length n \<le> 64 \<and> list_all (\<lambda>c. is_ascii_alphanumeric c \<or> c = 95 \<or> c = 45) n"
proof (cases "list_all (\<lambda>c. c < 0x80) n")
  case True
  have "(is_ascii_alphanumeric (unat (of_nat c :: u8)) \<or> (of_nat c :: u8) = 95 \<or> (of_nat c :: u8) = 45) \<longleftrightarrow>
      is_ascii_alphanumeric c \<or> c = 95 \<or> c = 45" if "c < 0x80" for c
    using that unat_byte [of c] by (simp add: word_unat_eq_iff)
  with True show ?thesis
    by (auto simp: valid_nonce_def as_bytes_ascii list_all_iff)
next
  case False
  then obtain c where c: "c \<in> set n" "0x80 \<le> c" by (auto simp: list_all_iff not_less)
  define b where "b = hd (utf8_char c)"
  have b: "b \<in> set (utf8_char c)" "0x80 \<le> b"
    using utf8_char_high [OF c(2), of b] hd_in_set [of "utf8_char c"] by (auto simp: b_def utf8_char_def)
  then have "b \<in> set (map unat (as_bytes n))"
    unfolding values_of_bytes [OF assms] using c(1) by (auto simp: utf8_values_def)
  then obtain w where w: "w \<in> set (as_bytes n)" "0x80 \<le> unat w" using b(2) unfolding set_map by blast
  then have "\<not> (is_ascii_alphanumeric (unat w) \<or> w = 95 \<or> w = 45)"
    by (auto simp: is_ascii_alphanumeric_def is_ascii_digit_def)
  then have "\<not> valid_nonce n" using w(1) by (auto simp: valid_nonce_def list_all_iff)
  moreover have "\<not> (is_ascii_alphanumeric c \<or> c = 95 \<or> c = 45)"
    using c(2) by (auto simp: is_ascii_alphanumeric_def is_ascii_digit_def)
  ultimately show ?thesis using c(1) by (auto simp: list_all_iff)
qed

lemma valid_nonce_no_lf: "valid_str n \<Longrightarrow> valid_nonce n \<Longrightarrow> 10 \<notin> set n"
  by (auto simp: valid_nonce_iff list_all_iff is_ascii_alphanumeric_def is_ascii_digit_def)

end
