(* ===== verification/Env_Config.thy ===== *)
theory Env_Config
  imports Host_Chain Float64 Signed_Answers
begin

text \<open>
  The configuration read from environment variables at startup (\<open>src/config.rs\<close>): number,
  flag, address, header-list and timeout parsing, and \<open>Config::from_lookup\<close>. Every
  \<open>format!\<close> error of the source is a constructor of \<open>config_error\<close> with its arguments. The
  check of header names and the text syntax of \<open>f64\<close> are libraries: parameters.
\<close>

section \<open>Numbers in text\<close>

text \<open>\<open>str::parse\<close> for an unsigned type with the given largest value.\<close>

fun parse_digits :: "nat \<Rightarrow> nat \<Rightarrow> ustr \<Rightarrow> nat option" where
  "parse_digits largest acc [] = Some acc"
| "parse_digits largest acc (c # cs) =
     (case to_digit 10 c of
        None \<Rightarrow> None
      | Some d \<Rightarrow> if acc * 10 + d \<le> largest then parse_digits largest (acc * 10 + d) cs else None)"

definition parse_unsigned :: "nat \<Rightarrow> ustr \<Rightarrow> nat option" where
  "parse_unsigned largest s =
     (if s = [] \<or> s = [43] \<or> s = [45] then None
      else if hd s = 43 then parse_digits largest 0 (tl s)
      else parse_digits largest 0 s)"

datatype f64_value = Finite rat | Infinite bool | Not_A_Number

text \<open>
  \<open>Duration::from_secs_f64\<close> in nanoseconds: panics (\<open>None\<close>) on negative, infinite and too
  large values, otherwise rounds to the nearest nanosecond, ties to even.
\<close>

definition from_secs_f64 :: "f64_value \<Rightarrow> nat option" where
  "from_secs_f64 v =
     (case v of
        Finite x \<Rightarrow> if 0 \<le> x \<and> x < 2 ^ 64 then Some (nat (round_half_even (x * 10 ^ 9))) else None
      | _ \<Rightarrow> None)"

section \<open>Single variables\<close>

datatype var_result = Var_Ok ustr | Not_Present | Not_Unicode

datatype config_error =
    Bad_Flag ustr ustr
  | Bad_Bind_Addr ustr
  | Bad_Edge_Header ustr
  | Edge_Header_Is_Forwarded
  | Not_Valid_Unicode ustr
  | Signer_Failed ustr

definition parse_var :: "ustr \<Rightarrow> var_result \<Rightarrow> config_error + ustr option" where
  "parse_var name raw =
     (case raw of
        Var_Ok v \<Rightarrow> Inr (Some v)
      | Not_Present \<Rightarrow> Inr None
      | Not_Unicode \<Rightarrow> Inl (Not_Valid_Unicode name))"

definition parse_port :: "ustr option \<Rightarrow> u16" where
  "parse_port raw =
     (case Option.bind raw (parse_unsigned 65535) of None \<Rightarrow> 8000 | Some n \<Rightarrow> of_nat n)"

definition parse_flag :: "ustr \<Rightarrow> ustr option \<Rightarrow> config_error + bool" where
  "parse_flag name raw =
     (case map_option (\<lambda>v. to_ascii_lowercase (trim v)) raw of
        None \<Rightarrow> Inr False
      | Some v \<Rightarrow>
          if v \<in> set (map lit ['''', ''0'', ''false'', ''no'', ''off'']) then Inr False
          else if v \<in> set (map lit [''1'', ''true'', ''yes'', ''on'']) then Inr True
          else Inl (Bad_Flag name v))"

definition trim_start_matches :: "uchar \<Rightarrow> ustr \<Rightarrow> ustr" where
  "trim_start_matches c s = dropWhile (\<lambda>x. x = c) s"

definition trim_end_matches :: "uchar \<Rightarrow> ustr \<Rightarrow> ustr" where
  "trim_end_matches c s = rev (dropWhile (\<lambda>x. x = c) (rev s))"

definition parse_bind :: "ustr option \<Rightarrow> config_error + ip_addr" where
  "parse_bind raw =
     (case map_option trim raw of
        None \<Rightarrow> Inr (V4 (Ipv4Addr 0 0 0 0))
      | Some v \<Rightarrow>
          if v = [] then Inr (V4 (Ipv4Addr 0 0 0 0))
          else (case parse_ip (trim_end_matches 93 (trim_start_matches 91 v)) of
                  None \<Rightarrow> Inl (Bad_Bind_Addr v)
                | Some a \<Rightarrow> Inr a))"

definition probe_addr :: "ustr option \<Rightarrow> ustr option \<Rightarrow> (ip_addr \<times> u16) option" where
  "probe_addr bind_addr port_var =
     (case parse_bind bind_addr of
        Inl _ \<Rightarrow> None
      | Inr ip \<Rightarrow>
          Some ((case ip of
                   V4 v4 \<Rightarrow> if v4_is_unspecified v4 then V4 (Ipv4Addr 127 0 0 1) else V4 v4
                 | V6 v6 \<Rightarrow> if v6_is_unspecified v6 then V6 (Ipv6Addr 0 0 0 0 0 0 0 1) else V6 v6),
                parse_port port_var))"

fun edge_header_loop :: "(u8 list \<Rightarrow> bool) \<Rightarrow> ustr list \<Rightarrow> ustr list \<Rightarrow> config_error + ustr list" where
  "edge_header_loop name_ok out [] = Inr out"
| "edge_header_loop name_ok out (raw # rest) =
     (let name = trim raw in
      if name = [] then edge_header_loop name_ok out rest
      else
        (let name = to_ascii_lowercase name in
         if \<not> name_ok (as_bytes name) then Inl (Bad_Edge_Header name)
         else if name = lit ''x-forwarded-for'' then Inl Edge_Header_Is_Forwarded
         else edge_header_loop name_ok (if name \<in> set out then out else out @ [name]) rest))"

definition parse_edge_headers :: "(u8 list \<Rightarrow> bool) \<Rightarrow> ustr option \<Rightarrow> config_error + ustr list" where
  "parse_edge_headers name_ok raw =
     edge_header_loop name_ok [] (split_on (\<lambda>c. c = 44) (case raw of None \<Rightarrow> [] | Some s \<Rightarrow> s))"

definition parse_rdns_timeout :: "(ustr \<Rightarrow> f64_value option) \<Rightarrow> ustr option \<Rightarrow> nat option" where
  "parse_rdns_timeout parse_f64 raw =
     (case Option.bind raw parse_f64 of
        Some (Finite x) \<Rightarrow> if 0 \<le> x then from_secs_f64 (Finite (min x 60)) else from_secs_f64 (Finite (3 / 2))
      | _ \<Rightarrow> from_secs_f64 (Finite (3 / 2)))"

definition parse_signer ::
  "'k crypto \<Rightarrow> ustr + u8 list \<Rightarrow> ustr option \<Rightarrow> config_error + 'k signer" where
  "parse_signer lib random raw =
     map_sum Signer_Failed id
       (case raw of
          Some seed \<Rightarrow> if trim seed \<noteq> [] then from_seed_b64 lib seed else generate lib random
        | None \<Rightarrow> generate lib random)"

section \<open>The configuration\<close>

record 'k config =
  port :: u16
  bind :: ip_addr
  geo_dir :: ustr
  trust_proxy :: bool
  trust_cf :: bool
  rdns_timeout :: nat
  rate_per_minute :: u32
  edge_headers :: "ustr list"
  metrics_token :: "ustr option"
  config_signer :: "'k signer"

record 'k config_env =
  lookup :: "ustr \<Rightarrow> var_result"
  header_name_ok :: "u8 list \<Rightarrow> bool"
  parse_f64 :: "ustr \<Rightarrow> f64_value option"
  crypto_lib :: "'k crypto"
  os_random :: "ustr + u8 list"

definition get_var :: "'k config_env \<Rightarrow> string \<Rightarrow> config_error + ustr option" where
  "get_var env name = parse_var (lit name) (lookup env (lit name))"

text \<open>
  The struct literal at the end of \<open>Config::from_lookup\<close>, from the values it reads. A panic in
  the timeout conversion would be \<open>None\<close> inside \<open>the\<close>; it is shown below never to happen.
\<close>

definition config_literal ::
  "'k config_env \<Rightarrow> bool \<Rightarrow> bool \<Rightarrow> ustr list \<Rightarrow> ustr option \<Rightarrow> ip_addr \<Rightarrow> ustr option \<Rightarrow> ustr option \<Rightarrow>
     ustr option \<Rightarrow> ustr option \<Rightarrow> 'k signer \<Rightarrow> 'k config" where
  "config_literal env proxy cf edges port_var bind_ip dir timeout rate token s =
     \<lparr>port = parse_port port_var,
      bind = bind_ip,
      geo_dir = (case dir of None \<Rightarrow> lit ''/app/geo'' | Some d \<Rightarrow> d),
      trust_proxy = proxy,
      trust_cf = cf,
      rdns_timeout = the (parse_rdns_timeout (parse_f64 env) timeout),
      rate_per_minute =
        (case Option.bind rate (parse_unsigned (2 ^ 32 - 1)) of None \<Rightarrow> 6000 | Some n \<Rightarrow> of_nat n),
      edge_headers = edges,
      metrics_token = (case token of Some t \<Rightarrow> if trim t \<noteq> [] then Some t else None | None \<Rightarrow> None),
      config_signer = s\<rparr>"

definition from_lookup :: "'k config_env \<Rightarrow> config_error + 'k config" where
  "from_lookup env =
     result_bind (result_bind (get_var env ''TRUST_PROXY'') (parse_flag (lit ''TRUST_PROXY''))) (\<lambda>proxy.
     result_bind (if proxy then result_bind (get_var env ''TRUST_CF'') (parse_flag (lit ''TRUST_CF''))
                  else Inr False) (\<lambda>cf.
     result_bind (result_bind (get_var env ''EDGE_HEADERS'') (parse_edge_headers (header_name_ok env))) (\<lambda>edges.
     (let edges = (if \<not> proxy \<and> edges \<noteq> [] then [] else edges) in
     result_bind (get_var env ''PORT'') (\<lambda>port_var.
     result_bind (result_bind (get_var env ''BIND_ADDR'') parse_bind) (\<lambda>bind_ip.
     result_bind (get_var env ''GEO_DIR'') (\<lambda>dir.
     result_bind (get_var env ''RDNS_TIMEOUT'') (\<lambda>timeout.
     result_bind (get_var env ''RATE_LIMIT_PER_MINUTE'') (\<lambda>rate.
     result_bind (get_var env ''METRICS_TOKEN'') (\<lambda>token.
     result_bind (result_bind (get_var env ''SIGNING_KEY'') (parse_signer (crypto_lib env) (os_random env))) (\<lambda>s.
     Inr (config_literal env proxy cf edges port_var bind_ip dir timeout rate token s))))))))))))"

section \<open>Numbers\<close>

lemma show_nat_step: "show_nat n = (if n < 10 then [digit_char n] else show_nat (n div 10) @ [digit_char (n mod 10)])"
  by (simp add: show_nat_def show_radix.simps [of 10 n])

lemma parse_digits_append:
  "parse_digits m acc (s @ t) = (case parse_digits m acc s of None \<Rightarrow> None | Some a \<Rightarrow> parse_digits m a t)"
  by (induction s arbitrary: acc) (auto split: option.split)

lemma parse_digits_show: "n \<le> m \<Longrightarrow> parse_digits m 0 (show_nat n) = Some n"
proof (induction n rule: less_induct)
  case (less n)
  show ?case
  proof (cases "n < 10")
    case True
    then show ?thesis using less.prems by (simp add: show_nat_step [of n])
  next
    case False
    then have "parse_digits m 0 (show_nat (n div 10)) = Some (n div 10)"
      using less by (intro less.IH) auto
    moreover have "n div 10 * 10 + n mod 10 = n" by simp
    ultimately show ?thesis
      using False less.prems by (simp add: show_nat_step [of n] parse_digits_append)
  qed
qed

lemma parse_unsigned_show:
  assumes "n \<le> m"
  shows "parse_unsigned m (show_nat n) = Some n"
proof -
  have d: "is_ascii_digit c" if "c \<in> set (show_nat n)" for c
    using show_nat_digits that .
  have ne: "show_nat n \<noteq> []" by (simp add: show_nat_def)
  then have "hd (show_nat n) \<in> set (show_nat n)" by simp
  then have "is_ascii_digit (hd (show_nat n))" by (rule d)
  then have "hd (show_nat n) \<noteq> 43" "show_nat n \<noteq> [43]" "show_nat n \<noteq> [45]"
    by (auto simp: is_ascii_digit_def)
  then show ?thesis using ne parse_digits_show [OF assms] by (simp add: parse_unsigned_def)
qed

lemma parse_digits_bound: "parse_digits m acc s = Some n \<Longrightarrow> acc \<le> m \<Longrightarrow> n \<le> m"
  by (induction s arbitrary: acc) (auto split: option.splits if_splits)

lemma parse_unsigned_bound: "parse_unsigned m s = Some n \<Longrightarrow> n \<le> m"
  by (auto simp: parse_unsigned_def dest: parse_digits_bound split: if_splits)

section \<open>Properties of the parsers\<close>

lemma trim_brackets: "trim (91 # show_ip a @ [93]) = 91 # show_ip a @ [93]"
  by (simp add: trim_def trim_start_def trim_end_def is_whitespace_def)

lemma show_ip_ends: "hd (show_ip a) \<noteq> 91 \<and> last (show_ip a) \<noteq> 93"
proof -
  have "is_ipv6_char (hd (show_ip a))" "is_ipv6_char (last (show_ip a))"
    using show_ip_chars [of "hd (show_ip a)" a] show_ip_chars [of "last (show_ip a)" a] by simp_all
  moreover have "\<not> is_ipv6_char 91" "\<not> is_ipv6_char 93"
    by (simp_all add: is_ipv6_char_def is_ascii_hexdigit_def is_ascii_digit_def)
  ultimately show ?thesis by metis
qed

lemma unbracket_show: "trim_end_matches 93 (trim_start_matches 91 (show_ip a)) = show_ip a"
  "trim_end_matches 93 (trim_start_matches 91 (91 # show_ip a @ [93])) = show_ip a"
proof -
  have d: "dropWhile (\<lambda>x. x = 91) (show_ip a @ t) = show_ip a @ t" for t
    using show_ip_ends [of a] by (cases "show_ip a") auto
  have r: "dropWhile (\<lambda>x. x = 93) (rev (show_ip a)) = rev (show_ip a)"
    using show_ip_ends [of a] by (cases "show_ip a" rule: rev_cases) auto
  show "trim_end_matches 93 (trim_start_matches 91 (show_ip a)) = show_ip a"
    "trim_end_matches 93 (trim_start_matches 91 (91 # show_ip a @ [93])) = show_ip a"
    using d [of "[]"] d [of "[93]"] r by (simp_all add: trim_start_matches_def trim_end_matches_def)
qed

text \<open>
  C39. The listen address and port are read back as they are printed, the address also in
  brackets, and the health check then connects to that address and port, or to loopback of
  the same family when it is the wildcard.
\<close>

theorem listen_addr_roundtrip:
  assumes "n < 65536"
  shows "parse_bind (Some (show_ip a)) = Inr a \<and> parse_bind (Some (91 # show_ip a @ [93])) = Inr a \<and>
    parse_port (Some (show_nat n)) = of_nat n \<and>
    (\<exists>ip. probe_addr (Some (show_ip a)) (Some (show_nat n)) = Some (ip, of_nat n) \<and>
      (if a = V4 (Ipv4Addr 0 0 0 0) then ip = V4 (Ipv4Addr 127 0 0 1)
       else if a = V6 (Ipv6Addr 0 0 0 0 0 0 0 0) then ip = V6 (Ipv6Addr 0 0 0 0 0 0 0 1)
       else ip = a))"
proof -
  have b: "parse_bind (Some (show_ip a)) = Inr a"
    by (simp add: parse_bind_def unbracket_show parse_show_ip)
  have b2: "parse_bind (Some (91 # show_ip a @ [93])) = Inr a"
    by (simp add: parse_bind_def trim_brackets unbracket_show parse_show_ip)
  have p: "parse_port (Some (show_nat n)) = of_nat n"
    using parse_unsigned_show [of n 65535] assms by (simp add: parse_port_def)
  show ?thesis
  proof (cases a)
    case (V4 v)
    then show ?thesis using b b2 p by (cases v) (auto simp: probe_addr_def)
  next
    case (V6 v)
    then show ?thesis using b b2 p by (cases v) (auto simp: probe_addr_def v6_is_unspecified_def)
  qed
qed

theorem listen_addr_roundtrip_witness:
  "parse_bind (Some (lit ''[::]'')) = Inr (V6 (Ipv6Addr 0 0 0 0 0 0 0 0)) \<and>
   parse_port (Some (lit ''8080'')) = 8080 \<and>
   probe_addr (Some (lit ''::'')) (Some (lit ''8080'')) = Some (V6 (Ipv6Addr 0 0 0 0 0 0 0 1), 8080)"
proof -
  have s: "show_ip (V6 (Ipv6Addr 0 0 0 0 0 0 0 0)) = lit ''::''" "show_nat 8080 = lit ''8080''"
    by (simp_all add: addr_eval str_eval show_nat_def)
  have l: "lit ''[::]'' = 91 # lit ''::'' @ [93]" by (simp add: str_eval)
  show ?thesis
    using listen_addr_roundtrip [of 8080 "V6 (Ipv6Addr 0 0 0 0 0 0 0 0)"] unfolding s l by simp
qed

text \<open>
  The reverse DNS timeout is computed without a panic for every text of the variable,
  whatever number (negative, infinite, not a number) it denotes, and is at most 60 seconds.
\<close>

theorem rdns_timeout_total:
  "\<exists>d. parse_rdns_timeout parse raw = Some d \<and> d \<le> 60 * 10 ^ 9"
proof -
  have "\<exists>d. from_secs_f64 (Finite x) = Some d \<and> d \<le> 60 * 10 ^ 9" if "0 \<le> x" "x \<le> 60" for x
  proof -
    have "round_half_even (x * 10 ^ 9) \<le> round_half_even (of_int (60 * 10 ^ 9))"
      by (rule round_half_even_mono) (use that in simp)
    then have "nat (round_half_even (x * 10 ^ 9)) \<le> 60 * 10 ^ 9" by (simp only: round_half_even_int) simp
    then show ?thesis using that by (simp add: from_secs_f64_def)
  qed
  note ok = this
  show ?thesis
    using ok [of "3 / 2"] ok [of "min _ 60"]
    by (auto simp: parse_rdns_timeout_def split: option.split f64_value.split)
qed

definition edge_name_ok :: "(u8 list \<Rightarrow> bool) \<Rightarrow> ustr \<Rightarrow> bool" where
  "edge_name_ok ok n \<longleftrightarrow> to_ascii_lowercase n = n \<and> ok (as_bytes n) \<and> n \<noteq> lit ''x-forwarded-for''"

lemma edge_header_loop_ok:
  assumes "edge_header_loop ok out raws = Inr names" and "distinct out" and "list_all (edge_name_ok ok) out"
  shows "distinct names \<and> list_all (edge_name_ok ok) names"
  using assms
proof (induction raws arbitrary: out)
  case (Cons raw raws)
  let ?n = "to_ascii_lowercase (trim raw)"
  let ?out = "if ?n \<in> set out then out else out @ [?n]"
  show ?case
  proof (cases "trim raw = []")
    case True
    then show ?thesis using Cons.prems by (intro Cons.IH [of out]) simp_all
  next
    case False
    then have "edge_header_loop ok ?out raws = Inr names" and "edge_name_ok ok ?n"
      using Cons.prems(1) by (simp_all add: Let_def edge_name_ok_def split: if_splits)
    then show ?thesis using Cons.prems(2,3) by (intro Cons.IH [of ?out]) auto
  qed
qed simp

text \<open>The variables read in every start; \<open>TRUST_CF\<close> is read only behind a trusted proxy.\<close>

definition always_read :: "string list" where
  "always_read = [''TRUST_PROXY'', ''EDGE_HEADERS'', ''PORT'', ''BIND_ADDR'', ''GEO_DIR'', ''RDNS_TIMEOUT'',
     ''RATE_LIMIT_PER_MINUTE'', ''METRICS_TOKEN'', ''SIGNING_KEY'']"

lemma if_result_cases:
  "(if p then r else Inr False) = Inr b \<Longrightarrow> b \<longrightarrow> p \<and> r = Inr True"
  by (cases p; cases b) auto

lemma from_lookup_cases:
  assumes "from_lookup env = Inr cfg"
  obtains proxy cf raw edges hs port_var bind_ip dir timeout rate token s
  where "config_literal env proxy cf (if \<not> proxy \<and> hs \<noteq> [] then [] else hs)
      port_var bind_ip dir timeout rate token s = cfg"
    and "get_var env ''TRUST_PROXY'' = Inr raw" and "parse_flag (lit ''TRUST_PROXY'') raw = Inr proxy"
    and "cf \<longrightarrow> proxy \<and> result_bind (get_var env ''TRUST_CF'') (parse_flag (lit ''TRUST_CF'')) = Inr True"
    and "parse_edge_headers (header_name_ok env) edges = Inr hs"
    and "\<forall>v \<in> set always_read. \<exists>r. get_var env v = Inr r"
  using assms unfolding from_lookup_def Let_def
  apply (elim result_bindE)
  apply (rule that)
       apply (erule Inr_inject)
      apply assumption
     apply assumption
    apply (erule if_result_cases)
   apply assumption
  apply (simp add: always_read_def)
  done

lemma get_var_Inr: "get_var env v = Inr raw \<longleftrightarrow>
  lookup env (lit v) = (case raw of None \<Rightarrow> Not_Present | Some s \<Rightarrow> Var_Ok s)"
  by (auto simp: get_var_def parse_var_def split: var_result.splits option.splits)

lemma parse_flag_True:
  "parse_flag name raw = Inr True \<longleftrightarrow>
     (\<exists>v. raw = Some v \<and> to_ascii_lowercase (trim v) \<in> set (map lit [''1'', ''true'', ''yes'', ''on'']))"
  by (auto simp: parse_flag_def split: option.splits)

text \<open>
  C27. Client-supplied addresses are trusted only on an explicit request: when the program
  starts with \<open>trust_proxy\<close> (or \<open>trust_cf\<close>) on, the variable is set to one of \<open>1\<close>, \<open>true\<close>,
  \<open>yes\<close> and \<open>on\<close>, up to case and surrounding white space.
\<close>

theorem trust_is_explicit:
  assumes "from_lookup env = Inr cfg"
  shows "(trust_proxy cfg \<longrightarrow> (\<exists>v. lookup env (lit ''TRUST_PROXY'') = Var_Ok v \<and>
      to_ascii_lowercase (trim v) \<in> set (map lit [''1'', ''true'', ''yes'', ''on'']))) \<and>
    (trust_cf cfg \<longrightarrow> trust_proxy cfg \<and> (\<exists>v. lookup env (lit ''TRUST_CF'') = Var_Ok v \<and>
      to_ascii_lowercase (trim v) \<in> set (map lit [''1'', ''true'', ''yes'', ''on''])))"
  by (rule from_lookup_cases [OF assms])
    (auto simp: config_literal_def get_var_Inr result_bind_Inr_iff parse_flag_True simp del: set_map)

text \<open>
  A variable that is not valid Unicode stops the start, instead of counting as unset.
\<close>

theorem non_unicode_stops_start:
  assumes "v \<in> set always_read" and "lookup env (lit v) = Not_Unicode"
  shows "\<exists>e. from_lookup env = Inl e"
proof (cases "from_lookup env")
  case (Inr cfg)
  show ?thesis
    by (rule from_lookup_cases [OF Inr]) (use assms in \<open>auto simp: get_var_def parse_var_def\<close>)
qed simp

text \<open>
  C28. Every configuration the program starts with is consistent: Cloudflare headers are
  trusted only behind a trusted proxy, edge headers exist only there and are distinct,
  lower-case, legal header names other than \<open>x-forwarded-for\<close>, a metrics token is not
  blank, and the reverse DNS timeout is at most 60 seconds.
\<close>

theorem config_consistent:
  assumes "from_lookup env = Inr cfg"
  shows "(trust_cf cfg \<longrightarrow> trust_proxy cfg) \<and> (edge_headers cfg \<noteq> [] \<longrightarrow> trust_proxy cfg) \<and>
    distinct (edge_headers cfg) \<and>
    list_all (edge_name_ok (header_name_ok env)) (edge_headers cfg) \<and>
    (\<forall>t. metrics_token cfg = Some t \<longrightarrow> trim t \<noteq> []) \<and>
    rdns_timeout cfg \<le> 60 * 10 ^ 9"
proof (rule from_lookup_cases [OF assms])
  fix proxy cf raw edges hs port_var bind_ip dir timeout rate token s
  assume cfg: "config_literal env proxy cf (if \<not> proxy \<and> hs \<noteq> [] then [] else hs)
      port_var bind_ip dir timeout rate token s = cfg"
    and cf: "cf \<longrightarrow> proxy \<and> result_bind (get_var env ''TRUST_CF'') (parse_flag (lit ''TRUST_CF'')) = Inr True"
    and hs: "parse_edge_headers (header_name_ok env) edges = Inr hs"
  have h: "distinct hs \<and> list_all (edge_name_ok (header_name_ok env)) hs"
    using hs edge_header_loop_ok [of "header_name_ok env" "[]" _ hs] by (simp add: parse_edge_headers_def)
  have "the (parse_rdns_timeout (parse_f64 env) timeout) \<le> 60 * 10 ^ 9"
    using rdns_timeout_total [of "parse_f64 env" timeout] by auto
  with h cf show ?thesis
    unfolding cfg [symmetric] by (simp add: config_literal_def split: option.split)
qed

section \<open>A start\<close>

text \<open>Stand-ins for the libraries and an environment, to run the definitions on.\<close>

definition demo_crypto :: "u8 list crypto" where
  "demo_crypto = \<lparr>key_from_bytes = id, verifying_bytes = id, key_sign = (\<lambda>k m. k @ m),
     sha256 = (\<lambda>_. replicate 32 7), b64_encode = map unat, b64_decode = (\<lambda>s. Some (map of_nat s))\<rparr>"

definition demo_lookup :: "(string \<times> string) list \<Rightarrow> ustr \<Rightarrow> var_result" where
  "demo_lookup vars n =
     (case find (\<lambda>p. lit (fst p) = n) vars of None \<Rightarrow> Not_Present | Some p \<Rightarrow> Var_Ok (lit (snd p)))"

definition demo_env :: "(string \<times> string) list \<Rightarrow> u8 list config_env" where
  "demo_env vars = \<lparr>lookup = demo_lookup vars, header_name_ok = (\<lambda>_. True), parse_f64 = (\<lambda>_. None),
     crypto_lib = demo_crypto, os_random = Inr (replicate 32 1)\<rparr>"

definition demo_vars :: "(string \<times> string) list" where
  "demo_vars = [(''TRUST_PROXY'', '' Yes ''), (''EDGE_HEADERS'', ''X-Real-IP, ,x-real-ip'')]"

lemma demo_start:
  "from_lookup (demo_env demo_vars) =
     Inr (config_literal (demo_env demo_vars) True False [lit ''x-real-ip''] None (V4 (Ipv4Addr 0 0 0 0))
       None None None None (from_seed demo_crypto (replicate 32 1) True))"
proof -
  have flag: "parse_flag n (Some (lit '' Yes '')) = Inr True" for n
    by (simp add: parse_flag_def str_eval)
  have edges: "parse_edge_headers (\<lambda>_. True) (Some (lit ''X-Real-IP, ,x-real-ip'')) = Inr [lit ''x-real-ip'']"
    by (simp add: parse_edge_headers_def str_eval)
  have vars: "get_var (demo_env demo_vars) ''TRUST_PROXY'' = Inr (Some (lit '' Yes ''))"
    "get_var (demo_env demo_vars) ''EDGE_HEADERS'' = Inr (Some (lit ''X-Real-IP, ,x-real-ip''))"
    "\<And>v. v \<notin> {''TRUST_PROXY'', ''EDGE_HEADERS''} \<Longrightarrow> get_var (demo_env demo_vars) v = Inr None"
    by (auto simp: get_var_def demo_env_def demo_vars_def demo_lookup_def parse_var_def)
  have unset: "parse_flag n None = Inr False" "parse_bind None = Inr (V4 (Ipv4Addr 0 0 0 0))"
    "parse_signer lib random None = map_sum Signer_Failed id (generate lib random)" for n lib random
    by (simp_all add: parse_flag_def parse_bind_def parse_signer_def)
  have env: "header_name_ok (demo_env demo_vars) = (\<lambda>_. True)" "os_random (demo_env demo_vars) = Inr (replicate 32 1)"
    "crypto_lib (demo_env demo_vars) = demo_crypto"
    by (simp_all add: demo_env_def)
  show ?thesis
    by (simp add: from_lookup_def vars flag edges unset env generate_def)
qed

theorem config_consistent_witness:
  "\<exists>cfg. from_lookup (demo_env demo_vars) = Inr cfg \<and> edge_headers cfg = [lit ''x-real-ip''] \<and>
     list_all (edge_name_ok (\<lambda>_. True)) (edge_headers cfg) \<and> rdns_timeout cfg \<le> 60 * 10 ^ 9"
  using config_consistent [OF demo_start] demo_start
  by (auto simp: config_literal_def demo_env_def)

theorem trust_is_explicit_witness:
  "\<exists>cfg v. from_lookup (demo_env demo_vars) = Inr cfg \<and> trust_proxy cfg \<and>
     lookup (demo_env demo_vars) (lit ''TRUST_PROXY'') = Var_Ok v \<and>
     to_ascii_lowercase (trim v) \<in> set (map lit [''1'', ''true'', ''yes'', ''on''])"
  using trust_is_explicit [OF demo_start] demo_start
  by (auto simp: config_literal_def simp del: set_map)

theorem non_unicode_stops_start_witness:
  "\<exists>e. from_lookup ((demo_env demo_vars)\<lparr>lookup := (\<lambda>n. if n = lit ''METRICS_TOKEN'' then Not_Unicode
     else demo_lookup demo_vars n)\<rparr>) = Inl e"
  by (rule non_unicode_stops_start [of "''METRICS_TOKEN''"]) (simp_all add: always_read_def)

section \<open>The signer of a configuration\<close>

text \<open>
  A signer made at startup has a key id of eight lower-case hexadecimal digits, and it is
  marked as ephemeral exactly when \<open>SIGNING_KEY\<close> is unset or blank; a configured key decides
  the whole signer, whatever the random generator returns.
\<close>

theorem signer_identity:
  assumes "parse_signer lib random raw = Inr s" and "\<And>x. length (sha256 lib x) = 32"
  shows "length (key_id s) = 8 \<and> list_all (\<lambda>c. is_ascii_digit c \<or> (97 \<le> c \<and> c \<le> 102)) (key_id s) \<and>
    (ephemeral s \<longleftrightarrow> trim (text_of raw) = []) \<and>
    (\<not> ephemeral s \<longrightarrow> parse_signer lib random' raw = Inr s)"
proof -
  have from_seed: "length (key_id (from_seed lib seed e)) = 8 \<and>
      list_all (\<lambda>c. is_ascii_digit c \<or> (97 \<le> c \<and> c \<le> 102)) (key_id (from_seed lib seed e)) \<and>
      ephemeral (from_seed lib seed e) = e" for seed e
    using length_hex_lower [of "take 4 (sha256 lib (verifying_bytes lib (key_from_bytes lib seed)))"]
      hex_lower_chars assms(2)
    by (auto simp: from_seed_def Let_def hex_lower_def list_all_iff)
  show ?thesis
  proof (cases "trim (text_of raw) = []")
    case True
    then have "parse_signer lib random raw = map_sum Signer_Failed id (generate lib random)"
      by (auto simp: parse_signer_def text_of_def split: option.splits)
    with assms(1) True from_seed show ?thesis by (auto simp: generate_def split: sum.splits)
  next
    case False
    then obtain seed where "raw = Some seed" "trim seed \<noteq> []" by (cases raw) (auto simp: text_of_def)
    with assms(1) False from_seed show ?thesis
      by (auto simp: parse_signer_def from_seed_b64_def text_of_def split: option.splits if_splits)
  qed
qed

theorem signer_identity_witness:
  "\<exists>s. parse_signer demo_crypto (Inr (replicate 32 1)) None = Inr s \<and> length (key_id s) = 8 \<and> ephemeral s"
proof -
  have s: "parse_signer demo_crypto (Inr (replicate 32 1)) None = Inr (from_seed demo_crypto (replicate 32 1) True)"
    by (simp add: parse_signer_def generate_def)
  have h: "length (sha256 demo_crypto x) = 32" for x by (simp add: demo_crypto_def)
  show ?thesis using signer_identity [OF s h] s by (auto simp: text_of_def)
qed

end
