(* ===== verification/Step_Machine.thy ===== *)
theory Step_Machine
  imports Main
begin

text \<open>
  Concurrent parts of the service are step relations on a state that all tasks share. This
  theory holds the reachable states of such a machine, the rule for invariants, and the
  contract of a pool of permits (a semaphore whose permits are held by tasks).
\<close>

inductive reachable :: "('s \<Rightarrow> bool) \<Rightarrow> ('s \<Rightarrow> 's \<Rightarrow> bool) \<Rightarrow> 's \<Rightarrow> bool"
  for init :: "'s \<Rightarrow> bool" and step :: "'s \<Rightarrow> 's \<Rightarrow> bool" where
  reachable_init: "init s \<Longrightarrow> reachable init step s"
| reachable_step: "reachable init step s \<Longrightarrow> step s s' \<Longrightarrow> reachable init step s'"

lemma reachable_run: "step\<^sup>*\<^sup>* s s' \<Longrightarrow> reachable init step s \<Longrightarrow> reachable init step s'"
  by (induction rule: rtranclp_induct) (auto intro: reachable_step)

locale machine_invariant =
  fixes init :: "'s \<Rightarrow> bool" and step :: "'s \<Rightarrow> 's \<Rightarrow> bool" and inv :: "'s \<Rightarrow> bool"
  assumes inv_init: "init s \<Longrightarrow> inv s"
    and inv_step: "inv s \<Longrightarrow> step s s' \<Longrightarrow> inv s'"
begin

lemma reachable_inv: "reachable init step s \<Longrightarrow> inv s"
  by (induction rule: reachable.induct) (auto intro: inv_init inv_step)

lemma run_inv: "step\<^sup>*\<^sup>* s s' \<Longrightarrow> inv s \<Longrightarrow> inv s'"
  by (induction rule: rtranclp_induct) (auto intro: inv_step)

end

text \<open>
  A permit pool: the free permits and the tasks that hold one make up the capacity in every
  state, so never more than the capacity is held, and no permit is lost.
\<close>

locale permit_pool = machine_invariant init step inv
  for init :: "'s \<Rightarrow> bool" and step :: "'s \<Rightarrow> 's \<Rightarrow> bool" and inv :: "'s \<Rightarrow> bool" +
  fixes free :: "'s \<Rightarrow> nat" and holders :: "'s \<Rightarrow> 't set" and capacity :: nat
  assumes finite_holders: "inv s \<Longrightarrow> finite (holders s)"
    and conserved: "inv s \<Longrightarrow> free s + card (holders s) = capacity"
begin

lemma holders_bounded:
  assumes "reachable init step s" and "T \<subseteq> holders s"
  shows "finite T \<and> card T \<le> capacity"
proof -
  have inv: "inv s" using assms(1) by (rule reachable_inv)
  then have "card T \<le> card (holders s)" using finite_holders assms(2) by (simp add: card_mono)
  then show ?thesis
    using conserved [OF inv] finite_subset [OF assms(2) finite_holders [OF inv]] by linarith
qed

lemma all_free_iff:
  assumes "reachable init step s"
  shows "free s = capacity \<longleftrightarrow> holders s = {}"
  using reachable_inv [OF assms] conserved [of s] finite_holders [of s] by (auto simp: card_gt_0_iff)

lemma exhausted_iff:
  assumes "reachable init step s"
  shows "free s = 0 \<longleftrightarrow> card (holders s) = capacity"
  using reachable_inv [OF assms] conserved [of s] by auto

end

end
