(* ===== verification/Rate_Limit.thy ===== *)
theory Rate_Limit
  imports Host_Chain Float64 Step_Machine
begin

text \<open>
  Per-client token buckets (\<open>src/ratelimit.rs\<close>). Instants are nanoseconds of the monotonic
  clock; \<open>duration_since\<close> saturates at zero, which is subtraction on \<open>nat\<close>. Token counts are
  \<open>f64\<close> values, all arithmetic on them goes through \<open>fl\<close>. The cache of buckets is a map; what
  the cache library may do to it on an access is a parameter.
\<close>

section \<open>One bucket\<close>

record token_bucket =
  tokens :: rat
  updated :: nat

definition f64_from_u32 :: "u32 \<Rightarrow> rat" where
  "f64_from_u32 n = of_nat (unat n)"

definition as_secs_f64 :: "nat \<Rightarrow> rat" where
  "as_secs_f64 ns = fl (fl (of_nat (ns div 10 ^ 9)) + fl (of_nat (ns mod 10 ^ 9) / 10 ^ 9))"

definition f64_as_u64 :: "int \<Rightarrow> u64" where
  "f64_as_u64 c = of_nat (min (nat c) (2 ^ 64 - 1))"

definition token_bucket_new :: "u32 \<Rightarrow> nat \<Rightarrow> token_bucket" where
  "token_bucket_new limit now = \<lparr>tokens = f64_from_u32 limit, updated = now\<rparr>"

definition check_limit :: "token_bucket \<Rightarrow> nat \<Rightarrow> u32 \<Rightarrow> token_bucket \<times> u64 option" where
  "check_limit bucket now limit =
     (if limit = 0 then (bucket, None)
      else
        (let refill_rate = fl (f64_from_u32 limit / 60);
             elapsed = as_secs_f64 (now - updated bucket);
             refilled = min (fl (tokens bucket + fl (elapsed * refill_rate))) (f64_from_u32 limit)
         in if 1 \<le> refilled
            then (bucket\<lparr>tokens := fl (refilled - 1), updated := now\<rparr>, None)
            else (bucket\<lparr>tokens := refilled, updated := now\<rparr>,
                  Some (f64_as_u64 (max \<lceil>fl (fl (1 - refilled) / refill_rate)\<rceil> 1)))))"

section \<open>Bucket keys\<close>

definition ipv6_network :: "ipv6_addr \<Rightarrow> ipv6_addr" where
  "ipv6_network v6 = v6_of_u128 (u128_of_v6 v6 AND upper_64_bits)"

definition bucket_key :: "ustr \<Rightarrow> ustr" where
  "bucket_key ip =
     (case map_option to_canonical (parse_ip ip) of
        Some (V6 v6) \<Rightarrow> show_ipv6 (ipv6_network v6) @ lit ''/64''
      | Some (V4 v4) \<Rightarrow> show_ipv4 v4
      | None \<Rightarrow> ip)"

section \<open>The limiter\<close>

record rate_limit =
  per_minute :: u32
  hits :: "ustr \<rightharpoonup> token_bucket"

definition rate_limit_new :: "u32 \<Rightarrow> rate_limit" where
  "rate_limit_new per_min = \<lparr>per_minute = per_min, hits = Map.empty\<rparr>"

text \<open>
  \<open>RateLimit::check\<close>. \<open>evict\<close> is the housekeeping of the cache library on an access (capacity
  and idle time): it may drop entries. \<open>now0\<close> and \<open>now1\<close> are the two readings of the clock,
  when a bucket is created and when it is checked.
\<close>

definition rate_check ::
  "((ustr \<rightharpoonup> token_bucket) \<Rightarrow> (ustr \<rightharpoonup> token_bucket)) \<Rightarrow> rate_limit \<Rightarrow> ustr \<Rightarrow> nat \<Rightarrow> nat \<Rightarrow>
     rate_limit \<times> u64 option" where
  "rate_check evict rl client now0 now1 =
     (if per_minute rl = 0 then (rl, None)
      else
        (let m = evict (hits rl);
             key = bucket_key client;
             entry = (case m key of Some b \<Rightarrow> b | None \<Rightarrow> token_bucket_new (per_minute rl) now0);
             (entry', verdict) = check_limit entry now1 (per_minute rl)
         in (rl\<lparr>hits := m(key \<mapsto> entry')\<rparr>, verdict)))"

section \<open>Arithmetic of a bucket, for any rounding\<close>

context rounding
begin

lemma refill_bounds:
  assumes "0 \<le> t" and "0 \<le> e" and "0 \<le> r" and "0 \<le> l"
  shows "0 \<le> min (rnd (t + rnd (e * r))) l \<and> min (rnd (t + rnd (e * r))) l \<le> l"
  using assms by (simp add: rnd_nonneg)

lemma take_token_bounds:
  assumes "1 \<le> t" and "t \<le> of_nat n" and "n \<le> 2 ^ 53"
  shows "0 \<le> rnd (t - 1) \<and> rnd (t - 1) \<le> of_nat n"
  using assms by (intro conjI rnd_nonneg rnd_le_nat) auto

text \<open>
  The potential argument behind the long-run rate: a refill adds at most the exact refill plus
  rounding, and taking a token removes at least one minus rounding.
\<close>

lemma refill_upper:
  assumes "0 \<le> t" and "0 \<le> e" and "0 \<le> r" and "0 \<le> l"
  shows "min (rnd (t + rnd (e * r))) l \<le> t + e * r * (1 + 1 / 2 ^ 53) + 2 * l / 2 ^ 53"
proof -
  let ?x = "t + rnd (e * r)"
  have er: "0 \<le> e * r" using assms by simp
  have x: "0 \<le> ?x" "?x \<le> t + e * r * (1 + 1 / 2 ^ 53)"
    using assms rnd_nonneg [OF er] rnd_upper [OF er] by linarith+
  show ?thesis
  proof (cases "?x \<le> l")
    case True
    have "rnd ?x \<le> ?x + ?x / 2 ^ 53" using rnd_upper_add [OF x(1)] .
    also have "\<dots> \<le> ?x + l / 2 ^ 53" using True by (simp add: divide_right_mono)
    also have "l / 2 ^ 53 \<le> 2 * l / 2 ^ 53" using assms(4) by (simp add: divide_right_mono)
    finally show ?thesis using x(2) by linarith
  next
    case False
    then show ?thesis using x assms(4) by (simp add: min_le_iff_disj)
  qed
qed

lemma take_token_upper:
  assumes "1 \<le> t" and "t \<le> l"
  shows "rnd (t - 1) + 1 \<le> t + l / 2 ^ 53"
proof -
  have "rnd (t - 1) \<le> (t - 1) + (t - 1) / 2 ^ 53"
    using rnd_upper_add [of "t - 1"] assms by simp
  also have "(t - 1) / 2 ^ 53 \<le> l / 2 ^ 53"
    using assms by (intro divide_right_mono) auto
  finally show ?thesis by simp
qed

text \<open>
  Waiting one second longer than announced refills a whole token, whatever was lost in the
  two divisions and the multiplication.
\<close>

lemma refill_after_wait:
  assumes t: "0 \<le> t" "t < 1" and r: "1 / 61 \<le> r"
    and w: "rnd (rnd (1 - t) / r) \<le> w" and e: "w + 1 \<le> e" and w0: "0 \<le> w"
  shows "1 \<le> rnd (t + rnd (e * r))"
proof -
  define u :: rat where "u = 1 / 2 ^ 53"
  have rpos: "0 < r" using r by linarith
  have s: "(1 - t) * (1 - u) \<le> rnd (1 - t)" using rnd_lower [of "1 - t"] t by (simp add: u_def)
  have s0: "0 \<le> rnd (1 - t)" using t by (intro rnd_nonneg) simp
  have "rnd (1 - t) / r * (1 - u) \<le> w"
    using rnd_lower [of "rnd (1 - t) / r"] s0 rpos w by (simp add: u_def)
  then have "rnd (1 - t) * (1 - u) \<le> w * r"
    using rpos by (simp add: field_simps)
  moreover have "(1 - t) * (1 - u) * (1 - u) \<le> rnd (1 - t) * (1 - u)"
    using s by (intro mult_right_mono) (simp_all add: u_def)
  ultimately have wr: "(1 - t) * (1 - u) * (1 - u) \<le> w * r" by linarith
  have "(w + 1) * r \<le> e * r" using e rpos by (intro mult_right_mono) auto
  then have er: "(1 - t) * (1 - u) * (1 - u) + 1 / 61 \<le> e * r"
    using wr r by (simp add: algebra_simps)
  have "0 \<le> e * r" using e w0 rpos by simp
  then have "e * r * (1 - u) \<le> rnd (e * r)" using rnd_lower by (simp add: u_def)
  moreover have "((1 - t) * (1 - u) * (1 - u) + 1 / 61) * (1 - u) \<le> e * r * (1 - u)"
    using er by (intro mult_right_mono) (simp_all add: u_def)
  moreover have "1 - t \<le> ((1 - t) * (1 - u) * (1 - u) + 1 / 61) * (1 - u)"
  proof -
    define k where "k = (1 - u) * (1 - u) * (1 - u)"
    have "(1 - t) * (1 - k) \<le> 1 * (1 - k)"
      using t by (intro mult_right_mono) (simp_all add: u_def k_def)
    also have "\<dots> \<le> 1 / 61 * (1 - u)" by (simp add: u_def k_def)
    finally have "(1 - t) - (1 - t) * k \<le> 1 / 61 * (1 - u)" by (simp add: right_diff_distrib)
    moreover have "((1 - t) * (1 - u) * (1 - u) + 1 / 61) * (1 - u) = (1 - t) * k + 1 / 61 * (1 - u)"
      by (simp only: k_def distrib_right mult.assoc)
    ultimately show ?thesis by linarith
  qed
  ultimately have "1 \<le> t + rnd (e * r)" by linarith
  then show ?thesis using rnd_ge_nat [of 1] by simp
qed

end

section \<open>One check of a bucket\<close>

definition bucket_ok :: "u32 \<Rightarrow> token_bucket \<Rightarrow> bool" where
  "bucket_ok limit b \<longleftrightarrow> 0 \<le> tokens b \<and> tokens b \<le> f64_from_u32 limit"

definition rate_ok :: "rate_limit \<Rightarrow> bool" where
  "rate_ok rl \<longleftrightarrow> (\<forall>b \<in> ran (hits rl). bucket_ok (per_minute rl) b)"

definition refill_rate :: "u32 \<Rightarrow> rat" where
  "refill_rate limit = fl (f64_from_u32 limit / 60)"

definition refill :: "token_bucket \<Rightarrow> nat \<Rightarrow> u32 \<Rightarrow> rat" where
  "refill b now limit =
     min (fl (tokens b + fl (as_secs_f64 (now - updated b) * refill_rate limit))) (f64_from_u32 limit)"

lemma token_bucket_update [simp]: "(b :: token_bucket)\<lparr>tokens := t, updated := n\<rparr> = \<lparr>tokens = t, updated = n\<rparr>"
  by (cases b) simp

lemma check_limit_eq:
  assumes "limit \<noteq> 0"
  shows "check_limit b now limit =
    (if 1 \<le> refill b now limit
     then (\<lparr>tokens = fl (refill b now limit - 1), updated = now\<rparr>, None)
     else (\<lparr>tokens = refill b now limit, updated = now\<rparr>,
           Some (f64_as_u64 (max \<lceil>fl (fl (1 - refill b now limit) / refill_rate limit)\<rceil> 1))))"
  using assms by (simp add: check_limit_def Let_def refill_def refill_rate_def)

lemma check_limit_cases:
  assumes "limit \<noteq> 0"
  obtains (admit) "1 \<le> refill b now limit"
      "check_limit b now limit = (\<lparr>tokens = fl (refill b now limit - 1), updated = now\<rparr>, None)"
  | (reject) "refill b now limit < 1"
      "check_limit b now limit =
         (\<lparr>tokens = refill b now limit, updated = now\<rparr>,
          Some (f64_as_u64 (max \<lceil>fl (fl (1 - refill b now limit) / refill_rate limit)\<rceil> 1)))"
  by (metis check_limit_eq [OF assms] not_le)

lemma u32_exact: "unat (n :: u32) \<le> 2 ^ 53"
  using unat_u32_less [of n] by simp

lemma f64_from_u32_nonneg [simp]: "0 \<le> f64_from_u32 n"
  unfolding f64_from_u32_def by (rule of_nat_0_le_iff)

lemma f64_from_u32_ge_1: "n \<noteq> 0 \<Longrightarrow> 1 \<le> f64_from_u32 n"
  using of_nat_mono [of 1 "unat n", where 'a = rat] unat_gt_0 [of n] by (simp add: f64_from_u32_def Suc_le_eq)

lemma as_secs_nonneg [simp]: "0 \<le> as_secs_f64 d"
  by (simp add: as_secs_f64_def f64.rnd_nonneg)

lemma as_secs_0 [simp]: "as_secs_f64 0 = 0"
  by (simp add: as_secs_f64_def)

lemma refill_rate_nonneg [simp]: "0 \<le> refill_rate n"
  by (simp add: refill_rate_def f64.rnd_nonneg)

lemma refill_ok:
  assumes "bucket_ok limit b"
  shows "0 \<le> refill b now limit \<and> refill b now limit \<le> f64_from_u32 limit"
  using assms unfolding refill_def bucket_ok_def by (intro f64.refill_bounds) auto

lemma bucket_ok_new: "bucket_ok limit (token_bucket_new limit now)"
  by (simp add: bucket_ok_def token_bucket_new_def)

lemma check_limit_ok:
  assumes "bucket_ok limit b"
  shows "bucket_ok limit (fst (check_limit b now limit))"
proof (cases "limit = 0")
  case True
  with assms show ?thesis by (simp add: check_limit_def)
next
  case False
  then show ?thesis
  proof (cases rule: check_limit_cases [of limit b now])
    case admit
    then show ?thesis
      using f64.take_token_bounds [of "refill b now limit" "unat limit"] refill_ok [OF assms, of now] u32_exact
      by (simp add: bucket_ok_def f64_from_u32_def)
  next
    case reject
    with refill_ok [OF assms, of now] show ?thesis by (simp add: bucket_ok_def)
  qed
qed

subsection \<open>The announced delay\<close>

lemma fl_sixtieth: "fl (1 / 60) = 4803839602528529 / 2 ^ 58"
  using fl_eqI [of "- 6" "1 / 60" 4803839602528529] by (simp add: powi2_minus)

lemma fl_sixty_again: "fl (1 / fl (1 / 60)) = 60"
  using fl_eqI [of 5 "1 / fl (1 / 60)" 8444249301319680] by (simp add: fl_sixtieth powi2_minus)

lemma refill_rate_lower:
  assumes "limit \<noteq> 0"
  shows "fl (1 / 60) \<le> refill_rate limit"
  unfolding refill_rate_def using f64_from_u32_ge_1 [OF assms] by (intro fl_mono divide_right_mono) auto

lemma wait_bounds:
  assumes "limit \<noteq> 0" and "0 \<le> t" and "t < 1"
  shows "0 \<le> fl (fl (1 - t) / refill_rate limit) \<and> fl (fl (1 - t) / refill_rate limit) \<le> 60"
proof
  have r: "0 < fl (1 / 60)" by (simp add: fl_sixtieth)
  have s: "0 \<le> fl (1 - t)" "fl (1 - t) \<le> 1"
    using assms f64.rnd_nonneg [of "1 - t"] fl_mono [of "1 - t" 1] by simp_all
  then show "0 \<le> fl (fl (1 - t) / refill_rate limit)" by (intro f64.rnd_nonneg) simp
  have "fl (1 - t) / refill_rate limit \<le> 1 / fl (1 / 60)"
    using s r refill_rate_lower [OF assms(1)] by (intro frac_le) auto
  then show "fl (fl (1 - t) / refill_rate limit) \<le> 60"
    using fl_mono fl_sixty_again by metis
qed

lemma unat_f64_as_u64: "0 \<le> c \<Longrightarrow> c < 2 ^ 64 \<Longrightarrow> unat (f64_as_u64 c) = nat c"
  by (simp add: f64_as_u64_def unat_of_nat min_def nat_less_iff)

lemma retry_value:
  assumes "bucket_ok limit b" and "limit \<noteq> 0" and "refill b now limit < 1"
    and "c = max \<lceil>fl (fl (1 - refill b now limit) / refill_rate limit)\<rceil> 1"
  shows "1 \<le> c \<and> c \<le> 60 \<and> unat (f64_as_u64 c) = nat c"
proof -
  have "\<lceil>fl (fl (1 - refill b now limit) / refill_rate limit)\<rceil> \<le> 60"
    using wait_bounds [OF assms(2) _ assms(3)] refill_ok [OF assms(1)] by (simp add: ceiling_le_iff)
  then have "1 \<le> c \<and> c \<le> 60" using assms(4) by simp
  then show ?thesis by (simp add: unat_f64_as_u64)
qed

lemma as_secs_lower:
  assumes "n * 10 ^ 9 \<le> d" and "n \<le> 2 ^ 53"
  shows "of_nat n \<le> as_secs_f64 d"
proof -
  have "n \<le> d div 10 ^ 9" using assms(1) by (simp add: less_eq_div_iff_mult_less_eq)
  then have "of_nat n \<le> fl (of_nat (d div 10 ^ 9))" using assms(2) by (intro f64.rnd_ge_nat) simp_all
  moreover have "0 \<le> fl (of_nat (d mod 10 ^ 9) / 10 ^ 9)" by (intro f64.rnd_nonneg) simp
  ultimately show ?thesis
    unfolding as_secs_f64_def using assms(2) by (intro f64.rnd_ge_nat) linarith+
qed

lemma check_after_wait:
  assumes b: "bucket_ok limit b" and r: "check_limit b now limit = (b', Some w)"
    and later: "now + (unat w + 1) * 10 ^ 9 \<le> now'"
  shows "snd (check_limit b' now' limit) = None"
proof -
  have limit: "limit \<noteq> 0" using r by (auto simp: check_limit_def)
  define t where "t = refill b now limit"
  define c where "c = max \<lceil>fl (fl (1 - t) / refill_rate limit)\<rceil> 1"
  have t: "0 \<le> t" "t < 1" and b': "b' = \<lparr>tokens = t, updated = now\<rparr>" and w: "w = f64_as_u64 c"
    using check_limit_cases [OF limit, of b now] r refill_ok [OF b, of now]
    by (auto simp: t_def c_def)
  have c: "1 \<le> c" "unat w = nat c" "c \<le> 60"
    using retry_value [OF b limit, of now c] t w by (auto simp: t_def c_def)
  have "fl (fl (1 - t) / refill_rate limit) \<le> of_int c" unfolding c_def by linarith
  moreover have "of_int c + 1 \<le> as_secs_f64 (now' - now)"
    using as_secs_lower [of "nat c + 1" "now' - now"] later c by (simp add: add.commute)
  moreover have "1 / 61 \<le> refill_rate limit"
    using refill_rate_lower [OF limit] by (simp add: fl_sixtieth)
  ultimately have "1 \<le> fl (t + fl (as_secs_f64 (now' - now) * refill_rate limit))"
    using t c(1) by (intro f64.refill_after_wait [of t _ "of_int c"]) auto
  then have "1 \<le> refill b' now' limit"
    using f64_from_u32_ge_1 [OF limit] by (simp add: refill_def b')
  then show ?thesis
    using check_limit_cases [OF limit, of b' now'] by (metis not_less snd_conv)
qed

lemma check_new_bucket:
  assumes "limit \<noteq> 0"
  shows "snd (check_limit (token_bucket_new limit now0) now limit) = None"
proof -
  have "f64_from_u32 limit \<le> fl (f64_from_u32 limit + fl (as_secs_f64 (now - now0) * refill_rate limit))"
    using u32_exact unfolding f64_from_u32_def
    by (intro f64.rnd_ge_nat) (auto intro!: f64.rnd_nonneg)
  then have "1 \<le> refill (token_bucket_new limit now0) now limit"
    using f64_from_u32_ge_1 [OF assms] by (simp add: refill_def token_bucket_new_def)
  then show ?thesis
    using check_limit_cases [OF assms, of "token_bucket_new limit now0" now] by (metis not_less snd_conv)
qed

lemma refused_check:
  assumes "snd (rate_check evict rl client now0 now1) = Some secs"
  shows "\<exists>b. evict (hits rl) (bucket_key client) = Some b \<and>
    rate_check evict rl client now0 now1 =
      (rl\<lparr>hits := (evict (hits rl))(bucket_key client \<mapsto> b\<lparr>tokens := refill b now1 (per_minute rl), updated := now1\<rparr>)\<rparr>, Some secs)"
proof -
  have n: "per_minute rl \<noteq> 0" using assms by (auto simp: rate_check_def)
  show ?thesis
  proof (cases "evict (hits rl) (bucket_key client)")
    case None
    then show ?thesis using assms n by (simp add: rate_check_def check_new_bucket split_def Let_def)
  next
    case (Some b)
    then show ?thesis
      using assms n by (cases rule: check_limit_cases [OF n, of b now1]) (simp_all add: rate_check_def split_def Let_def)
  qed
qed

section \<open>The limiter over time\<close>

text \<open>
  An access is what the cache does at that moment, the client text and the two clock readings.
\<close>

type_synonym access = "((ustr \<rightharpoonup> token_bucket) \<Rightarrow> (ustr \<rightharpoonup> token_bucket)) \<times> ustr \<times> nat \<times> nat"

definition only_evicts :: "access \<Rightarrow> bool" where
  "only_evicts a \<longleftrightarrow> (\<forall>m. fst a m \<subseteq>\<^sub>m m)"

definition keeps_key :: "ustr \<Rightarrow> access \<Rightarrow> bool" where
  "keeps_key k a \<longleftrightarrow> (\<forall>m. fst a m k = m k)"

definition access_key :: "access \<Rightarrow> ustr" where
  "access_key a = bucket_key (fst (snd a))"

definition rate_access :: "rate_limit \<Rightarrow> access \<Rightarrow> rate_limit \<times> u64 option" where
  "rate_access rl a = (case a of (evict, client, now0, now1) \<Rightarrow> rate_check evict rl client now0 now1)"

fun rate_run :: "rate_limit \<Rightarrow> access list \<Rightarrow> rate_limit \<times> u64 option list" where
  "rate_run rl [] = (rl, [])"
| "rate_run rl (a # as) =
     (let (rl', v) = rate_access rl a; (rl'', vs) = rate_run rl' as in (rl'', v # vs))"

definition entry_of :: "rate_limit \<Rightarrow> access \<Rightarrow> token_bucket" where
  "entry_of rl a = (case a of (evict, client, now0, now1) \<Rightarrow>
     (case evict (hits rl) (bucket_key client) of Some b \<Rightarrow> b | None \<Rightarrow> token_bucket_new (per_minute rl) now0))"

lemma rate_access_eq:
  assumes "per_minute rl \<noteq> 0"
  shows "rate_access rl a =
    (let (b, v) = check_limit (entry_of rl a) (snd (snd (snd a))) (per_minute rl)
     in (rl\<lparr>hits := (fst a (hits rl))(access_key a \<mapsto> b)\<rparr>, v))"
  using assms by (cases a) (simp add: rate_access_def rate_check_def entry_of_def access_key_def Let_def split_def)

lemma rate_access_disabled: "per_minute rl = 0 \<Longrightarrow> rate_access rl a = (rl, None)"
  by (cases a) (simp add: rate_access_def rate_check_def)

lemma per_minute_access [simp]: "per_minute (fst (rate_access rl a)) = per_minute rl"
  by (cases "per_minute rl = 0") (simp_all add: rate_access_disabled rate_access_eq Let_def split_def)

lemma entry_ok:
  assumes "rate_ok rl" and "only_evicts a"
  shows "bucket_ok (per_minute rl) (entry_of rl a)"
proof -
  obtain evict client now0 now1 where a: "a = (evict, client, now0, now1)" by (cases a)
  have "evict (hits rl) \<subseteq>\<^sub>m hits rl" using assms(2) by (simp add: only_evicts_def a)
  then have "bucket_ok (per_minute rl) b" if "evict (hits rl) (bucket_key client) = Some b" for b
    using assms(1) map_le_SomeD that by (fastforce simp: rate_ok_def ran_def)
  then show ?thesis by (simp add: entry_of_def a bucket_ok_new split: option.split)
qed

lemma rate_access_ok:
  assumes "rate_ok rl" and "only_evicts a"
  shows "rate_ok (fst (rate_access rl a))"
proof (cases "per_minute rl = 0")
  case True
  with assms show ?thesis by (simp add: rate_access_disabled)
next
  case False
  have "fst a (hits rl) \<subseteq>\<^sub>m hits rl" using assms(2) by (simp add: only_evicts_def)
  then have "ran (fst a (hits rl)) \<subseteq> ran (hits rl)"
    by (auto simp: ran_def dest: map_le_SomeD)
  moreover have "bucket_ok (per_minute rl) (fst (check_limit (entry_of rl a) n (per_minute rl)))" for n
    by (rule check_limit_ok [OF entry_ok [OF assms]])
  ultimately show ?thesis
    using assms(1) False by (auto simp: rate_access_eq rate_ok_def Let_def split_def ran_def)
qed

lemma rate_access_delay:
  assumes "rate_ok rl" and "only_evicts a" and "snd (rate_access rl a) = Some w"
  shows "1 \<le> unat w \<and> unat w \<le> 60"
proof -
  have n0: "per_minute rl \<noteq> 0" using assms(3) by (auto simp: rate_access_disabled)
  define b now where "b = entry_of rl a" and "now = snd (snd (snd a))"
  define c where "c = max \<lceil>fl (fl (1 - refill b now (per_minute rl)) / refill_rate (per_minute rl))\<rceil> 1"
  have "refill b now (per_minute rl) < 1" and w: "w = f64_as_u64 c"
    using assms(3) by (auto simp: rate_access_eq [OF n0] check_limit_eq [OF n0] Let_def b_def now_def c_def
        split: if_splits)
  then have "1 \<le> c \<and> c \<le> 60 \<and> unat (f64_as_u64 c) = nat c"
    using retry_value [OF entry_ok [OF assms(1,2)] n0] by (simp add: b_def c_def)
  then show ?thesis unfolding w by linarith
qed

lemma rate_ok_new [simp]: "rate_ok (rate_limit_new n)"
  by (simp add: rate_ok_def rate_limit_new_def)

text \<open>The limiter as a machine: any access, with any eviction, is a step.\<close>

definition limiter_step :: "rate_limit \<Rightarrow> rate_limit \<Rightarrow> bool" where
  "limiter_step rl rl' \<longleftrightarrow> (\<exists>a. only_evicts a \<and> rl' = fst (rate_access rl a))"

interpretation limiter: machine_invariant "\<lambda>rl. rl = rate_limit_new n" limiter_step
    "\<lambda>rl. rate_ok rl \<and> per_minute rl = n"
  for n
proof
  show "rate_ok rl \<and> per_minute rl = n" if "rl = rate_limit_new n" for rl
    using that by (simp add: rate_limit_new_def [of n] rate_ok_new [of n, unfolded rate_limit_new_def])
  show "rate_ok rl' \<and> per_minute rl' = n" if "rate_ok rl \<and> per_minute rl = n" "limiter_step rl rl'" for rl rl'
    using that rate_access_ok by (auto simp: limiter_step_def)
qed

lemma reachable_limiter:
  "reachable (\<lambda>rl. rl = rate_limit_new n) limiter_step rl \<Longrightarrow> rate_ok rl \<and> per_minute rl = n"
  by (rule limiter.reachable_inv)

lemma rate_run_Cons:
  "rate_run rl (a # as) =
     (fst (rate_run (fst (rate_access rl a)) as), snd (rate_access rl a) # snd (rate_run (fst (rate_access rl a)) as))"
  by (simp add: Let_def split_def)

declare rate_run.simps(2) [simp del]
declare rate_run_Cons [simp]

lemma rate_run_ok:
  assumes "rate_ok rl" and "\<forall>a \<in> set as. only_evicts a"
  shows "rate_ok (fst (rate_run rl as)) \<and> per_minute (fst (rate_run rl as)) = per_minute rl"
  using assms by (induction as arbitrary: rl) (auto simp: rate_access_ok)

lemma rate_run_delay:
  assumes "rate_ok rl" and "\<forall>a \<in> set as. only_evicts a" and "Some w \<in> set (snd (rate_run rl as))"
  shows "1 \<le> unat w \<and> unat w \<le> 60"
  using assms
proof (induction as arbitrary: rl)
  case (Cons a as)
  then show ?case using rate_access_delay [of rl a w] rate_access_ok [of rl a] by (auto dest: sym)
qed simp

subsection \<open>A burst\<close>

lemma full_tokens_check:
  assumes "limit \<noteq> 0" and "k \<le> unat limit" and "b = \<lparr>tokens = of_nat k, updated = now\<rparr>"
  shows "(0 < k \<longrightarrow> check_limit b now limit = (\<lparr>tokens = of_nat (k - 1), updated = now\<rparr>, None)) \<and>
    (k = 0 \<longrightarrow> fst (check_limit b now limit) = b \<and> snd (check_limit b now limit) \<noteq> None)"
proof -
  have k: "k \<le> 2 ^ 53" using assms(2) u32_exact [of limit] by linarith
  have "rat_of_nat k \<le> f64_from_u32 limit"
    unfolding f64_from_u32_def using assms(2) by (simp only: of_nat_le_iff)
  then have r: "refill b now limit = of_nat k"
    using f64.rnd_nat [OF k] by (simp add: refill_def assms(3))
  show ?thesis
  proof (cases "k = 0")
    case True
    then show ?thesis using r assms(3) by (simp add: check_limit_eq [OF assms(1)])
  next
    case False
    then have "fl (of_nat k - 1) = of_nat (k - 1)" and "(1 :: rat) \<le> of_nat k"
      using f64.rnd_nat [of "k - 1"] k by (simp_all add: of_nat_diff)
    then show ?thesis using r False by (simp add: check_limit_eq [OF assms(1)])
  qed
qed

definition has_tokens :: "rate_limit \<Rightarrow> ustr \<Rightarrow> nat \<Rightarrow> nat \<Rightarrow> bool" where
  "has_tokens rl key now k \<longleftrightarrow>
     hits rl key = Some \<lparr>tokens = of_nat k, updated = now\<rparr> \<or>
     (hits rl key = None \<and> k = unat (per_minute rl))"

lemma burst_step:
  assumes "has_tokens rl key now k" and "k \<le> unat (per_minute rl)" and "per_minute rl \<noteq> 0"
    and "keeps_key key a" and "access_key a = key" and "snd (snd a) = (now, now)"
  shows "has_tokens (fst (rate_access rl a)) key now (k - 1) \<and> (snd (rate_access rl a) = None \<longleftrightarrow> 0 < k)"
proof -
  have "entry_of rl a = \<lparr>tokens = of_nat k, updated = now\<rparr>"
    using assms by (cases a)
      (auto simp: entry_of_def has_tokens_def keeps_key_def access_key_def token_bucket_new_def f64_from_u32_def)
  then show ?thesis
    using full_tokens_check [OF assms(3,2), of "entry_of rl a" now] assms(5,6)
    by (cases "k = 0") (auto simp: rate_access_eq [OF assms(3)] has_tokens_def Let_def split_def)
qed

lemma burst_run:
  assumes "has_tokens rl key now k" and "k \<le> unat (per_minute rl)" and "per_minute rl \<noteq> 0"
    and "\<forall>a \<in> set as. keeps_key key a \<and> access_key a = key \<and> snd (snd a) = (now, now)"
  shows "map (\<lambda>v. v = None) (snd (rate_run rl as)) =
    replicate (min k (length as)) True @ replicate (length as - k) False"
  using assms
proof (induction as arbitrary: rl k)
  case (Cons a as)
  have step: "has_tokens (fst (rate_access rl a)) key now (k - 1)" "snd (rate_access rl a) = None \<longleftrightarrow> 0 < k"
    using burst_step [OF Cons.prems(1-3), of a] Cons.prems(4) by auto
  have "map (\<lambda>v. v = None) (snd (rate_run (fst (rate_access rl a)) as)) =
      replicate (min (k - 1) (length as)) True @ replicate (length as - (k - 1)) False"
    using Cons.prems by (intro Cons.IH step(1)) auto
  with step(2) show ?case by (cases k) simp_all
qed simp

subsection \<open>The rate in the long run\<close>

lemma as_secs_upper: "as_secs_f64 d \<le> of_nat d / 10 ^ 9 * ((1 + 1 / 2 ^ 53) * (1 + 1 / 2 ^ 53))"
proof -
  define q r :: rat where "q = of_nat (d div 10 ^ 9)" and "r = of_nat (d mod 10 ^ 9) / 10 ^ 9"
  have "(of_nat d :: rat) = of_nat (d div 10 ^ 9) * 10 ^ 9 + of_nat (d mod 10 ^ 9)"
    using div_mult_mod_eq [of d "10 ^ 9"] by (metis of_nat_add of_nat_mult of_nat_numeral of_nat_power)
  then have d: "of_nat d / 10 ^ 9 = q + r" by (simp add: q_def r_def field_simps)
  have q0: "0 \<le> q" "0 \<le> r" by (simp_all add: q_def r_def)
  then have "0 \<le> fl q + fl r" by (simp add: f64.rnd_nonneg)
  then have "as_secs_f64 d \<le> (fl q + fl r) * (1 + 1 / 2 ^ 53)"
    unfolding as_secs_f64_def q_def r_def by (rule f64.rnd_upper)
  also have "\<dots> \<le> ((q + r) * (1 + 1 / 2 ^ 53)) * (1 + 1 / 2 ^ 53)"
    using f64.rnd_upper [OF q0(1)] f64.rnd_upper [OF q0(2)]
    by (intro mult_right_mono) (simp_all only: distrib_right, simp)
  finally show ?thesis by (simp only: d mult.assoc)
qed

definition verdict_count :: "u64 option \<Rightarrow> rat" where
  "verdict_count v = (if v = None then 1 else 0)"

lemma refill_exact_upper:
  "as_secs_f64 d * refill_rate limit * (1 + 1 / 2 ^ 53) \<le>
     of_nat d / 10 ^ 9 * (f64_from_u32 limit / 60) * (1 + 1 / 2 ^ 50)"
proof -
  let ?k = "1 + 1 / 2 ^ 53 :: rat"
  let ?x = "of_nat d / 10 ^ 9 * (f64_from_u32 limit / 60) :: rat"
  have "refill_rate limit \<le> f64_from_u32 limit / 60 * ?k"
    unfolding refill_rate_def by (rule f64.rnd_upper) simp
  then have "as_secs_f64 d * refill_rate limit \<le>
      (of_nat d / 10 ^ 9 * (?k * ?k)) * (f64_from_u32 limit / 60 * ?k)"
    using as_secs_upper [of d] by (intro mult_mono) simp_all
  then have "as_secs_f64 d * refill_rate limit * ?k \<le>
      (of_nat d / 10 ^ 9 * (?k * ?k)) * (f64_from_u32 limit / 60 * ?k) * ?k"
    by (intro mult_right_mono) simp_all
  also have "\<dots> = ?x * (?k * ?k * ?k * ?k)" by (simp only: mult.assoc mult.commute mult.left_commute)
  also have "\<dots> \<le> ?x * (1 + 1 / 2 ^ 50)" by (intro mult_left_mono) simp_all
  finally show ?thesis .
qed

lemma check_limit_potential:
  assumes "bucket_ok limit b" and "limit \<noteq> 0"
  shows "tokens (fst (check_limit b now limit)) + verdict_count (snd (check_limit b now limit)) \<le>
    tokens b + of_nat (now - updated b) / 10 ^ 9 * (f64_from_u32 limit / 60) * (1 + 1 / 2 ^ 50)
      + f64_from_u32 limit / 2 ^ 51"
proof -
  let ?L = "f64_from_u32 limit"
  let ?x = "of_nat (now - updated b) / 10 ^ 9 * (?L / 60) * (1 + 1 / 2 ^ 50) :: rat"
  define r where "r = refill b now limit"
  have "r \<le> tokens b + as_secs_f64 (now - updated b) * refill_rate limit * (1 + 1 / 2 ^ 53) + 2 * ?L / 2 ^ 53"
    unfolding r_def refill_def using assms(1) by (intro f64.refill_upper) (simp_all add: bucket_ok_def)
  with refill_exact_upper [of "now - updated b" limit]
  have r: "r \<le> tokens b + ?x + 2 * ?L / 2 ^ 53" by linarith
  have rl: "0 \<le> r" "r \<le> ?L" using refill_ok [OF assms(1)] by (simp_all add: r_def)
  have "tokens (fst (check_limit b now limit)) + verdict_count (snd (check_limit b now limit)) \<le> r + ?L / 2 ^ 53"
    using f64.take_token_upper [of r ?L] rl
    by (auto simp: check_limit_eq [OF assms(2)] verdict_count_def r_def [symmetric])
  moreover have "2 * ?L / 2 ^ 53 + ?L / 2 ^ 53 \<le> ?L / 2 ^ 51" by simp
  ultimately show ?thesis using r by linarith
qed

text \<open>However a bucket came about, it holds no more than its capacity.\<close>

lemma check_limit_capacity:
  assumes "bucket_ok limit b" and "limit \<noteq> 0"
  shows "tokens (fst (check_limit b now limit)) + verdict_count (snd (check_limit b now limit)) \<le>
    f64_from_u32 limit + f64_from_u32 limit / 2 ^ 51"
proof -
  let ?L = "f64_from_u32 limit"
  have r: "0 \<le> refill b now limit" "refill b now limit \<le> ?L" using refill_ok [OF assms(1)] by simp_all
  then have "tokens (fst (check_limit b now limit)) + verdict_count (snd (check_limit b now limit)) \<le>
      refill b now limit + ?L / 2 ^ 53"
    using f64.take_token_upper [of "refill b now limit" ?L]
    by (auto simp: check_limit_eq [OF assms(2)] verdict_count_def)
  moreover have "?L / 2 ^ 53 \<le> ?L / 2 ^ 51" by simp
  ultimately show ?thesis using r by linarith
qed

lemma updated_check [simp]: "limit \<noteq> 0 \<Longrightarrow> updated (fst (check_limit b now limit)) = now"
  by (simp add: check_limit_eq)

subsection \<open>Clients with different keys\<close>

text \<open>
  The visits of one key among all accesses, each with whether the cache had dropped the bucket of
  the key since its previous visit. That is all that the other clients can bring about.
\<close>

fun visits :: "ustr \<Rightarrow> bool \<Rightarrow> rate_limit \<Rightarrow> access list \<Rightarrow> (bool \<times> access) list" where
  "visits k lost rl [] = []"
| "visits k lost rl (a # as) =
     (let lost = (lost \<or> hits rl k \<noteq> None \<and> fst a (hits rl) k = None);
          rl' = fst (rate_access rl a)
      in if access_key a = k then (lost, a) # visits k False rl' as else visits k lost rl' as)"

text \<open>The same visits with nobody else there, to a cache that drops the bucket just when told to.\<close>

definition alone :: "(bool \<times> access) list \<Rightarrow> access list" where
  "alone vs = map (\<lambda>(lost, a). (if lost then (\<lambda>_. Map.empty) else id, snd a)) vs"

lemma alone_simps [simp]:
  "alone [] = []"
  "alone ((lost, a) # vs) = (if lost then (\<lambda>_. Map.empty) else id, snd a) # alone vs"
  "length (alone vs) = length vs"
  by (simp_all add: alone_def)

lemma access_key_alone [simp]: "access_key (e, snd a) = access_key a"
  by (simp add: access_key_def)

lemma visits_accesses: "map snd (visits k lost rl as) = filter (\<lambda>a. access_key a = k) as"
  by (induction as arbitrary: lost rl) (simp_all add: Let_def)

lemma rate_run_disabled: "per_minute rl = 0 \<Longrightarrow> rate_run rl as = (rl, replicate (length as) None)"
  by (induction as) (simp_all add: rate_access_disabled)

lemma access_other_key:
  assumes "access_key a \<noteq> k" and "per_minute rl \<noteq> 0"
  shows "hits (fst (rate_access rl a)) k = fst a (hits rl) k"
  using assms by (simp add: rate_access_eq Let_def split_def)

lemma access_same_key:
  assumes "access_key a = k" and "access_key a' = k" and "snd (snd a) = snd (snd a')" and "per_minute rl \<noteq> 0"
    and "per_minute rl = per_minute rl'" and "fst a (hits rl) k = fst a' (hits rl') k"
  shows "snd (rate_access rl a) = snd (rate_access rl' a') \<and>
    hits (fst (rate_access rl a)) k = hits (fst (rate_access rl' a')) k"
proof -
  have "entry_of rl a = entry_of rl' a'"
    using assms by (cases a, cases a') (auto simp: entry_of_def access_key_def split: option.split)
  then show ?thesis using assms by (auto simp: rate_access_eq Let_def split_def)
qed

lemma run_isolated:
  assumes "\<forall>a \<in> set as. only_evicts a" and "per_minute rl \<noteq> 0" and "per_minute rl = per_minute rl'"
    and "hits rl k = (if lost then None else hits rl' k)"
  shows "map snd (filter (\<lambda>(a, v). access_key a = k) (zip as (snd (rate_run rl as)))) =
    snd (rate_run rl' (alone (visits k lost rl as)))"
  using assms
proof (induction as arbitrary: rl rl' lost)
  case (Cons a as)
  define gone where "gone = (lost \<or> hits rl k \<noteq> None \<and> fst a (hits rl) k = None)"
  have "fst a (hits rl) \<subseteq>\<^sub>m hits rl" using Cons.prems by (simp add: only_evicts_def)
  then have "fst a (hits rl) k = None \<or> fst a (hits rl) k = hits rl k" by (auto simp: map_le_def dom_def)
  then have kept: "fst a (hits rl) k = (if gone then None else hits rl' k)"
    using Cons.prems by (auto simp: gone_def)
  have visits: "visits k lost rl (a # as) =
      (if access_key a = k then (gone, a) # visits k False (fst (rate_access rl a)) as
       else visits k gone (fst (rate_access rl a)) as)"
    by (simp add: gone_def Let_def)
  show ?case
  proof (cases "access_key a = k")
    case True
    let ?a = "(if gone then (\<lambda>_. Map.empty) else id, snd a)"
    have "snd (rate_access rl a) = snd (rate_access rl' ?a)"
      "hits (fst (rate_access rl a)) k = hits (fst (rate_access rl' ?a)) k"
      using access_same_key [of a k ?a rl rl'] True kept Cons.prems by auto
    then show ?thesis
      unfolding visits using True Cons.prems Cons.IH [of "fst (rate_access rl a)" "fst (rate_access rl' ?a)" False] by simp
  next
    case False
    then show ?thesis
      unfolding visits using Cons.IH [of "fst (rate_access rl a)" rl' gone] access_other_key [OF False] kept Cons.prems by simp
  qed
qed simp

lemma isolated_verdicts:
  assumes "\<forall>a \<in> set as. only_evicts a"
  shows "map snd (filter (\<lambda>(a, v). access_key a = k) (zip as (snd (rate_run (rate_limit_new n) as)))) =
    snd (rate_run (rate_limit_new n) (alone (visits k False (rate_limit_new n) as)))"
proof (cases "n = 0")
  case False
  then show ?thesis by (intro run_isolated [OF assms]) (simp_all add: rate_limit_new_def)
next
  case True
  have "map snd (filter (\<lambda>(a, v). access_key a = k) (zip as (replicate (length as) None))) =
      replicate (length (filter (\<lambda>a. access_key a = k) as)) None"
    by (induction as) simp_all
  moreover have "length (visits k False (rate_limit_new n) as) = length (filter (\<lambda>a. access_key a = k) as)"
    by (metis length_map visits_accesses)
  ultimately show ?thesis using True by (simp add: rate_run_disabled rate_limit_new_def)
qed

text \<open>Losing its bucket never costs a client a request.\<close>

lemma lost_is_admitted: "list_all2 (\<lambda>(lost, a) v. lost \<longrightarrow> v = None) vs (snd (rate_run rl (alone vs)))"
proof (induction vs arbitrary: rl)
  case (Cons x vs)
  obtain lost a where x: "x = (lost, a)" by (cases x)
  have "snd (rate_access rl (\<lambda>_. Map.empty, snd a)) = None"
    by (cases "per_minute rl = 0")
      (simp_all add: rate_access_disabled rate_access_eq entry_of_def check_new_bucket Let_def split_def)
  then show ?case using Cons.IH by (simp add: x)
qed simp

subsection \<open>Buckets dropped too early\<close>

definition now_of :: "access \<Rightarrow> nat" where "now_of a = snd (snd (snd a))"

text \<open>
  A bucket is full again after a minute without visits, so that dropping it then changes nothing.
  Counted are the drops within a minute of the previous visit.
\<close>

fun early_losses :: "(bool \<times> access) list \<Rightarrow> nat" where
  "early_losses ((_, a) # (lost, a') # vs) =
     (if lost \<and> now_of a' < now_of a + 60 * 10 ^ 9 then 1 else 0) + early_losses ((lost, a') # vs)"
| "early_losses _ = 0"

lemma lossy_bound:
  assumes "hits rl k = Some b" and "bucket_ok (per_minute rl) b" and "per_minute rl \<noteq> 0"
    and "\<forall>v \<in> set vs. access_key (snd v) = k" and "updated b = now_of a"
    and "sorted (now_of a # map (now_of \<circ> snd) vs)" and "\<forall>t \<in> set (now_of a # map (now_of \<circ> snd) vs). t \<le> T"
  shows "sum_list (map verdict_count (snd (rate_run rl (alone vs)))) \<le>
    tokens b + f64_from_u32 (per_minute rl) * of_nat (early_losses ((x, a) # vs))
      + of_nat (T - now_of a) / 10 ^ 9 * (f64_from_u32 (per_minute rl) / 60) * (1 + 1 / 2 ^ 50)
      + of_nat (length vs) * (f64_from_u32 (per_minute rl) / 2 ^ 51)"
  using assms
proof (induction vs arbitrary: rl b a x)
  case Nil
  then show ?case by (simp add: bucket_ok_def)
next
  case (Cons y vs)
  obtain lost c where y: "y = (lost, c)" by (cases y)
  define e where "e = (if lost then token_bucket_new (per_minute rl) (fst (snd (snd c))) else b)"
  define L where "L = f64_from_u32 (per_minute rl)"
  let ?c = "(if lost then (\<lambda>_. Map.empty) else id, snd c)"
  let ?b = "fst (check_limit e (now_of c) (per_minute rl))" and ?v = "snd (check_limit e (now_of c) (per_minute rl))"
  have e: "entry_of rl ?c = e"
    using Cons.prems(1,4) by (cases c) (auto simp: y entry_of_def e_def access_key_def)
  have e_ok: "bucket_ok (per_minute rl) e" using Cons.prems(2) by (simp add: e_def bucket_ok_new)
  have a: "snd (rate_access rl ?c) = ?v" "hits (fst (rate_access rl ?c)) k = Some ?b"
    using Cons.prems(3,4) rate_access_eq [of rl ?c] by (simp_all add: e y now_of_def Let_def split_def)
  have times: "now_of a \<le> now_of c" "now_of c \<le> T" using Cons.prems(6,7) by (simp_all add: y)
  have rest: "sum_list (map verdict_count (snd (rate_run (fst (rate_access rl ?c)) (alone vs)))) \<le>
      tokens ?b + L * of_nat (early_losses ((lost, c) # vs))
        + of_nat (T - now_of c) / 10 ^ 9 * (L / 60) * (1 + 1 / 2 ^ 50) + of_nat (length vs) * (L / 2 ^ 51)"
    unfolding L_def using Cons.prems check_limit_ok [OF e_ok] Cons.IH [OF a(2), of c lost] by (simp add: y)
  have L: "0 \<le> L" by (simp add: L_def)
  have b0: "0 \<le> tokens b" using Cons.prems(2) by (simp add: bucket_ok_def)
  define early where "early = (if lost \<and> now_of c < now_of a + 60 * 10 ^ 9 then 1 else 0 :: nat)"
  have gain: "0 \<le> of_nat (now_of c - now_of a) / 10 ^ 9 * (L / 60) * (1 + 1 / 2 ^ 50)"
    using L by (intro mult_nonneg_nonneg divide_nonneg_nonneg) simp_all
  have first: "tokens ?b + verdict_count ?v \<le> tokens b + L * of_nat early
      + of_nat (now_of c - now_of a) / 10 ^ 9 * (L / 60) * (1 + 1 / 2 ^ 50) + L / 2 ^ 51"
  proof (cases lost)
    case False
    then show ?thesis
      using check_limit_potential [OF e_ok Cons.prems(3), of "now_of c"] Cons.prems(5) by (simp add: e_def early_def L_def)
  next
    case True
    have cap: "tokens ?b + verdict_count ?v \<le> L + L / 2 ^ 51"
      using check_limit_capacity [OF e_ok Cons.prems(3)] by (simp add: L_def)
    show ?thesis
    proof (cases "now_of c < now_of a + 60 * 10 ^ 9")
      case early: True
      then show ?thesis using cap gain b0 True by (simp add: early_def)
    next
      case False
      then have "(60 * 10 ^ 9 :: rat) \<le> of_nat (now_of c - now_of a)"
        using of_nat_mono [of "60 * 10 ^ 9" "now_of c - now_of a", where 'a = rat] by simp
      then have "60 \<le> (of_nat (now_of c - now_of a) / 10 ^ 9 :: rat)" by simp
      then have "60 * (L / 60) * 1 \<le> of_nat (now_of c - now_of a) / 10 ^ 9 * (L / 60) * (1 + 1 / 2 ^ 50)"
        using L by (intro mult_mono) simp_all
      then show ?thesis using cap b0 False by (simp add: early_def)
    qed
  qed
  have "of_nat (T - now_of a) = (of_nat (T - now_of c) + of_nat (now_of c - now_of a) :: rat)"
    using times by (simp flip: of_nat_add)
  moreover have "early_losses ((x, a) # y # vs) = early + early_losses ((lost, c) # vs)" by (simp add: y early_def)
  moreover have "sum_list (map verdict_count (snd (rate_run rl (alone (y # vs))))) =
      verdict_count ?v + sum_list (map verdict_count (snd (rate_run (fst (rate_access rl ?c)) (alone vs))))"
    by (simp add: y a(1))
  ultimately show ?case
    using rest first unfolding L_def [symmetric]
    by (simp only: list.size of_nat_Suc of_nat_add add_divide_distrib distrib_right distrib_left mult_1)
qed

lemma sum_verdict_count: "sum_list (map verdict_count vs) = of_nat (length (filter (\<lambda>v. v = None) vs))"
  by (induction vs) (auto simp: verdict_count_def)

text \<open>
  Over any period the requests a bucket admits are bounded by its capacity, once more for every
  time it was dropped early, plus the refill of the elapsed time at the configured rate; rounding
  adds at most one part in \<open>2 ^ 50\<close> of the refill and \<open>2 ^ - 51\<close> of the capacity per request.
\<close>

lemma long_run_rate:
  assumes "n \<noteq> 0" and "\<forall>v \<in> set vs. access_key (snd v) = k"
    and "sorted (map (now_of \<circ> snd) vs)" and "\<forall>v \<in> set vs. t0 \<le> now_of (snd v) \<and> now_of (snd v) \<le> T"
  shows "of_nat (length (filter (\<lambda>v. v = None) (snd (rate_run (rate_limit_new n) (alone vs))))) \<le>
    f64_from_u32 n * (1 + of_nat (early_losses vs))
      + of_nat (T - t0) / 10 ^ 9 * (f64_from_u32 n / 60) * (1 + 1 / 2 ^ 50)
      + of_nat (length vs) * (f64_from_u32 n / 2 ^ 51)"
proof (cases vs)
  case Nil
  have "0 \<le> of_nat (T - t0) / 10 ^ 9 * (f64_from_u32 n / 60) * (1 + 1 / 2 ^ 50)"
    by (intro mult_nonneg_nonneg divide_nonneg_nonneg) simp_all
  then show ?thesis by (simp add: Nil)
next
  case (Cons y ws)
  obtain lost a where y: "y = (lost, a)" by (cases y)
  let ?rl = "rate_limit_new n" and ?a = "(if lost then (\<lambda>_. Map.empty) else id, snd a)"
  let ?e = "token_bucket_new n (fst (snd (snd a)))"
  let ?b = "fst (check_limit ?e (now_of a) n)" and ?v = "snd (check_limit ?e (now_of a) n)"
  have pm: "per_minute ?rl = n" by (simp add: rate_limit_new_def)
  have "entry_of ?rl ?a = ?e" by (cases a) (simp add: entry_of_def rate_limit_new_def)
  then have first: "snd (rate_access ?rl ?a) = ?v" "hits (fst (rate_access ?rl ?a)) k = Some ?b"
    using rate_access_eq [of ?rl ?a] assms(1,2) by (simp_all add: pm Cons y now_of_def Let_def split_def)
  have cap: "tokens ?b + verdict_count ?v \<le> f64_from_u32 n + f64_from_u32 n / 2 ^ 51"
    by (rule check_limit_capacity [OF bucket_ok_new assms(1)])
  have rest: "sum_list (map verdict_count (snd (rate_run (fst (rate_access ?rl ?a)) (alone ws)))) \<le>
      tokens ?b + f64_from_u32 n * of_nat (early_losses ((lost, a) # ws))
        + of_nat (T - now_of a) / 10 ^ 9 * (f64_from_u32 n / 60) * (1 + 1 / 2 ^ 50)
        + of_nat (length ws) * (f64_from_u32 n / 2 ^ 51)"
    using lossy_bound [OF first(2), of ws a T lost] assms check_limit_ok [OF bucket_ok_new] by (simp add: pm Cons y)
  have "of_nat (T - now_of a) / 10 ^ 9 * (f64_from_u32 n / 60) * (1 + 1 / 2 ^ 50) \<le>
      of_nat (T - t0) / 10 ^ 9 * (f64_from_u32 n / 60) * (1 + 1 / 2 ^ 50 :: rat)"
    using assms(4) by (intro mult_right_mono divide_right_mono) (auto simp: Cons y)
  moreover have "sum_list (map verdict_count (snd (rate_run ?rl (alone vs)))) =
      verdict_count ?v + sum_list (map verdict_count (snd (rate_run (fst (rate_access ?rl ?a)) (alone ws))))"
    by (simp add: Cons y first(1))
  ultimately show ?thesis
    using cap rest unfolding sum_verdict_count [symmetric] Cons y
    by (simp only: list.size of_nat_Suc of_nat_add distrib_right distrib_left mult_1 mult_1_right)
qed

text \<open>
  What moka documents for a cache of that capacity and idle time: it drops an entry only when
  there are more than the capacity, or when the entry was idle for that long.
\<close>

definition bucket_capacity :: nat where "bucket_capacity = 100000"

definition bucket_idle :: nat where "bucket_idle = 120 * 10 ^ 9"

definition keeps_fresh :: "access \<Rightarrow> bool" where
  "keeps_fresh a \<longleftrightarrow>
     (\<forall>m k b. m k = Some b \<longrightarrow> finite (dom m) \<longrightarrow> card (dom m) \<le> bucket_capacity \<longrightarrow>
        now_of a < updated b + bucket_idle \<longrightarrow> fst a m k = Some b)"

lemma fresh_never_lost:
  assumes "\<forall>a \<in> set as. only_evicts a \<and> keeps_fresh a" and "per_minute rl \<noteq> 0"
    and "dom (hits rl) \<union> access_key ` set as \<subseteq> K" and "finite K" and "card K \<le> bucket_capacity"
    and "sorted (now # map now_of as)"
    and "\<And>b. hits rl k = Some b \<Longrightarrow> updated b = now_of p" and "lost \<Longrightarrow> now_of p + bucket_idle \<le> now"
  shows "early_losses ((x, p) # visits k lost rl as) = 0"
  using assms
proof (induction as arbitrary: rl lost now p x)
  case (Cons a as)
  define gone where "gone = (lost \<or> hits rl k \<noteq> None \<and> fst a (hits rl) k = None)"
  have "fst a (hits rl) \<subseteq>\<^sub>m hits rl" using Cons.prems(1) by (simp add: only_evicts_def)
  then have sub: "dom (fst a (hits rl)) \<subseteq> dom (hits rl)" "\<And>b. fst a (hits rl) k = Some b \<Longrightarrow> hits rl k = Some b"
    by (auto simp: map_le_def dom_def)
  have small: "finite (dom (hits rl))" "card (dom (hits rl)) \<le> bucket_capacity"
    using Cons.prems(3-5) finite_subset [of _ K] card_mono [of K "dom (hits rl)"] by auto
  have after: "now \<le> now_of a" "sorted (now_of a # map now_of as)" using Cons.prems(6) by simp_all
  have late: "now_of p + bucket_idle \<le> now_of a" if gone
  proof (cases lost)
    case True
    then show ?thesis using Cons.prems(8) after by simp
  next
    case False
    with that obtain b where b: "hits rl k = Some b" "fst a (hits rl) k = None" by (auto simp: gone_def)
    then have "\<not> now_of a < updated b + bucket_idle"
      using Cons.prems(1) small by (auto simp: keeps_fresh_def)
    then show ?thesis using Cons.prems(7) [OF b(1)] by simp
  qed
  have visits: "visits k lost rl (a # as) =
      (if access_key a = k then (gone, a) # visits k False (fst (rate_access rl a)) as
       else visits k gone (fst (rate_access rl a)) as)"
    by (simp add: gone_def Let_def)
  have access: "hits (fst (rate_access rl a)) =
      (fst a (hits rl))(access_key a \<mapsto> fst (check_limit (entry_of rl a) (now_of a) (per_minute rl)))"
    using rate_access_eq [OF Cons.prems(2), of a] by (simp add: Let_def split_def now_of_def)
  have dom: "dom (hits (fst (rate_access rl a))) \<union> access_key ` set as \<subseteq> K"
    using Cons.prems(3) sub(1) by (auto simp: access)
  show ?case
  proof (cases "access_key a = k")
    case True
    have "early_losses ((gone, a) # visits k False (fst (rate_access rl a)) as) = 0"
      using Cons.prems by (intro Cons.IH [OF _ _ dom _ _ after(2)]) (auto simp: access True)
    moreover have "\<not> (gone \<and> now_of a < now_of p + 60 * 10 ^ 9)" using late by (auto simp: bucket_idle_def)
    ultimately show ?thesis unfolding visits using True by simp
  next
    case False
    then have other: "hits (fst (rate_access rl a)) k = fst a (hits rl) k" by (simp add: access)
    have "updated b = now_of p" if "hits (fst (rate_access rl a)) k = Some b" for b
      by (rule Cons.prems(7) [OF sub(2)]) (use that other in simp)
    then have "early_losses ((x, p) # visits k gone (fst (rate_access rl a)) as) = 0"
      using Cons.prems late by (intro Cons.IH [OF _ _ dom _ _ after(2)]) auto
    then show ?thesis unfolding visits using False by simp
  qed
qed simp

lemma no_early_losses:
  assumes "\<forall>a \<in> set as. only_evicts a \<and> keeps_fresh a" and "n \<noteq> 0"
    and "card (access_key ` set as) \<le> bucket_capacity" and "sorted (map now_of as)"
  shows "early_losses (visits k False (rate_limit_new n) as) = 0"
proof -
  let ?p = "(id, [], 0, 0)"
  have "early_losses ((False, ?p) # visits k False (rate_limit_new n) as) = 0"
    by (rule fresh_never_lost [where K = "access_key ` set as" and now = 0])
      (use assms in \<open>simp_all add: rate_limit_new_def\<close>)
  then show ?thesis by (cases "visits k False (rate_limit_new n) as") (auto split: if_splits)
qed

section \<open>Which clients share a bucket\<close>

definition same_client :: "ip_addr \<Rightarrow> ip_addr \<Rightarrow> bool" where
  "same_client a b =
     (case (to_canonical a, to_canonical b) of
        (V4 p, V4 q) \<Rightarrow> p = q
      | (V6 p, V6 q) \<Rightarrow> take 4 (segments p) = take 4 (segments q)
      | _ \<Rightarrow> False)"

lemma ipv6_network_eq_iff: "ipv6_network p = ipv6_network q \<longleftrightarrow> take 4 (segments p) = take 4 (segments q)"
  by (cases p; cases q) (simp add: ipv6_network_def v6_network_64)

lemma slash_not_in_ipv4: "47 \<notin> set (show_ipv4 a)"
  using show_ipv4_chars [of 47 a] by (auto simp: is_ipv4_char_def is_ascii_digit_def)

lemma key_suffix: "set (lit ''/64'') = {47, 54, 52}"
  by (simp add: str_eval insert_commute)

text \<open>
  C37. Two client addresses draw on the same bucket exactly when they are the same IPv4 client
  (an IPv4-mapped IPv6 address is one) or lie in the same IPv6 /64 network.
\<close>

theorem bucket_key_iff:
  assumes "parse_ip s = Some a" and "parse_ip t = Some b"
  shows "bucket_key s = bucket_key t \<longleftrightarrow> same_client a b"
proof -
  have v6: "show_ipv6 x = show_ipv6 y \<longleftrightarrow> x = y" for x y
    using show_ip_inject [of "V6 x" "V6 y"] by simp
  have v4: "show_ipv4 x = show_ipv4 y \<longleftrightarrow> x = y" for x y
    using show_ip_inject [of "V4 x" "V4 y"] by simp
  have mixed: "show_ipv4 x \<noteq> show_ipv6 y @ lit ''/64''" "show_ipv6 y @ lit ''/64'' \<noteq> show_ipv4 x" for x y
    using slash_not_in_ipv4 [of x] key_suffix by (metis Un_iff insertI1 set_append)+
  show ?thesis
    using assms mixed
    by (simp add: bucket_key_def same_client_def ipv6_network_eq_iff v4 v6 split: ip_addr.split)
qed

theorem bucket_key_iff_witness:
  "bucket_key (lit ''2001:db8:1:2::1'') = bucket_key (lit ''2001:db8:1:2:ffff::9'')"
proof -
  have "parse_ip (lit ''2001:db8:1:2::1'') = Some (V6 (Ipv6Addr 0x2001 0xdb8 1 2 0 0 0 1))"
    "parse_ip (lit ''2001:db8:1:2:ffff::9'') = Some (V6 (Ipv6Addr 0x2001 0xdb8 1 2 0xffff 0 0 9))"
    by (simp_all add: addr_eval str_eval)
  then show ?thesis using bucket_key_iff by (simp add: same_client_def)
qed

section \<open>What the limiter guarantees\<close>

text \<open>
  Whatever the clients do and whatever the cache drops, every bucket of the limiter holds
  between zero and the configured number of tokens.
\<close>

theorem buckets_stay_in_range:
  assumes "\<forall>a \<in> set as. only_evicts a" and "hits (fst (rate_run (rate_limit_new n) as)) k = Some b"
  shows "0 \<le> tokens b \<and> tokens b \<le> f64_from_u32 n"
  using rate_run_ok [OF rate_ok_new assms(1), of n] assms(2)
  by (auto simp: rate_ok_def bucket_ok_def rate_limit_new_def ran_def)

text \<open>
  The \<open>Retry-After\<close> value of a refused request is between one second and one minute.
\<close>

theorem announced_delay:
  assumes "\<forall>a \<in> set as. only_evicts a" and "Some w \<in> set (snd (rate_run (rate_limit_new n) as))"
  shows "1 \<le> unat w \<and> unat w \<le> 60"
  using rate_run_delay [OF rate_ok_new assms] .

lemma f64_one [simp]: "f64_from_u32 1 = 1"
  by (simp add: f64_from_u32_def)

lemma sixty_seconds [simp]: "f64_as_u64 60 = 60"
  by (simp add: f64_as_u64_def)

lemma first_check_one: "check_limit (token_bucket_new 1 t) t 1 = (\<lparr>tokens = 0, updated = t\<rparr>, None)"
  by (simp add: check_limit_eq refill_def token_bucket_new_def)

lemma second_check_one: "check_limit \<lparr>tokens = 0, updated = t\<rparr> t 1 = (\<lparr>tokens = 0, updated = t\<rparr>, Some 60)"
  by (simp add: check_limit_eq refill_def refill_rate_def fl_sixty_again)

lemma two_requests_one:
  "rate_access (rate_limit_new 1) (id, c, t, t) =
     (\<lparr>per_minute = 1, hits = [bucket_key c \<mapsto> \<lparr>tokens = 0, updated = t\<rparr>]\<rparr>, None)"
  "rate_access \<lparr>per_minute = 1, hits = [bucket_key c \<mapsto> \<lparr>tokens = 0, updated = t\<rparr>]\<rparr> (id, c, t, t) =
     (\<lparr>per_minute = 1, hits = [bucket_key c \<mapsto> \<lparr>tokens = 0, updated = t\<rparr>]\<rparr>, Some 60)"
  by (simp_all add: rate_access_def rate_check_def rate_limit_new_def first_check_one second_check_one)

theorem buckets_stay_in_range_witness:
  "hits (fst (rate_run (rate_limit_new 1) [(id, lit ''::1'', 7, 7)])) (bucket_key (lit ''::1'')) =
     Some \<lparr>tokens = 0, updated = 7\<rparr> \<and> (0 :: rat) \<le> 0 \<and> 0 \<le> f64_from_u32 1"
proof -
  have h: "hits (fst (rate_run (rate_limit_new 1) [(id, lit ''::1'', 7, 7)])) (bucket_key (lit ''::1'')) =
     Some \<lparr>tokens = 0, updated = 7\<rparr>"
    by (simp add: two_requests_one)
  with buckets_stay_in_range [OF _ h] show ?thesis by (simp add: only_evicts_def)
qed

theorem announced_delay_witness:
  "Some 60 \<in> set (snd (rate_run (rate_limit_new 1) (replicate 2 (id, lit ''::1'', 7, 7)))) \<and>
   1 \<le> unat (60 :: u64) \<and> unat (60 :: u64) \<le> 60"
proof -
  have v: "Some 60 \<in> set (snd (rate_run (rate_limit_new 1) (replicate 2 (id, lit ''::1'', 7, 7))))"
    by (simp add: numeral_2_eq_2 two_requests_one)
  with announced_delay [OF _ v] show ?thesis by (simp add: only_evicts_def)
qed

text \<open>
  C14. Of the requests that arrive at one instant from the clients of one bucket, exactly the
  first \<open>per_minute\<close> are admitted, and all the others are refused, the cache keeping that bucket
  within the instant.
\<close>

theorem burst_is_exact:
  assumes "n \<noteq> 0"
    and "\<forall>a \<in> set as. keeps_key k a \<and> access_key a = k \<and> snd (snd a) = (now, now)"
  shows "map (\<lambda>v. v = None) (snd (rate_run (rate_limit_new n) as)) =
    replicate (min (unat n) (length as)) True @ replicate (length as - unat n) False"
  using assms by (intro burst_run) (auto simp: has_tokens_def rate_limit_new_def)

theorem burst_is_exact_witness:
  "map (\<lambda>v. v = None) (snd (rate_run (rate_limit_new 2)
     [(id, lit ''9.9.9.9'', 5, 5), (id, lit ''::ffff:9.9.9.9'', 5, 5), (id, lit ''9.9.9.9'', 5, 5)])) =
   [True, True, False]"
proof -
  have "bucket_key (lit ''9.9.9.9'') = lit ''9.9.9.9''" "bucket_key (lit ''::ffff:9.9.9.9'') = lit ''9.9.9.9''"
    by (simp_all add: bucket_key_def addr_eval str_eval)
  then show ?thesis
    by (subst burst_is_exact [where k = "lit ''9.9.9.9''" and now = 5],
        simp_all add: keeps_key_def access_key_def)
qed

text \<open>
  C18. A refused client that waits one second more than its \<open>Retry-After\<close> says is admitted,
  whatever the cache dropped in the meantime (unless others used up its bucket).
\<close>

theorem waiting_readmits:
  assumes "\<forall>a \<in> set as. only_evicts a" and "only_evicts a" and "only_evicts a'"
    and "rate_access (fst (rate_run (rate_limit_new n) as)) a = (rl', Some w)"
    and "access_key a' = access_key a"
    and "snd (snd (snd a)) + (unat w + 1) * 10 ^ 9 \<le> snd (snd (snd a'))"
  shows "snd (rate_access rl' a') = None"
proof -
  let ?rl = "fst (rate_run (rate_limit_new n) as)"
  let ?now = "snd (snd (snd a))" and ?now' = "snd (snd (snd a'))"
  have ok: "rate_ok ?rl" using rate_run_ok [OF rate_ok_new assms(1)] by simp
  have n0: "per_minute ?rl \<noteq> 0" using assms(4) by (auto simp: rate_access_disabled)
  obtain b where c: "check_limit (entry_of ?rl a) ?now (per_minute ?rl) = (b, Some w)"
    and rl': "rl' = ?rl\<lparr>hits := (fst a (hits ?rl))(access_key a \<mapsto> b)\<rparr>"
    using assms(4) by (auto simp: rate_access_eq [OF n0] Let_def split: prod.splits)
  have "fst a' (hits rl') \<subseteq>\<^sub>m hits rl'" using assms(3) by (simp add: only_evicts_def)
  then have "fst a' (hits rl') (access_key a') \<in> {None, Some b}"
    using map_le_SomeD [of "fst a' (hits rl')" "hits rl'" "access_key a'"] assms(5)
    by (cases "fst a' (hits rl') (access_key a')") (auto simp: rl')
  then have "entry_of rl' a' = b \<or> (\<exists>t. entry_of rl' a' = token_bucket_new (per_minute ?rl) t)"
    by (cases a') (auto simp: entry_of_def access_key_def rl')
  then have "snd (check_limit (entry_of rl' a') ?now' (per_minute ?rl)) = None"
    using check_after_wait [OF entry_ok [OF ok assms(2)] c assms(6)] check_new_bucket [OF n0] by auto
  then show ?thesis
    using rate_access_eq [of rl' a'] n0 by (simp add: rl' Let_def split_def)
qed

theorem waiting_readmits_witness:
  "snd (rate_access \<lparr>per_minute = 1, hits = [bucket_key (lit ''::1'') \<mapsto> \<lparr>tokens = 0, updated = 7\<rparr>]\<rparr>
     (id, lit ''::1'', 61000000009, 61000000010)) = None"
  using waiting_readmits [of "[(id, lit ''::1'', 7, 7)]" "(id, lit ''::1'', 7, 7)"
      "(id, lit ''::1'', 61000000009, 61000000010)" 1 _ 60]
  by (simp add: two_requests_one only_evicts_def access_key_def)

text \<open>
  C15. Clients with different bucket keys do not take each other's tokens. Whatever entries the
  cache drops, the verdicts of the requests of one key are the verdicts these requests alone would
  get from a cache that drops their bucket at the same visits. So the others matter only through
  dropped entries, and a request that finds its bucket dropped is admitted.
\<close>

theorem clients_are_isolated:
  assumes "\<forall>a \<in> set as. only_evicts a"
  shows "(let own = visits k False (rate_limit_new n) as;
      got = map snd (filter (\<lambda>(a, v). access_key a = k) (zip as (snd (rate_run (rate_limit_new n) as))))
    in map snd own = filter (\<lambda>a. access_key a = k) as \<and>
       got = snd (rate_run (rate_limit_new n) (alone own)) \<and>
       list_all2 (\<lambda>(lost, a) v. lost \<longrightarrow> v = None) own got)"
  unfolding Let_def isolated_verdicts [OF assms] using visits_accesses lost_is_admitted by blast

text \<open>
  With a limit of one a minute the second request of an address is refused, and the third admitted
  because the cache has dropped the bucket to make room for another client.
\<close>

theorem clients_are_isolated_witness:
  "map snd (filter (\<lambda>(a, v). access_key a = lit ''9.9.9.9'')
     (zip [(id, lit ''9.9.9.9'', 0, 0), (id, lit ''9.9.9.9'', 0, 0), (\<lambda>_. Map.empty, lit ''::1'', 0, 0), (id, lit ''9.9.9.9'', 0, 0)]
       (snd (rate_run (rate_limit_new 1)
          [(id, lit ''9.9.9.9'', 0, 0), (id, lit ''9.9.9.9'', 0, 0), (\<lambda>_. Map.empty, lit ''::1'', 0, 0), (id, lit ''9.9.9.9'', 0, 0)])))) =
   [None, Some 60, None]"
proof -
  let ?as = "[(id, lit ''9.9.9.9'', 0, 0), (id, lit ''9.9.9.9'', 0, 0), (\<lambda>_. Map.empty, lit ''::1'', 0, 0), (id, lit ''9.9.9.9'', 0, 0)] :: access list"
  have k: "bucket_key (lit ''9.9.9.9'') = lit ''9.9.9.9''" "bucket_key (lit ''::1'') = lit ''::/64''"
    by (simp_all add: bucket_key_def addr_eval str_eval ipv6_network_def v6_network_64)
  have "lit ''::/64'' \<noteq> lit ''9.9.9.9''" by simp
  then have "visits (lit ''9.9.9.9'') False (rate_limit_new 1) ?as =
      [(False, id, lit ''9.9.9.9'', 0, 0), (False, id, lit ''9.9.9.9'', 0, 0), (True, id, lit ''9.9.9.9'', 0, 0)]"
    by (simp add: access_key_def k rate_access_def rate_check_def rate_limit_new_def first_check_one second_check_one)
  moreover have "\<forall>a \<in> set ?as. only_evicts a" by (simp add: only_evicts_def)
  ultimately show ?thesis
    using clients_are_isolated [of ?as "lit ''9.9.9.9''" 1]
    by (simp add: Let_def rate_access_def rate_check_def rate_limit_new_def k first_check_one second_check_one)
qed

end
