(* ===== verification/Metrics_Text.thy ===== *)
theory Metrics_Text
  imports Rust_Str
begin

text \<open>
  The process-local counters and their text form on \<open>/metrics\<close> (\<open>src/metrics.rs\<close>). Counters
  are \<open>AtomicU64\<close>: \<open>fetch_add\<close> wraps.
\<close>

record metrics =
  requests :: u64
  responses_4xx :: u64
  responses_5xx :: u64
  rate_limited :: u64
  rdns_lookups :: u64
  rdns_timeouts :: u64
  rdns_skipped :: u64

definition metrics_default :: metrics where
  "metrics_default = \<lparr>requests = 0, responses_4xx = 0, responses_5xx = 0, rate_limited = 0,
     rdns_lookups = 0, rdns_timeouts = 0, rdns_skipped = 0\<rparr>"

definition inc :: "u64 \<Rightarrow> u64" where
  "inc counter = counter + 1"

definition counters :: "metrics \<Rightarrow> (ustr \<times> ustr \<times> u64) list" where
  "counters m =
     [(lit ''proxpulse_requests_total'', lit ''Total HTTP requests handled.'', requests m),
      (lit ''proxpulse_responses_4xx_total'', lit ''Responses with 4xx status.'', responses_4xx m),
      (lit ''proxpulse_responses_5xx_total'', lit ''Responses with 5xx status.'', responses_5xx m),
      (lit ''proxpulse_rate_limited_total'', lit ''Requests rejected by the rate limiter.'', rate_limited m),
      (lit ''proxpulse_rdns_lookups_total'', lit ''Blocking rDNS lookups spawned.'', rdns_lookups m),
      (lit ''proxpulse_rdns_timeouts_total'', lit ''rDNS lookups that exceeded the request timeout.'', rdns_timeouts m),
      (lit ''proxpulse_rdns_skipped_total'', lit ''Requests skipped because no rDNS permit was available.'', rdns_skipped m)]"

definition render_counter :: "ustr \<times> ustr \<times> u64 \<Rightarrow> ustr" where
  "render_counter c =
     (case c of (name, help, value) \<Rightarrow>
        lit ''# HELP '' @ name @ [32] @ help @ [10] @
        lit ''# TYPE '' @ name @ lit '' counter'' @ [10] @
        name @ [32] @ show_nat (unat value) @ [10])"

definition render :: "metrics \<Rightarrow> bool \<Rightarrow> ustr \<Rightarrow> ustr" where
  "render m geo_ready version =
     concat (map render_counter (counters m)) @
     lit ''# HELP proxpulse_geo_ready 1 when at least one geo database is loaded.'' @ [10] @
     lit ''# TYPE proxpulse_geo_ready gauge'' @ [10] @
     lit ''proxpulse_geo_ready '' @ show_nat (if geo_ready then 1 else 0) @ [10] @
     lit ''# HELP proxpulse_build_info Build version information.'' @ [10] @
     lit ''# TYPE proxpulse_build_info gauge'' @ [10] @
     lit ''proxpulse_build_info{version='' @ [34] @ version @ [34] @ lit ''} 1'' @ [10]"

section \<open>What a scrape reads\<close>

definition lines_of :: "ustr \<Rightarrow> ustr list" where
  "lines_of s = split_on (\<lambda>c. c = 10) s"

definition samples :: "ustr \<Rightarrow> ustr list" where
  "samples s = filter (\<lambda>l. l \<noteq> [] \<and> hd l \<noteq> 35) (lines_of s)"

lemma lines_of_line: "10 \<notin> set l \<Longrightarrow> lines_of (l @ 10 # t) = l # lines_of t"
  unfolding lines_of_def by (induction l) auto

lemma samples_comment: "10 \<notin> set l \<Longrightarrow> samples (35 # l @ 10 # t) = samples t"
  using lines_of_line [of "35 # l" t] by (simp add: samples_def)

lemma samples_value: "10 \<notin> set l \<Longrightarrow> l \<noteq> [] \<Longrightarrow> hd l \<noteq> 35 \<Longrightarrow> samples (l @ 10 # t) = l # samples t"
  by (simp add: samples_def lines_of_line)

lemma samples_Nil: "samples [] = []"
  by (simp add: samples_def lines_of_def)

lemma show_nat_no_lf: "10 \<notin> set (show_nat n)"
  using show_nat_digits [of 10 n] by (auto simp: is_ascii_digit_def)

lemma samples_counter:
  assumes "name \<noteq> []" and "hd name \<noteq> 35" and "10 \<notin> set name" and "10 \<notin> set help"
  shows "samples (render_counter (name, help, v) @ t) = (name @ 32 # show_nat (unat v)) # samples t"
proof -
  have eq: "render_counter (name, help, v) @ t =
      35 # (lit '' HELP '' @ name @ [32] @ help) @ 10 # 35 # (lit '' TYPE '' @ name @ lit '' counter'') @ 10 #
        (name @ 32 # show_nat (unat v)) @ 10 # t"
    by (simp add: render_counter_def str_eval)
  have lf: "10 \<notin> set (lit '' HELP '' @ name @ [32] @ help)" "10 \<notin> set (lit '' TYPE '' @ name @ lit '' counter'')"
    "10 \<notin> set (name @ 32 # show_nat (unat v))"
    using assms show_nat_no_lf [of "unat v"] by (simp_all add: str_eval)
  have v: "name @ 32 # show_nat (unat v) \<noteq> []" "hd (name @ 32 # show_nat (unat v)) \<noteq> 35"
    using assms by simp_all
  show ?thesis unfolding eq by (simp only: samples_comment samples_value lf v simp_thms)
qed

text \<open>
  The samples a scraper reads from \<open>/metrics\<close> are the seven counters with their current
  values, the geo readiness and the build version: every other line is a comment.
\<close>

theorem scrape_reads_counters:
  assumes "10 \<notin> set version"
  shows "samples (render m ready version) =
    map (\<lambda>(name, help, v). name @ 32 # show_nat (unat v)) (counters m) @
    [lit ''proxpulse_geo_ready '' @ show_nat (if ready then 1 else 0),
     lit ''proxpulse_build_info{version='' @ [34] @ version @ [34] @ lit ''} 1'']"
proof -
  have names: "list_all (\<lambda>(name, help, v). name \<noteq> [] \<and> hd name \<noteq> 35 \<and> 10 \<notin> set name \<and> 10 \<notin> set help) (counters m)"
    by (simp add: counters_def str_eval)
  have counters: "samples (concat (map render_counter cs) @ t) =
      map (\<lambda>(name, help, v). name @ 32 # show_nat (unat v)) cs @ samples t"
    if "list_all (\<lambda>(name, help, v). name \<noteq> [] \<and> hd name \<noteq> 35 \<and> 10 \<notin> set name \<and> 10 \<notin> set help) cs" for cs t
    using that by (induction cs) (auto simp: samples_counter)
  have tail: "lit ''# HELP proxpulse_geo_ready 1 when at least one geo database is loaded.'' @ [10] @
     lit ''# TYPE proxpulse_geo_ready gauge'' @ [10] @
     lit ''proxpulse_geo_ready '' @ show_nat (if ready then 1 else 0) @ [10] @
     lit ''# HELP proxpulse_build_info Build version information.'' @ [10] @
     lit ''# TYPE proxpulse_build_info gauge'' @ [10] @
     lit ''proxpulse_build_info{version='' @ [34] @ version @ [34] @ lit ''} 1'' @ [10] =
     35 # lit '' HELP proxpulse_geo_ready 1 when at least one geo database is loaded.'' @ 10 #
     35 # lit '' TYPE proxpulse_geo_ready gauge'' @ 10 #
     (lit ''proxpulse_geo_ready '' @ show_nat (if ready then 1 else 0)) @ 10 #
     35 # lit '' HELP proxpulse_build_info Build version information.'' @ 10 #
     35 # lit '' TYPE proxpulse_build_info gauge'' @ 10 #
     (lit ''proxpulse_build_info{version='' @ [34] @ version @ [34] @ lit ''} 1'') @ 10 # []"
    by (simp add: str_eval)
  have lf: "10 \<notin> set (lit '' HELP proxpulse_geo_ready 1 when at least one geo database is loaded.'')"
    "10 \<notin> set (lit '' TYPE proxpulse_geo_ready gauge'')"
    "10 \<notin> set (lit ''proxpulse_geo_ready '' @ show_nat (if ready then 1 else 0))"
    "10 \<notin> set (lit '' HELP proxpulse_build_info Build version information.'')"
    "10 \<notin> set (lit '' TYPE proxpulse_build_info gauge'')"
    "10 \<notin> set (lit ''proxpulse_build_info{version='' @ [34] @ version @ [34] @ lit ''} 1'')"
    using assms show_nat_no_lf by (simp_all add: str_eval)
  have heads: "hd (lit ''proxpulse_geo_ready '' @ x) \<noteq> 35" "hd (lit ''proxpulse_build_info{version='' @ x) \<noteq> 35"
    "lit ''proxpulse_geo_ready '' @ x \<noteq> []" "lit ''proxpulse_build_info{version='' @ x \<noteq> []" for x
    by (simp_all add: str_eval)
  show ?thesis
    unfolding render_def counters [OF names] tail
    by (simp only: samples_comment samples_value lf heads samples_Nil simp_thms)
qed

theorem scrape_reads_counters_witness:
  "samples (render (metrics_default\<lparr>requests := inc (inc 0)\<rparr>) True (lit ''1.2.3'')) =
    [lit ''proxpulse_requests_total 2'', lit ''proxpulse_responses_4xx_total 0'',
     lit ''proxpulse_responses_5xx_total 0'', lit ''proxpulse_rate_limited_total 0'',
     lit ''proxpulse_rdns_lookups_total 0'', lit ''proxpulse_rdns_timeouts_total 0'',
     lit ''proxpulse_rdns_skipped_total 0'', lit ''proxpulse_geo_ready 1'',
     lit ''proxpulse_build_info{version='' @ [34] @ lit ''1.2.3'' @ [34] @ lit ''} 1'']"
  by (subst scrape_reads_counters)
    (simp_all add: counters_def metrics_default_def inc_def show_nat_def show_radix.simps digit_char_def str_eval)

end
