(* ===== verification/Geo_Pool.thy ===== *)
theory Geo_Pool
  imports Ip_Addr Float64 "HOL-Library.List_Lexorder"
begin

text \<open>
  The pool of local address databases (\<open>src/geo.rs\<close>): choosing a file per kind, the flexible
  decoding of records, the lookup with its fall-backs and error reports, validation and the
  attribution notices. The database reader and the JSON values it decodes to are libraries:
  the functions of \<open>geo_lib\<close>; the directory is the argument \<open>geo_fs\<close>.
\<close>

section \<open>Libraries and the directory\<close>

record ('r, 'l, 'v) geo_lib =
  reader_lookup :: "'r \<Rightarrow> ip_addr \<Rightarrow> ustr + 'l"
  has_data :: "'l \<Rightarrow> bool"
  decode :: "'l \<Rightarrow> ustr + 'v option"
  database_type :: "'r \<Rightarrow> ustr"
  reader_verify :: "'r \<Rightarrow> ustr + unit"
  json_get :: "'v \<Rightarrow> ustr \<Rightarrow> 'v option"
  json_str :: "'v \<Rightarrow> ustr option"
  json_f64 :: "'v \<Rightarrow> rat option"
  json_i64 :: "'v \<Rightarrow> int option"
  json_u64 :: "'v \<Rightarrow> nat option"
  json_null :: "'v \<Rightarrow> bool"
  json_object_len :: "'v \<Rightarrow> nat option"

text \<open>
  File names of one directory: which exist, what listing it yields (\<open>None\<close> for an unreadable
  directory; inside, \<open>None\<close> for an unreadable entry or a name that is not Unicode), and the
  database read from a file.
\<close>

record 'r geo_fs =
  file_exists :: "ustr \<Rightarrow> bool"
  dir_entries :: "ustr option list option"
  open_readfile :: "ustr \<Rightarrow> 'r option"

section \<open>Data\<close>

definition CITY_CANDIDATES :: "ustr list" where
  "CITY_CANDIDATES = [lit ''GeoLite2-City.mmdb'', lit ''dbip-city-lite.mmdb'']"

definition COUNTRY_CANDIDATES :: "ustr list" where
  "COUNTRY_CANDIDATES = [lit ''GeoLite2-Country.mmdb'', lit ''dbip-country-lite.mmdb'']"

definition ASN_CANDIDATES :: "ustr list" where
  "ASN_CANDIDATES = [lit ''GeoLite2-ASN.mmdb'', lit ''dbip-asn-lite.mmdb'']"

record geo_info =
  ip :: ustr
  error :: "ustr option"
  country :: "ustr option"
  country_code :: "ustr option"
  city :: "ustr option"
  latitude :: "rat option"
  longitude :: "rat option"
  asn :: "u32 option"
  aso :: "ustr option"

definition geo_info_default :: geo_info where
  "geo_info_default = \<lparr>ip = [], error = None, country = None, country_code = None, city = None,
     latitude = None, longitude = None, asn = None, aso = None\<rparr>"

definition has_any_field :: "geo_info \<Rightarrow> bool" where
  "has_any_field g \<longleftrightarrow> country g \<noteq> None \<or> country_code g \<noteq> None \<or> city g \<noteq> None \<or>
     latitude g \<noteq> None \<or> longitude g \<noteq> None \<or> asn g \<noteq> None \<or> aso g \<noteq> None"

record 'r geo_pool =
  city_db :: "'r option"
  country_db :: "'r option"
  asn_db :: "'r option"
  sources :: "(ustr \<times> ustr) list"

section \<open>Opening the databases\<close>

text \<open>\<open>Path::extension\<close> of a file name.\<close>

definition path_extension :: "ustr \<Rightarrow> ustr option" where
  "path_extension name =
     (case rsplit_once 46 name of
        None \<Rightarrow> None
      | Some (stem, ext) \<Rightarrow> if stem = [] then None else Some ext)"

definition db_pattern :: "ustr list \<Rightarrow> ustr" where
  "db_pattern names =
     (if str_contains (hd names) (lit ''City'') \<or> str_contains (hd names) (lit ''city'') then lit ''city''
      else if str_contains (hd names) (lit ''ASN'') \<or> str_contains (hd names) (lit ''asn'') then lit ''asn''
      else lit ''country'')"

definition db_candidates :: "'r geo_fs \<Rightarrow> ustr list \<Rightarrow> ustr list" where
  "db_candidates fs names =
     (let candidates = filter (file_exists fs) names;
          hits = (case dir_entries fs of
                    None \<Rightarrow> []
                  | Some entries \<Rightarrow>
                      sort (filter (\<lambda>p. path_extension p = Some (lit ''mmdb'') \<and>
                                        str_contains (to_ascii_lowercase p) (db_pattern names) \<and>
                                        p \<notin> set candidates)
                             (List.map_filter id entries)))
      in candidates @ hits)"

fun open_loop :: "('r, 'l, 'v) geo_lib \<Rightarrow> 'r geo_fs \<Rightarrow> ustr \<Rightarrow> ustr list \<Rightarrow> 'r option \<times> ustr option" where
  "open_loop lib fs pattern [] = (None, None)"
| "open_loop lib fs pattern (path # paths) =
     (case open_readfile fs path of
        None \<Rightarrow> open_loop lib fs pattern paths
      | Some r \<Rightarrow>
          if \<not> str_contains (to_ascii_lowercase (database_type lib r)) pattern then open_loop lib fs pattern paths
          else (Some r, Some path))"

definition open_first :: "('r, 'l, 'v) geo_lib \<Rightarrow> 'r geo_fs \<Rightarrow> ustr list \<Rightarrow> 'r option \<times> ustr option" where
  "open_first lib fs names = open_loop lib fs (db_pattern names) (db_candidates fs names)"

definition open_pool :: "('r, 'l, 'v) geo_lib \<Rightarrow> 'r geo_fs \<Rightarrow> 'r geo_pool" where
  "open_pool lib fs =
     (let (c, c_src) = open_first lib fs CITY_CANDIDATES;
          (n, n_src) = open_first lib fs COUNTRY_CANDIDATES;
          (a, a_src) = open_first lib fs ASN_CANDIDATES;
          s = [];
          s = (case c_src of Some f \<Rightarrow> map_insert (lit ''city'') f s | None \<Rightarrow> s);
          s = (case n_src of Some f \<Rightarrow> map_insert (lit ''country'') f s | None \<Rightarrow> s);
          s = (case a_src of Some f \<Rightarrow> map_insert (lit ''asn'') f s | None \<Rightarrow> s)
      in \<lparr>city_db = c, country_db = n, asn_db = a, sources = s\<rparr>)"

section \<open>Attribution\<close>

definition GEOLITE_NOTICE :: ustr where
  "GEOLITE_NOTICE = lit ''This product includes GeoLite2 Data created by MaxMind, available from https://www.maxmind.com''"

definition DBIP_NOTICE :: ustr where
  "DBIP_NOTICE = lit ''IP Geolocation by DB-IP (https://db-ip.com)''"

definition notice_of :: "ustr \<Rightarrow> ustr option" where
  "notice_of name =
     (if str_contains name (lit ''maxmind'') \<or> str_contains name (lit ''geolite'') \<or> str_contains name (lit ''geoip'')
      then Some GEOLITE_NOTICE
      else if str_contains name (lit ''dbip'') \<or> str_contains name (lit ''db-ip'') then Some DBIP_NOTICE
      else None)"

definition db_labels :: "('r, 'l, 'v) geo_lib \<Rightarrow> 'r geo_pool \<Rightarrow> ustr list" where
  "db_labels lib pool =
     map (\<lambda>p. to_ascii_lowercase (snd p)) (sources pool) @
     map (\<lambda>r. to_ascii_lowercase (database_type lib r))
       (List.map_filter id [city_db pool, country_db pool, asn_db pool])"

definition attributions :: "('r, 'l, 'v) geo_lib \<Rightarrow> 'r geo_pool \<Rightarrow> ustr list" where
  "attributions lib pool = remdups_adj (sort (List.map_filter notice_of (db_labels lib pool)))"

section \<open>Decoding records\<close>

text \<open>\<open>str::get\<close> along a path of keys, and \<open>find_map\<close> over several paths.\<close>

fun json_path :: "('r, 'l, 'v) geo_lib \<Rightarrow> 'v \<Rightarrow> ustr list \<Rightarrow> 'v option" where
  "json_path lib cur [] = Some cur"
| "json_path lib cur (k # ks) =
     (case json_get lib cur k of None \<Rightarrow> None | Some v \<Rightarrow> json_path lib v ks)"

fun find_map :: "('a \<Rightarrow> 'b option) \<Rightarrow> 'a list \<Rightarrow> 'b option" where
  "find_map f [] = None"
| "find_map f (x # xs) = (case f x of None \<Rightarrow> find_map f xs | Some y \<Rightarrow> Some y)"

definition get_str :: "('r, 'l, 'v) geo_lib \<Rightarrow> 'v \<Rightarrow> ustr list list \<Rightarrow> ustr option" where
  "get_str lib v paths =
     find_map (\<lambda>path.
       case json_path lib v path of
         None \<Rightarrow> None
       | Some cur \<Rightarrow> (case json_str lib cur of None \<Rightarrow> None | Some s \<Rightarrow> if s \<noteq> [] then Some s else None)) paths"

definition get_f64 :: "('r, 'l, 'v) geo_lib \<Rightarrow> 'v \<Rightarrow> ustr list list \<Rightarrow> rat option" where
  "get_f64 lib v paths =
     find_map (\<lambda>path.
       case json_path lib v path of
         None \<Rightarrow> None
       | Some cur \<Rightarrow> (case json_f64 lib cur of
                       Some x \<Rightarrow> Some x
                     | None \<Rightarrow> map_option (\<lambda>n. fl (of_int n)) (json_i64 lib cur))) paths"

definition get_u32 :: "('r, 'l, 'v) geo_lib \<Rightarrow> 'v \<Rightarrow> ustr list list \<Rightarrow> u32 option" where
  "get_u32 lib v paths =
     find_map (\<lambda>path.
       case json_path lib v path of
         None \<Rightarrow> None
       | Some cur \<Rightarrow>
           (case json_u64 lib cur of
              Some n \<Rightarrow> if n \<le> 2 ^ 32 - 1 then Some (of_nat n)
                        else (case json_i64 lib cur of
                                Some i \<Rightarrow> if 0 \<le> i \<and> i \<le> 2 ^ 32 - 1 then Some (of_int i) else None
                              | None \<Rightarrow> None)
            | None \<Rightarrow> (case json_i64 lib cur of
                         Some i \<Rightarrow> if 0 \<le> i \<and> i \<le> 2 ^ 32 - 1 then Some (of_int i) else None
                       | None \<Rightarrow> None))) paths"

definition is_empty_record :: "('r, 'l, 'v) geo_lib \<Rightarrow> 'v \<Rightarrow> bool" where
  "is_empty_record lib v \<longleftrightarrow> json_null lib v \<or> json_object_len lib v = Some 0"

definition or_else :: "'a option \<Rightarrow> 'a option \<Rightarrow> 'a option" where
  "or_else x y = (case x of None \<Rightarrow> y | Some _ \<Rightarrow> x)"

definition country_paths :: "ustr list list" where
  "country_paths = map (map lit) [[''country'', ''names'', ''en''], [''registered_country'', ''names'', ''en''], [''country'']]"

definition country_code_paths :: "ustr list list" where
  "country_code_paths = map (map lit) [[''country'', ''iso_code''], [''registered_country'', ''iso_code''],
     [''country_code''], [''countryCode'']]"

definition city_paths :: "ustr list list" where
  "city_paths = map (map lit) [[''city'', ''names'', ''en''], [''city'']]"

definition latitude_paths :: "ustr list list" where
  "latitude_paths = map (map lit) [[''location'', ''latitude''], [''latitude''], [''lat'']]"

definition longitude_paths :: "ustr list list" where
  "longitude_paths = map (map lit) [[''location'', ''longitude''], [''longitude''], [''lon''], [''lng'']]"

definition aso_paths :: "ustr list list" where
  "aso_paths = map (map lit) [[''autonomous_system_organization''], [''aso''], [''organization''], [''org'']]"

definition asn_paths :: "ustr list list" where
  "asn_paths = map (map lit) [[''autonomous_system_number''], [''asn'']]"

definition apply_city :: "('r, 'l, 'v) geo_lib \<Rightarrow> 'v \<Rightarrow> geo_info \<Rightarrow> geo_info" where
  "apply_city lib v out =
     (let out = (if country out = None then out\<lparr>country := get_str lib v country_paths\<rparr> else out);
          out = (if country_code out = None then out\<lparr>country_code := get_str lib v country_code_paths\<rparr> else out);
          out = (if city out = None then out\<lparr>city := get_str lib v city_paths\<rparr> else out);
          out = (if latitude out = None then out\<lparr>latitude := get_f64 lib v latitude_paths\<rparr> else out);
          out = (if longitude out = None then out\<lparr>longitude := get_f64 lib v longitude_paths\<rparr> else out);
          out = (if aso out = None then out\<lparr>aso := get_str lib v aso_paths\<rparr> else out);
          out = (if asn out = None then out\<lparr>asn := get_u32 lib v asn_paths\<rparr> else out)
      in out)"

definition apply_asn :: "('r, 'l, 'v) geo_lib \<Rightarrow> 'v \<Rightarrow> geo_info \<Rightarrow> geo_info" where
  "apply_asn lib v out =
     (let out = (if asn out = None then out\<lparr>asn := get_u32 lib v asn_paths\<rparr> else out);
          out = (if aso out = None then out\<lparr>aso := get_str lib v aso_paths\<rparr> else out)
      in out)"

section \<open>Lookup\<close>

definition lookup_value :: "('r, 'l, 'v) geo_lib \<Rightarrow> 'r \<Rightarrow> ip_addr \<Rightarrow> ustr + 'v option" where
  "lookup_value lib reader addr =
     result_bind (reader_lookup lib reader addr) (\<lambda>res.
       if \<not> has_data lib res then Inr None else decode lib res)"

definition short_err :: "ustr \<Rightarrow> ustr" where
  "short_err e = take 80 e"

text \<open>The three \<open>match lookup_value\<close> blocks of the lookup, for one database.\<close>

definition apply_db ::
  "('r, 'l, 'v) geo_lib \<Rightarrow> ustr \<Rightarrow> ('v \<Rightarrow> geo_info \<Rightarrow> geo_info) \<Rightarrow> ip_addr \<Rightarrow> 'r \<Rightarrow> geo_info \<Rightarrow> geo_info" where
  "apply_db lib kind apply_rec addr reader out =
     (case lookup_value lib reader addr of
        Inr (Some v) \<Rightarrow> if \<not> is_empty_record lib v then apply_rec v out else out
      | Inr None \<Rightarrow> out
      | Inl e \<Rightarrow> out\<lparr>error := Some (kind @ lit '': '' @ short_err e)\<rparr>)"

definition geo_lookup :: "('r, 'l, 'v) geo_lib \<Rightarrow> 'r geo_pool \<Rightarrow> ustr \<Rightarrow> geo_info" where
  "geo_lookup lib pool ip_text =
     (case parse_ip ip_text of
        None \<Rightarrow> geo_info_default\<lparr>ip := ip_text, error := Some (lit ''invalid ip'')\<rparr>
      | Some a \<Rightarrow>
          (let addr = to_canonical a;
               out = geo_info_default\<lparr>ip := ip_text\<rparr>;
               out = (case city_db pool of
                        Some reader \<Rightarrow> apply_db lib (lit ''city'') (apply_city lib) addr reader out
                      | None \<Rightarrow> out);
               out = (if country out = None \<and> country_code out = None
                      then (case country_db pool of
                              Some reader \<Rightarrow> apply_db lib (lit ''country'') (apply_city lib) addr reader out
                            | None \<Rightarrow> out)
                      else out);
               out = (case asn_db pool of
                        Some reader \<Rightarrow> apply_db lib (lit ''asn'') (apply_asn lib) addr reader out
                      | None \<Rightarrow> out);
               found = has_any_field out;
               out = (if found then out\<lparr>error := None\<rparr> else out);
               out = (if \<not> found \<and> error out = None
                      then out\<lparr>error := Some (if sources pool = [] then lit ''no db'' else lit ''not found'')\<rparr>
                      else out)
           in out))"

section \<open>Validation\<close>

fun verify_loop :: "('r, 'l, 'v) geo_lib \<Rightarrow> bool \<Rightarrow> (ustr \<times> 'r option) list \<Rightarrow> ustr + bool" where
  "verify_loop lib found [] = Inr found"
| "verify_loop lib found ((kind, None) # rest) = verify_loop lib found rest"
| "verify_loop lib found ((kind, Some reader) # rest) =
     (case reader_verify lib reader of
        Inl e \<Rightarrow> Inl (kind @ lit '': '' @ short_err e)
      | Inr _ \<Rightarrow> verify_loop lib True rest)"

definition verify_pool :: "('r, 'l, 'v) geo_lib \<Rightarrow> 'r geo_pool \<Rightarrow> ustr + unit" where
  "verify_pool lib pool =
     result_bind (verify_loop lib False
       [(lit ''city'', city_db pool), (lit ''country'', country_db pool), (lit ''asn'', asn_db pool)])
       (\<lambda>found. if found then Inr () else Inl (lit ''no geo databases loaded''))"

section \<open>Which file is used\<close>

definition usable :: "('r, 'l, 'v) geo_lib \<Rightarrow> 'r geo_fs \<Rightarrow> ustr \<Rightarrow> ustr \<Rightarrow> bool" where
  "usable lib fs pattern f =
     (case open_readfile fs f of
        None \<Rightarrow> False
      | Some r \<Rightarrow> str_contains (to_ascii_lowercase (database_type lib r)) pattern)"

definition chosen_file :: "('r, 'l, 'v) geo_lib \<Rightarrow> 'r geo_fs \<Rightarrow> ustr list \<Rightarrow> ustr option" where
  "chosen_file lib fs names = find (usable lib fs (db_pattern names)) (db_candidates fs names)"

lemma open_loop_find:
  "open_loop lib fs pattern paths =
     (Option.bind (find (usable lib fs pattern) paths) (open_readfile fs), find (usable lib fs pattern) paths)"
  by (induction paths) (auto simp: usable_def split: option.split)

lemma open_first_chosen:
  "open_first lib fs names = (Option.bind (chosen_file lib fs names) (open_readfile fs), chosen_file lib fs names)"
  by (simp add: open_first_def open_loop_find chosen_file_def)

text \<open>
  For each kind the pool uses the first candidate file (the standard names first, then the
  other matching files of the directory in sorted order) that opens and whose own type says it
  is of that kind, and the recorded sources name exactly these files.
\<close>

theorem pool_uses_first_usable:
  "city_db (open_pool lib fs) = Option.bind (chosen_file lib fs CITY_CANDIDATES) (open_readfile fs) \<and>
   country_db (open_pool lib fs) = Option.bind (chosen_file lib fs COUNTRY_CANDIDATES) (open_readfile fs) \<and>
   asn_db (open_pool lib fs) = Option.bind (chosen_file lib fs ASN_CANDIDATES) (open_readfile fs) \<and>
   distinct_keys (sources (open_pool lib fs)) \<and>
   map_of (sources (open_pool lib fs)) =
     (\<lambda>k. if k = lit ''city'' then chosen_file lib fs CITY_CANDIDATES
          else if k = lit ''country'' then chosen_file lib fs COUNTRY_CANDIDATES
          else if k = lit ''asn'' then chosen_file lib fs ASN_CANDIDATES
          else None)"
proof -
  have "distinct_keys (sources (open_pool lib fs))"
    by (simp add: open_pool_def open_first_chosen Let_def distinct_keys_def map_insert_def split: option.split)
  moreover have "map_of (sources (open_pool lib fs)) =
     (\<lambda>k. if k = lit ''city'' then chosen_file lib fs CITY_CANDIDATES
          else if k = lit ''country'' then chosen_file lib fs COUNTRY_CANDIDATES
          else if k = lit ''asn'' then chosen_file lib fs ASN_CANDIDATES
          else None)"
    by (rule ext) (auto simp: open_pool_def open_first_chosen Let_def split: option.split)
  ultimately show ?thesis by (simp add: open_pool_def open_first_chosen Let_def)
qed

section \<open>Attributions\<close>

lemma sorted_distinct_adj: "sorted xs \<Longrightarrow> distinct_adj xs \<Longrightarrow> distinct xs"
proof (induction xs)
  case (Cons x xs)
  show ?case
  proof (cases xs)
    case (Cons y ys)
    with Cons.prems have "x < y" by (auto simp: distinct_adj_Cons order_less_le)
    moreover have "\<forall>z \<in> set xs. y \<le> z" using Cons.prems \<open>xs = y # ys\<close> by auto
    ultimately have "x \<notin> set xs" by force
    then show ?thesis using Cons.IH Cons.prems \<open>xs = y # ys\<close> by (simp add: distinct_adj_Cons)
  qed simp
qed simp

text \<open>
  The attribution notices are exactly those the file names and types of the loaded
  databases call for, each once and in sorted order, so they do not depend on the iteration
  order of the source map.
\<close>

theorem attributions_exact:
  "set (attributions lib pool) = {n. \<exists>l \<in> set (db_labels lib pool). notice_of l = Some n} \<and>
   sorted (attributions lib pool) \<and> distinct (attributions lib pool)"
  by (simp add: attributions_def set_map_filter sorted_distinct_adj)

section \<open>Which record fills a field\<close>

lemma or_else_simps [simp]: "or_else None y = y" "or_else (Some x) y = Some x" "or_else z None = z"
  by (simp_all add: or_else_def split: option.split)

lemma or_else_None: "or_else x y = None \<longleftrightarrow> x = None \<and> y = None"
  by (simp add: or_else_def split: option.split)

lemma apply_city_fields [simp]:
  "country (apply_city lib v out) = or_else (country out) (get_str lib v country_paths)"
  "country_code (apply_city lib v out) = or_else (country_code out) (get_str lib v country_code_paths)"
  "city (apply_city lib v out) = or_else (city out) (get_str lib v city_paths)"
  "latitude (apply_city lib v out) = or_else (latitude out) (get_f64 lib v latitude_paths)"
  "longitude (apply_city lib v out) = or_else (longitude out) (get_f64 lib v longitude_paths)"
  "aso (apply_city lib v out) = or_else (aso out) (get_str lib v aso_paths)"
  "asn (apply_city lib v out) = or_else (asn out) (get_u32 lib v asn_paths)"
  "ip (apply_city lib v out) = ip out" "error (apply_city lib v out) = error out"
  by (simp_all add: apply_city_def Let_def or_else_def split: option.split)

lemma apply_asn_fields [simp]:
  "country (apply_asn lib v out) = country out" "country_code (apply_asn lib v out) = country_code out"
  "city (apply_asn lib v out) = city out" "latitude (apply_asn lib v out) = latitude out"
  "longitude (apply_asn lib v out) = longitude out"
  "aso (apply_asn lib v out) = or_else (aso out) (get_str lib v aso_paths)"
  "asn (apply_asn lib v out) = or_else (asn out) (get_u32 lib v asn_paths)"
  "ip (apply_asn lib v out) = ip out" "error (apply_asn lib v out) = error out"
  by (simp_all add: apply_asn_def Let_def or_else_def split: option.split)

text \<open>The record a database contributes: found, decoded and not empty.\<close>

definition record_of :: "('r, 'l, 'v) geo_lib \<Rightarrow> 'r option \<Rightarrow> ip_addr \<Rightarrow> 'v option" where
  "record_of lib db addr =
     (case db of
        None \<Rightarrow> None
      | Some reader \<Rightarrow>
          (case lookup_value lib reader addr of
             Inr (Some v) \<Rightarrow> if is_empty_record lib v then None else Some v
           | _ \<Rightarrow> None))"

definition place_records :: "('r, 'l, 'v) geo_lib \<Rightarrow> 'r geo_pool \<Rightarrow> ip_addr \<Rightarrow> 'v list" where
  "place_records lib pool addr =
     (case record_of lib (city_db pool) addr of
        None \<Rightarrow> List.map_filter id [record_of lib (country_db pool) addr]
      | Some v \<Rightarrow>
          if get_str lib v country_paths = None \<and> get_str lib v country_code_paths = None
          then v # List.map_filter id [record_of lib (country_db pool) addr]
          else [v])"

lemma apply_db_option:
  "\<exists>e. (case db of Some reader \<Rightarrow> apply_db lib kind apply_rec addr reader out | None \<Rightarrow> out) =
     (case record_of lib db addr of None \<Rightarrow> out\<lparr>error := e\<rparr> | Some v \<Rightarrow> apply_rec v out)"
proof (cases db)
  case None
  then show ?thesis by (auto simp: record_of_def intro: exI [of _ "error out"])
next
  case (Some r)
  show ?thesis
  proof (cases "lookup_value lib r addr")
    case (Inl x)
    with Some show ?thesis by (auto simp: record_of_def apply_db_def)
  next
    case (Inr x)
    with Some show ?thesis
      by (auto simp: record_of_def apply_db_def intro: exI [of _ "error out"] split: option.split)
  qed
qed

lemma has_any_field_error [simp]: "has_any_field (g\<lparr>error := e\<rparr>) = has_any_field g"
  by (simp add: has_any_field_def)

lemma find_map_append: "find_map f (xs @ ys) = or_else (find_map f xs) (find_map f ys)"
  by (induction xs) (auto split: option.split)

lemma geo_lookup_out:
  assumes "parse_ip s = Some a"
  defines "out0 \<equiv> geo_info_default\<lparr>ip := s\<rparr>"
  obtains e1 e2 e3 e4 out1 out2 out3 where
    "out1 = (case record_of lib (city_db pool) (to_canonical a) of None \<Rightarrow> out0\<lparr>error := e1\<rparr> | Some v \<Rightarrow> apply_city lib v out0)"
    "out2 = (if country out1 = None \<and> country_code out1 = None
             then (case record_of lib (country_db pool) (to_canonical a) of None \<Rightarrow> out1\<lparr>error := e2\<rparr> | Some v \<Rightarrow> apply_city lib v out1)
             else out1)"
    "out3 = (case record_of lib (asn_db pool) (to_canonical a) of None \<Rightarrow> out2\<lparr>error := e3\<rparr> | Some v \<Rightarrow> apply_asn lib v out2)"
    "geo_lookup lib pool s = out3\<lparr>error := e4\<rparr>" "e4 = None \<longleftrightarrow> has_any_field out3"
proof -
  let ?a = "to_canonical a"
  define o1 where "o1 = (case city_db pool of Some r \<Rightarrow> apply_db lib (lit ''city'') (apply_city lib) ?a r out0 | None \<Rightarrow> out0)"
  define o2 where "o2 = (if country o1 = None \<and> country_code o1 = None
    then (case country_db pool of Some r \<Rightarrow> apply_db lib (lit ''country'') (apply_city lib) ?a r o1 | None \<Rightarrow> o1) else o1)"
  define o3 where "o3 = (case asn_db pool of Some r \<Rightarrow> apply_db lib (lit ''asn'') (apply_asn lib) ?a r o2 | None \<Rightarrow> o2)"
  obtain e1 where 1: "o1 = (case record_of lib (city_db pool) ?a of None \<Rightarrow> out0\<lparr>error := e1\<rparr> | Some v \<Rightarrow> apply_city lib v out0)"
    using apply_db_option unfolding o1_def by blast
  obtain e2 where 2: "o2 = (if country o1 = None \<and> country_code o1 = None
    then (case record_of lib (country_db pool) ?a of None \<Rightarrow> o1\<lparr>error := e2\<rparr> | Some v \<Rightarrow> apply_city lib v o1) else o1)"
    using apply_db_option [where db = "country_db pool"] unfolding o2_def by metis
  obtain e3 where 3: "o3 = (case record_of lib (asn_db pool) ?a of None \<Rightarrow> o2\<lparr>error := e3\<rparr> | Some v \<Rightarrow> apply_asn lib v o2)"
    using apply_db_option unfolding o3_def by blast
  have out: "geo_lookup lib pool s =
      (let found = has_any_field o3; r = (if found then o3\<lparr>error := None\<rparr> else o3)
       in if \<not> found \<and> error r = None
          then r\<lparr>error := Some (if sources pool = [] then lit ''no db'' else lit ''not found'')\<rparr> else r)"
    unfolding geo_lookup_def assms(1) option.case o3_def o2_def o1_def out0_def Let_def ..
  define e4 where "e4 = (if has_any_field o3 then None
       else if error o3 = None then Some (if sources pool = [] then lit ''no db'' else lit ''not found'')
       else error o3)"
  have "geo_lookup lib pool s = o3\<lparr>error := e4\<rparr>" "e4 = None \<longleftrightarrow> has_any_field o3"
    using out by (simp_all add: Let_def e4_def)
  with 1 2 3 that show thesis by blast
qed

text \<open>
  A looked-up address reports an error exactly when no field was found: a failing database
  never spoils an answer another one filled, and an answer without fields always says why.
\<close>

theorem lookup_error_iff: "error (geo_lookup lib pool s) = None \<longleftrightarrow> has_any_field (geo_lookup lib pool s)"
proof (cases "parse_ip s")
  case None
  then show ?thesis by (simp add: geo_lookup_def has_any_field_def geo_info_default_def)
next
  case (Some a)
  show ?thesis by (rule geo_lookup_out [OF Some, of lib pool]) auto
qed

text \<open>
  C30. Every field of an answer is the first value found in the records of the address: the
  place fields in the city record and then (only when that named no country) the country
  record, the network fields in these and then the ASN record.
\<close>

theorem lookup_fields:
  assumes "parse_ip s = Some a"
  shows "let g = geo_lookup lib pool s;
             places = place_records lib pool (to_canonical a);
             records = places @ List.map_filter id [record_of lib (asn_db pool) (to_canonical a)]
         in ip g = s \<and>
            country g = find_map (\<lambda>v. get_str lib v country_paths) places \<and>
            country_code g = find_map (\<lambda>v. get_str lib v country_code_paths) places \<and>
            city g = find_map (\<lambda>v. get_str lib v city_paths) places \<and>
            latitude g = find_map (\<lambda>v. get_f64 lib v latitude_paths) places \<and>
            longitude g = find_map (\<lambda>v. get_f64 lib v longitude_paths) places \<and>
            aso g = find_map (\<lambda>v. get_str lib v aso_paths) records \<and>
            asn g = find_map (\<lambda>v. get_u32 lib v asn_paths) records"
proof (rule geo_lookup_out [OF assms, of lib pool])
  let ?a = "to_canonical a"
  let ?city = "record_of lib (city_db pool) ?a" and ?country = "record_of lib (country_db pool) ?a"
    and ?asn = "record_of lib (asn_db pool) ?a"
  let ?out0 = "geo_info_default\<lparr>ip := s\<rparr>"
  fix e1 e2 e3 e4 out1 out2 out3
  assume 1: "out1 = (case ?city of None \<Rightarrow> ?out0\<lparr>error := e1\<rparr> | Some v \<Rightarrow> apply_city lib v ?out0)"
    and 2: "out2 = (if country out1 = None \<and> country_code out1 = None
             then (case ?country of None \<Rightarrow> out1\<lparr>error := e2\<rparr> | Some v \<Rightarrow> apply_city lib v out1) else out1)"
    and 3: "out3 = (case ?asn of None \<Rightarrow> out2\<lparr>error := e3\<rparr> | Some v \<Rightarrow> apply_asn lib v out2)"
    and 4: "geo_lookup lib pool s = out3\<lparr>error := e4\<rparr>"
  define cs where "cs = List.map_filter id [?city]"
  define places where "places = place_records lib pool ?a"
  define as where "as = List.map_filter id [?asn]"
  have empty: "country ?out0 = None" "country_code ?out0 = None" "city ?out0 = None" "latitude ?out0 = None"
    "longitude ?out0 = None" "aso ?out0 = None" "asn ?out0 = None" "ip ?out0 = s"
    by (simp_all add: geo_info_default_def)
  have f1: "country out1 = find_map (\<lambda>v. get_str lib v country_paths) cs"
    "country_code out1 = find_map (\<lambda>v. get_str lib v country_code_paths) cs"
    "city out1 = find_map (\<lambda>v. get_str lib v city_paths) cs"
    "latitude out1 = find_map (\<lambda>v. get_f64 lib v latitude_paths) cs"
    "longitude out1 = find_map (\<lambda>v. get_f64 lib v longitude_paths) cs"
    "aso out1 = find_map (\<lambda>v. get_str lib v aso_paths) cs"
    "asn out1 = find_map (\<lambda>v. get_u32 lib v asn_paths) cs" "ip out1 = s"
    using empty by (auto simp: 1 cs_def List.map_filter_simps split: option.split)
  have pl: "places = (if country out1 = None \<and> country_code out1 = None
      then cs @ List.map_filter id [?country] else cs)"
    using f1(1,2) by (auto simp: places_def place_records_def cs_def List.map_filter_simps split: option.splits)
  have f2: "country out2 = find_map (\<lambda>v. get_str lib v country_paths) places"
    "country_code out2 = find_map (\<lambda>v. get_str lib v country_code_paths) places"
    "city out2 = find_map (\<lambda>v. get_str lib v city_paths) places"
    "latitude out2 = find_map (\<lambda>v. get_f64 lib v latitude_paths) places"
    "longitude out2 = find_map (\<lambda>v. get_f64 lib v longitude_paths) places"
    "aso out2 = find_map (\<lambda>v. get_str lib v aso_paths) places"
    "asn out2 = find_map (\<lambda>v. get_u32 lib v asn_paths) places" "ip out2 = s"
    unfolding pl 2 by (cases ?country; simp add: f1 find_map_append List.map_filter_simps or_else_def split: option.split)+
  show ?thesis
    unfolding Let_def places_def [symmetric] as_def [symmetric] 4 3
    by (cases ?asn) (simp_all add: f2 find_map_append as_def List.map_filter_simps or_else_def split: option.split)
qed

text \<open>A small JSON and readers that hold one record or fail, to run the definitions on.\<close>

datatype demo_json = Demo_Str ustr | Demo_Num nat | Demo_Obj "(ustr \<times> demo_json) list"

fun demo_get :: "demo_json \<Rightarrow> ustr \<Rightarrow> demo_json option" where
  "demo_get (Demo_Obj m) k = map_of m k"
| "demo_get _ k = None"

fun demo_str :: "demo_json \<Rightarrow> ustr option" where
  "demo_str (Demo_Str s) = Some s"
| "demo_str _ = None"

fun demo_u64 :: "demo_json \<Rightarrow> nat option" where
  "demo_u64 (Demo_Num n) = Some n"
| "demo_u64 _ = None"

fun demo_len :: "demo_json \<Rightarrow> nat option" where
  "demo_len (Demo_Obj m) = Some (length m)"
| "demo_len _ = None"

definition demo_geo_lib :: "(ustr + demo_json, demo_json, demo_json) geo_lib" where
  "demo_geo_lib = \<lparr>reader_lookup = (\<lambda>r _. r), has_data = (\<lambda>_. True), decode = (\<lambda>v. Inr (Some v)),
     database_type = (\<lambda>_. lit ''City''), reader_verify = (\<lambda>r. map_sum id (\<lambda>_. ()) r),
     json_get = demo_get, json_str = demo_str, json_f64 = (\<lambda>v. map_option of_nat (demo_u64 v)),
     json_i64 = (\<lambda>_. None), json_u64 = demo_u64, json_null = (\<lambda>_. False), json_object_len = demo_len\<rparr>"

definition demo_pool :: "(ustr + demo_json) geo_pool" where
  "demo_pool = \<lparr>
     city_db = Some (Inl (lit ''broken file'')),
     country_db = Some (Inr (Demo_Obj [(lit ''country'', Demo_Obj [(lit ''iso_code'', Demo_Str (lit ''DE''))])])),
     asn_db = Some (Inr (Demo_Obj [(lit ''asn'', Demo_Num 3320), (lit ''org'', Demo_Str (lit ''Telekom''))])),
     sources = [(lit ''country'', lit ''dbip-country-lite.mmdb'')]\<rparr>"

theorem lookup_fields_witness:
  "country (geo_lookup demo_geo_lib demo_pool (lit ''8.8.8.8'')) = None \<and>
   country_code (geo_lookup demo_geo_lib demo_pool (lit ''8.8.8.8'')) = Some (lit ''DE'') \<and>
   asn (geo_lookup demo_geo_lib demo_pool (lit ''8.8.8.8'')) = Some 3320 \<and>
   aso (geo_lookup demo_geo_lib demo_pool (lit ''8.8.8.8'')) = Some (lit ''Telekom'')"
proof -
  have p: "parse_ip (lit ''8.8.8.8'') = Some (V4 (Ipv4Addr 8 8 8 8))" by (simp add: addr_eval str_eval)
  have r: "record_of demo_geo_lib (city_db demo_pool) a = None"
    "record_of demo_geo_lib (country_db demo_pool) a =
       Some (Demo_Obj [(lit ''country'', Demo_Obj [(lit ''iso_code'', Demo_Str (lit ''DE''))])])"
    "record_of demo_geo_lib (asn_db demo_pool) a =
       Some (Demo_Obj [(lit ''asn'', Demo_Num 3320), (lit ''org'', Demo_Str (lit ''Telekom''))])" for a
    by (simp_all add: record_of_def lookup_value_def is_empty_record_def demo_geo_lib_def demo_pool_def)
  have lib: "json_get demo_geo_lib = demo_get" "json_str demo_geo_lib = demo_str" "json_u64 demo_geo_lib = demo_u64"
    by (simp_all add: demo_geo_lib_def)
  have recs: "place_records demo_geo_lib demo_pool a =
      [Demo_Obj [(lit ''country'', Demo_Obj [(lit ''iso_code'', Demo_Str (lit ''DE''))])]]"
    "List.map_filter id [record_of demo_geo_lib (asn_db demo_pool) a] =
      [Demo_Obj [(lit ''asn'', Demo_Num 3320), (lit ''org'', Demo_Str (lit ''Telekom''))]]" for a
    by (simp_all add: place_records_def r List.map_filter_simps)
  note f = lookup_fields [OF p, of demo_geo_lib demo_pool, unfolded Let_def recs append.simps]
  show ?thesis
    using f by (simp add: get_str_def get_u32_def lib country_paths_def country_code_paths_def asn_paths_def aso_paths_def)
qed

end
