(* ===== verification/Ip_Classify.thy ===== *)
theory Ip_Classify
  imports Rust_Str
begin

text \<open>
  The heuristic network type of an address (\<open>classify_ip\<close> in \<open>src/logic.rs\<close>): keyword search
  on word boundaries in the organisation name and the reverse DNS name, and the priority of
  the rules. The Unicode table behind \<open>char::is_alphanumeric\<close> is the parameter \<open>ua\<close> for
  characters outside ASCII.
\<close>

section \<open>Keywords\<close>

definition HOSTING_KW :: "ustr list" where
  "HOSTING_KW = map lit [''hosting'', ''host'', ''cloud'', ''vps'', ''dedicated'', ''datacenter'',
     ''data center'', ''colocation'', ''servers'', ''cdn'', ''compute'', ''bare metal'', ''virtual'',
     ''hypervisor'']"

definition HOSTING_VENDORS :: "ustr list" where
  "HOSTING_VENDORS = map lit [''hetzner'', ''ovh'', ''digitalocean'', ''amazon'', ''aws'', ''google'',
     ''microsoft'', ''azure'', ''cloudflare'', ''contabo'', ''aeza'', ''scaleway'', ''vultr'', ''linode'',
     ''leaseweb'', ''selectel'', ''timeweb'', ''beget'', ''alibaba'', ''tencent'', ''oracle cloud'',
     ''ibm cloud'', ''yandex cloud'']"

definition MOBILE_KW :: "ustr list" where
  "MOBILE_KW = map lit [''mobile'', ''cellular'', ''wireless'', ''mobility'', ''gsm'', ''lte'', ''5g'']"

definition RESIDENTIAL_KW :: "ustr list" where
  "RESIDENTIAL_KW = map lit [''dynamic'', ''residential'', ''broadband'', ''dsl'', ''adsl'', ''vdsl'',
     ''cable'', ''fiber'', ''ftth'', ''fttb'', ''pool'', ''retail'', ''subscriber'']"

definition BUSINESS_KW :: "ustr list" where
  "BUSINESS_KW = map lit [''bank'', ''university'', ''government'', ''enterprise'', ''airline'', ''hotel'']"

section \<open>Word search\<close>

definition is_alphanumeric :: "(uchar \<Rightarrow> bool) \<Rightarrow> uchar \<Rightarrow> bool" where
  "is_alphanumeric ua c = (if c < 128 then is_ascii_alphanumeric c else ua c)"

definition contains_word :: "(uchar \<Rightarrow> bool) \<Rightarrow> ustr \<Rightarrow> ustr \<Rightarrow> bool" where
  "contains_word ua txt needle =
     (let needle = trim needle
      in if needle = [] then False
         else list_ex (match_on_boundary (is_alphanumeric ua) txt needle) (match_indices txt needle))"

definition keyword_hits :: "(uchar \<Rightarrow> bool) \<Rightarrow> ustr \<Rightarrow> ustr list \<Rightarrow> ustr list" where
  "keyword_hits ua txt keywords =
     (let t = to_ascii_lowercase txt in map trim (filter (contains_word ua t) keywords))"

section \<open>Classification\<close>

record type_signals =
  signal_org :: "ustr option"
  signal_rdns :: "ustr option"
  hosting_kw :: "ustr list"
  hosting_vendor :: "ustr list"
  mobile_kw :: "ustr list"
  residential_kw :: "ustr list"
  business_kw :: "ustr list"
  sig_note :: "ustr option"

definition vendor_hits :: "(uchar \<Rightarrow> bool) \<Rightarrow> ustr \<Rightarrow> ustr list" where
  "vendor_hits ua low =
     (let tokens = filter (\<lambda>t. t \<noteq> []) (split_on (\<lambda>c. \<not> is_alphanumeric ua c) low);
          google_fiber = contains_word ua low (lit ''google fiber'')
      in filter (\<lambda>v. if v = lit ''google'' \<and> google_fiber then False
                     else if 32 \<in> set v then contains_word ua low v
                     else v \<in> set tokens) HOSTING_VENDORS)"

definition classify_ip :: "(uchar \<Rightarrow> bool) \<Rightarrow> ustr option \<Rightarrow> ustr option \<Rightarrow> ustr \<times> type_signals" where
  "classify_ip ua org rdns =
     (let hay_org = (case org of None \<Rightarrow> [] | Some s \<Rightarrow> s);
          hay_all = hay_org @ 32 # (case rdns of None \<Rightarrow> [] | Some s \<Rightarrow> s);
          low = to_ascii_lowercase hay_org;
          google_fiber = contains_word ua low (lit ''google fiber'');
          signals = \<lparr>signal_org = org, signal_rdns = rdns,
            hosting_kw = keyword_hits ua hay_org HOSTING_KW,
            hosting_vendor = vendor_hits ua low,
            mobile_kw = keyword_hits ua hay_all MOBILE_KW,
            residential_kw = keyword_hits ua hay_all RESIDENTIAL_KW,
            business_kw = keyword_hits ua hay_org BUSINESS_KW,
            sig_note = None\<rparr>
      in if google_fiber then (lit ''residential'', signals\<lparr>sig_note := Some (lit ''google fiber: residential ISP'')\<rparr>)
         else if mobile_kw signals \<noteq> [] then (lit ''mobile'', signals)
         else if hosting_kw signals \<noteq> [] \<or> hosting_vendor signals \<noteq> [] then (lit ''datacenter'', signals)
         else if business_kw signals \<noteq> [] then (lit ''business'', signals)
         else if residential_kw signals \<noteq> [] then (lit ''residential'', signals)
         else if trim hay_org \<noteq> [] then (lit ''residential'', signals\<lparr>sig_note := Some (lit ''default: ordinary ISP'')\<rparr>)
         else (lit ''unknown'', signals))"

section \<open>Words\<close>

text \<open>The declarative reading: a word (or phrase) occurs with no alphanumeric neighbour.\<close>

definition mentions :: "(uchar \<Rightarrow> bool) \<Rightarrow> ustr \<Rightarrow> ustr \<Rightarrow> bool" where
  "mentions ua txt w \<longleftrightarrow> occurs_delimited (is_alphanumeric ua) (to_ascii_lowercase txt) w"

lemmas keyword_defs = HOSTING_KW_def HOSTING_VENDORS_def MOBILE_KW_def RESIDENTIAL_KW_def BUSINESS_KW_def

definition all_keywords :: "ustr list" where
  "all_keywords = lit ''google fiber'' # HOSTING_KW @ HOSTING_VENDORS @ MOBILE_KW @ RESIDENTIAL_KW @ BUSINESS_KW"

text \<open>
  Every keyword is a word, or two words of which the second does not start the phrase: there
  is nothing to trim, and it cannot overlap itself in a way the search for disjoint matches
  would miss.
\<close>

definition plain_word :: "ustr \<Rightarrow> bool" where
  "plain_word k \<longleftrightarrow> k \<noteq> [] \<and> list_all (\<lambda>c. c < 128 \<and> is_ascii_alphanumeric c) k"

definition plain_phrase :: "ustr \<Rightarrow> ustr \<Rightarrow> bool" where
  "plain_phrase a b \<longleftrightarrow> plain_word a \<and> plain_word b \<and> take (length b) (a @ 32 # b) \<noteq> b"

definition plain_keyword :: "ustr \<Rightarrow> bool" where
  "plain_keyword k \<longleftrightarrow>
     (case rsplit_once 32 k of None \<Rightarrow> plain_word k | Some (a, b) \<Rightarrow> plain_phrase a b)"

lemma all_keywords_plain: "list_all plain_keyword all_keywords"
  by (simp add: all_keywords_def keyword_defs plain_keyword_def plain_word_def plain_phrase_def str_eval)

lemma plain_keyword_cases:
  assumes "plain_keyword k"
  obtains (one) "plain_word k" | (two) a b where "plain_phrase a b" "k = a @ 32 # b"
  using assms rsplit_once_Some [of 32 k] by (auto simp: plain_keyword_def split: option.splits)

lemma trim_ends:
  assumes "k \<noteq> []" and "\<not> is_whitespace (hd k)" and "\<not> is_whitespace (last k)"
  shows "trim k = k"
proof -
  have "dropWhile is_whitespace k = k" using assms by (cases k) auto
  moreover have "dropWhile is_whitespace (rev k) = rev k" using assms by (cases k rule: rev_cases) auto
  ultimately show ?thesis by (simp add: trim_def trim_start_def trim_end_def)
qed

lemma alnum_no_ws: "is_ascii_alphanumeric c \<Longrightarrow> \<not> is_whitespace c"
  by (auto simp: is_ascii_alphanumeric_def is_whitespace_def is_ascii_digit_def)

lemma plain_word_ends:
  assumes "plain_word k"
  shows "k \<noteq> []" and "\<not> is_whitespace (hd k)" and "\<not> is_whitespace (last k)"
  using assms hd_in_set [of k] last_in_set [of k] alnum_no_ws by (auto simp: plain_word_def list_all_iff)

lemma plain_keyword_trim:
  assumes "plain_keyword k"
  shows "k \<noteq> [] \<and> trim k = k"
  using assms
proof (cases rule: plain_keyword_cases)
  case one
  then show ?thesis using plain_word_ends [of k] trim_ends [of k] by simp
next
  case (two a b)
  then have "plain_word a" "plain_word b" by (simp_all add: plain_phrase_def)
  then have "k \<noteq> []" "\<not> is_whitespace (hd k)" "\<not> is_whitespace (last k)"
    using two(2) plain_word_ends [of a] plain_word_ends [of b] by simp_all
  then show ?thesis by (simp add: trim_ends)
qed

lemma plain_word_alnum: "plain_word k \<Longrightarrow> c \<in> set k \<Longrightarrow> is_alphanumeric ua c"
  by (simp add: plain_word_def list_all_iff is_alphanumeric_def)

lemma plain_keyword_safe:
  assumes "plain_keyword k"
  shows "overlap_safe (is_alphanumeric ua) k"
  using assms
proof (cases rule: plain_keyword_cases)
  case one
  then show ?thesis by (intro overlap_safe_all) (rule plain_word_alnum)
next
  case (two a b)
  have "is_alphanumeric ua (k ! (i - 1))"
    if i: "1 \<le> i" "i < length k" and eq: "take (length k - i) k = drop i k" for i
  proof (cases "i = Suc (length a)")
    case True
    with eq two show ?thesis by (simp add: plain_phrase_def)
  next
    case False
    then have "k ! (i - 1) \<in> set a \<union> set b"
      using i two(2) by (auto simp: nth_append nth_Cons split: nat.split)
    then show ?thesis using two(1) plain_word_alnum by (auto simp: plain_phrase_def)
  qed
  then show ?thesis by (auto simp: overlap_safe_def list_all_iff)
qed

lemma contains_word_iff:
  assumes "plain_keyword k"
  shows "contains_word ua (to_ascii_lowercase txt) k \<longleftrightarrow> mentions ua txt k"
  using delimited_match_iff [OF plain_keyword_safe [OF assms]] plain_keyword_trim [OF assms]
  by (simp add: contains_word_def mentions_def Let_def)

lemma split_on_first:
  "split_on p s = w # ws \<Longrightarrow>
     (s = w \<and> ws = []) \<or> (\<exists>c t. s = w @ c # t \<and> p c \<and> ws = split_on p t)"
proof (induction s arbitrary: w ws)
  case (Cons x xs)
  obtain v vs where v: "split_on p xs = v # vs" by (cases "split_on p xs") auto
  show ?case
  proof (cases "p x")
    case True
    with Cons.prems show ?thesis by simp
  next
    case False
    then have "w = x # v" "ws = vs" using Cons.prems v by simp_all
    then show ?thesis using Cons.IH [OF v] by force
  qed
qed simp

lemma split_on_piece:
  assumes "w \<in> set (split_on p s)"
  shows "\<exists>a b. s = a @ w @ b \<and> (a = [] \<or> p (last a)) \<and> (b = [] \<or> p (hd b))"
  using assms
proof (induction s rule: length_induct)
  case (1 s)
  obtain v vs where v: "split_on p s = v # vs" by (cases "split_on p s") auto
  from split_on_first [OF v] show ?case
  proof (elim disjE exE conjE)
    assume "s = v" "vs = []"
    with 1 v show ?thesis by (intro exI [of _ "[]"]) simp
  next
    fix c t assume s: "s = v @ c # t" and c: "p c" and vs: "vs = split_on p t"
    show ?thesis
    proof (cases "w = v")
      case True
      with s c show ?thesis by (intro exI [of _ "[]"] exI [of _ "c # t"]) simp
    next
      case False
      with 1(2) v vs have "w \<in> set (split_on p t)" by simp
      moreover have "length t < length s" using s by simp
      ultimately have "\<exists>a b. t = a @ w @ b \<and> (a = [] \<or> p (last a)) \<and> (b = [] \<or> p (hd b))"
        using 1(1) by blast
      then obtain a b where ab: "t = a @ w @ b" "a = [] \<or> p (last a)" "b = [] \<or> p (hd b)"
        by blast
      have "s = (v @ c # a) @ w @ b" using s ab(1) by simp
      moreover have "p (last (v @ c # a))" using ab(2) c by (cases "a = []") simp_all
      ultimately show ?thesis using ab(3) by blast
    qed
  qed
qed

lemma token_iff:
  assumes "plain_word v"
  shows "v \<in> set (filter (\<lambda>t. t \<noteq> []) (split_on (\<lambda>c. \<not> is_alphanumeric ua c) low)) \<longleftrightarrow>
    occurs_delimited (is_alphanumeric ua) low v"
proof
  assume "v \<in> set (filter (\<lambda>t. t \<noteq> []) (split_on (\<lambda>c. \<not> is_alphanumeric ua c) low))"
  then show "occurs_delimited (is_alphanumeric ua) low v"
    using split_on_piece [of v "\<lambda>c. \<not> is_alphanumeric ua c" low] by (auto simp: occurs_delimited_def)
next
  assume "occurs_delimited (is_alphanumeric ua) low v"
  then obtain a b where "low = a @ v @ b" "a = [] \<or> \<not> is_alphanumeric ua (last a)"
    "b = [] \<or> \<not> is_alphanumeric ua (hd b)"
    by (auto simp: occurs_delimited_def)
  then have "v \<in> set (split_on (\<lambda>c. \<not> is_alphanumeric ua c) low)"
    using plain_word_alnum [OF assms] by (auto intro!: split_on_token)
  then show "v \<in> set (filter (\<lambda>t. t \<noteq> []) (split_on (\<lambda>c. \<not> is_alphanumeric ua c) low))"
    using assms by (simp add: plain_word_def)
qed

section \<open>What the classification decides\<close>

definition mentions_any :: "(uchar \<Rightarrow> bool) \<Rightarrow> ustr list \<Rightarrow> ustr option \<Rightarrow> bool" where
  "mentions_any ua ws x \<longleftrightarrow> list_ex (mentions ua (text_of x)) ws"

lemma keyword_hits_iff:
  assumes "list_all plain_keyword ws"
  shows "set (keyword_hits ua txt ws) = {k \<in> set ws. mentions ua txt k}"
  using assms plain_keyword_trim contains_word_iff
  by (force simp: keyword_hits_def Let_def list_all_iff image_iff)

lemma keyword_lists_plain:
  "list_all plain_keyword HOSTING_KW" "list_all plain_keyword MOBILE_KW"
  "list_all plain_keyword RESIDENTIAL_KW" "list_all plain_keyword BUSINESS_KW"
  "list_all plain_keyword HOSTING_VENDORS" "plain_keyword (lit ''google fiber'')"
  using all_keywords_plain by (simp_all add: all_keywords_def)

lemma single_word_lists: "list_all plain_word MOBILE_KW" "list_all plain_word RESIDENTIAL_KW"
  by (simp_all add: keyword_defs plain_word_def str_eval)

lemma plain_keyword_word: "plain_keyword k \<Longrightarrow> 32 \<notin> set k \<Longrightarrow> plain_word k"
  by (auto elim!: plain_keyword_cases)

lemma if_False_conj: "(if c then False else x) = (\<not> c \<and> x)"
  by simp

lemma vendor_hits_iff:
  "set (vendor_hits ua (to_ascii_lowercase s)) =
     {v \<in> set HOSTING_VENDORS. mentions ua s v \<and> \<not> (v = lit ''google'' \<and> mentions ua s (lit ''google fiber''))}"
proof -
  let ?low = "to_ascii_lowercase s"
  define found where "found v \<longleftrightarrow>
     (if 32 \<in> set v then contains_word ua ?low v
      else v \<in> set (filter (\<lambda>t. t \<noteq> []) (split_on (\<lambda>c. \<not> is_alphanumeric ua c) ?low)))" for v
  have "found v \<longleftrightarrow> mentions ua s v" if "v \<in> set HOSTING_VENDORS" for v
  proof -
    have p: "plain_keyword v" using keyword_lists_plain(5) that by (auto simp: list_all_iff)
    show ?thesis
    proof (cases "32 \<in> set v")
      case True
      then show ?thesis using contains_word_iff [OF p] by (simp add: found_def)
    next
      case False
      then show ?thesis using token_iff [OF plain_keyword_word [OF p]] by (simp add: found_def mentions_def)
    qed
  qed
  then have "{v \<in> set HOSTING_VENDORS. \<not> (v = lit ''google'' \<and> mentions ua s (lit ''google fiber'')) \<and> found v} =
      {v \<in> set HOSTING_VENDORS. mentions ua s v \<and> \<not> (v = lit ''google'' \<and> mentions ua s (lit ''google fiber''))}"
    by (intro Collect_cong) blast
  moreover have "set (vendor_hits ua ?low) =
      {v \<in> set HOSTING_VENDORS. \<not> (v = lit ''google'' \<and> contains_word ua ?low (lit ''google fiber'')) \<and> found v}"
    unfolding vendor_hits_def Let_def found_def by (simp only: set_filter if_False_conj)
  ultimately show ?thesis
    by (simp only: contains_word_iff [OF keyword_lists_plain(6)])
qed

lemma mentions_joined:
  assumes "plain_word k"
  shows "mentions ua (s @ 32 # t) k \<longleftrightarrow> mentions ua s k \<or> mentions ua t k"
proof -
  let ?p = "\<lambda>c. \<not> is_alphanumeric ua c"
  have "?p 32" by (simp add: is_alphanumeric_def is_ascii_alphanumeric_def is_ascii_digit_def)
  then have eq: "split_on ?p (to_ascii_lowercase (s @ 32 # t)) =
      split_on ?p (to_ascii_lowercase s) @ split_on ?p (to_ascii_lowercase t)"
    using split_on_append [of ?p 32 "to_ascii_lowercase s" "to_ascii_lowercase t"]
    by (simp add: to_ascii_lowercase_def ascii_lower_def)
  show ?thesis
    unfolding mentions_def token_iff [OF assms, symmetric] eq by (simp only: filter_append set_append Un_iff)
qed

lemma keyword_hits_joined:
  assumes "list_all plain_keyword ws" and "list_all plain_word ws"
  shows "set (keyword_hits ua (s @ 32 # t) ws) = {k \<in> set ws. mentions ua s k \<or> mentions ua t k}"
  using keyword_hits_iff [OF assms(1), of ua "s @ 32 # t"] assms(2) mentions_joined
  by (auto simp: list_all_iff)

lemmas classify_sets =
  keyword_hits_iff [OF keyword_lists_plain(1)] keyword_hits_iff [OF keyword_lists_plain(4)]
  keyword_hits_joined [OF keyword_lists_plain(2) single_word_lists(1)]
  keyword_hits_joined [OF keyword_lists_plain(3) single_word_lists(2)]
  vendor_hits_iff

lemma set_collect_empty: "set xs = {k \<in> set ws. P k} \<Longrightarrow> xs = [] \<longleftrightarrow> \<not> list_ex P ws"
  by (auto simp: list_ex_iff simp flip: set_empty)

lemma list_ex_disj: "list_ex (\<lambda>k. P k \<or> Q k) ws \<longleftrightarrow> list_ex P ws \<or> list_ex Q ws"
  by (auto simp: list_ex_iff)

lemmas classify_empty = classify_sets [THEN set_collect_empty]

lemma classify_snd:
  "\<exists>n. snd (classify_ip ua org rdns) =
    \<lparr>signal_org = org, signal_rdns = rdns,
     hosting_kw = keyword_hits ua (text_of org) HOSTING_KW,
     hosting_vendor = vendor_hits ua (to_ascii_lowercase (text_of org)),
     mobile_kw = keyword_hits ua (text_of org @ 32 # text_of rdns) MOBILE_KW,
     residential_kw = keyword_hits ua (text_of org @ 32 # text_of rdns) RESIDENTIAL_KW,
     business_kw = keyword_hits ua (text_of org) BUSINESS_KW, sig_note = n\<rparr>"
  unfolding classify_ip_def Let_def text_of_def [symmetric] by (auto intro: exI)

text \<open>
  The signals returned with the verdict are exactly the keywords that stand as whole
  words in the organisation name (for mobile and residential keywords, in the organisation
  name or in the reverse DNS name), in any letter case; only the vendor Google is left out of
  the vendors when the organisation is Google Fiber.
\<close>

theorem classify_signals:
  "let s = snd (classify_ip ua org rdns); m = mentions ua (text_of org); r = mentions ua (text_of rdns)
   in signal_org s = org \<and> signal_rdns s = rdns \<and>
      set (hosting_kw s) = {k \<in> set HOSTING_KW. m k} \<and>
      set (hosting_vendor s) = {v \<in> set HOSTING_VENDORS. m v \<and> \<not> (v = lit ''google'' \<and> m (lit ''google fiber''))} \<and>
      set (mobile_kw s) = {k \<in> set MOBILE_KW. m k \<or> r k} \<and>
      set (residential_kw s) = {k \<in> set RESIDENTIAL_KW. m k \<or> r k} \<and>
      set (business_kw s) = {k \<in> set BUSINESS_KW. m k}"
  using classify_snd [of ua org rdns] by (elim exE) (simp add: classify_sets Let_def)

lemma classify_fst:
  "fst (classify_ip ua org rdns) =
     (if mentions ua (text_of org) (lit ''google fiber'') then lit ''residential''
      else if mentions_any ua MOBILE_KW org \<or> mentions_any ua MOBILE_KW rdns then lit ''mobile''
      else if mentions_any ua HOSTING_KW org \<or> mentions_any ua HOSTING_VENDORS org then lit ''datacenter''
      else if mentions_any ua BUSINESS_KW org then lit ''business''
      else if mentions_any ua RESIDENTIAL_KW org \<or> mentions_any ua RESIDENTIAL_KW rdns then lit ''residential''
      else if trim (text_of org) \<noteq> [] then lit ''residential''
      else lit ''unknown'')"
  unfolding classify_ip_def Let_def text_of_def [symmetric] mentions_any_def
    contains_word_iff [OF keyword_lists_plain(6)]
  by (cases "mentions ua (text_of org) (lit ''google fiber'')") (simp_all add: classify_empty list_ex_disj)

text \<open>
  C31. The verdict is the first rule that applies: Google Fiber is residential, then mobile,
  hosting keywords or vendors, business, residential keywords; any other named organisation is
  residential, and only without a name and keyword the type is unknown.
\<close>

theorem classify_decision:
  "fst (classify_ip ua org rdns) =
     (if mentions ua (text_of org) (lit ''google fiber'') then lit ''residential''
      else if mentions_any ua MOBILE_KW org \<or> mentions_any ua MOBILE_KW rdns then lit ''mobile''
      else if mentions_any ua HOSTING_KW org \<or> mentions_any ua HOSTING_VENDORS org then lit ''datacenter''
      else if mentions_any ua BUSINESS_KW org then lit ''business''
      else if mentions_any ua RESIDENTIAL_KW org \<or> mentions_any ua RESIDENTIAL_KW rdns then lit ''residential''
      else if trim (text_of org) \<noteq> [] then lit ''residential''
      else lit ''unknown'')"
  by (rule classify_fst)

text \<open>
  A reverse DNS name alone never makes an address a datacenter or a business: it either
  leaves the verdict on the organisation unchanged or makes it mobile or residential.
\<close>

theorem rdns_cannot_accuse:
  "fst (classify_ip ua org rdns) \<in> {fst (classify_ip ua org None), lit ''mobile'', lit ''residential''}"
proof -
  have "\<not> mentions_any ua MOBILE_KW None" "\<not> mentions_any ua RESIDENTIAL_KW None"
    by (auto simp: mentions_any_def mentions_def occurs_delimited_def text_of_def list_ex_iff keyword_defs
        to_ascii_lowercase_def)
  then show ?thesis unfolding classify_fst by auto
qed

end
