(* ===== verification/Request_View.thy ===== *)
theory Request_View
  imports Anonymity Env_Config Rate_Limit Metrics_Text Geo_Pool Ip_Classify
begin

text \<open>
  The state shared by all requests and what the service derives from the headers of one
  request (the first half of \<open>src/app.rs\<close>): the client address, the view of the headers as
  the client side sent them, and the cached database lookup. A \<open>HeaderMap\<close> is the list of its
  lines, each a lower-case name and the bytes of the value.
\<close>

section \<open>Shared state\<close>

definition RDNS_MAX_CONCURRENT :: nat where
  "RDNS_MAX_CONCURRENT = 16"

definition MAX_CONCURRENCY :: nat where
  "MAX_CONCURRENCY = 512"

text \<open>
  Caches are maps, semaphores the number of free permits. Every field is shared by all
  requests; the configuration fields never change.
\<close>

record ('r, 'k) app_state =
  geo :: "'r geo_pool"
  geo_cache :: "ustr \<rightharpoonup> geo_info"
  ptr_cache :: "ustr \<rightharpoonup> ustr option"
  rdns_sem :: nat
  rate_limit :: rate_limit
  metrics :: metrics
  concurrency :: nat
  trust_proxy :: bool
  trust_cf :: bool
  rdns_timeout :: nat
  edge_headers :: "ustr list"
  metrics_token :: "ustr option"
  signer :: "'k signer"

definition app_state_new :: "'r geo_pool \<Rightarrow> 'k config \<Rightarrow> ('r, 'k) app_state" where
  "app_state_new pool cfg =
     \<lparr>geo = pool,
      geo_cache = Map.empty,
      ptr_cache = Map.empty,
      rdns_sem = RDNS_MAX_CONCURRENT,
      rate_limit = rate_limit_new (rate_per_minute cfg),
      metrics = metrics_default,
      concurrency = MAX_CONCURRENCY,
      trust_proxy = config.trust_proxy cfg,
      trust_cf = config.trust_cf cfg,
      rdns_timeout = config.rdns_timeout cfg,
      edge_headers = config.edge_headers cfg,
      metrics_token = config.metrics_token cfg,
      signer = config_signer cfg\<rparr>"

section \<open>Headers\<close>

type_synonym header_map = "(ustr \<times> u8 list) list"

definition header_values :: "header_map \<Rightarrow> ustr \<Rightarrow> u8 list list" where
  "header_values hs name = map snd (filter (\<lambda>l. fst l = name) hs)"

definition joined_header :: "header_map \<Rightarrow> ustr \<Rightarrow> ustr option" where
  "joined_header hs name =
     (case header_values hs name of
        [] \<Rightarrow> None
      | first # rest \<Rightarrow>
          Some (foldl (\<lambda>out v. out @ lit '', '' @ from_utf8_lossy v) (from_utf8_lossy first) rest))"

text \<open>\<open>HeaderMap::keys\<close> yields every name once.\<close>

definition headers_lower :: "header_map \<Rightarrow> (ustr \<times> ustr) list" where
  "headers_lower hs =
     List.map_filter (\<lambda>name. map_option (\<lambda>v. (to_ascii_lowercase name, v)) (joined_header hs name))
       (remdups (map fst hs))"

text \<open>A \<open>SocketAddr\<close> is its address and port.\<close>

type_synonym socket_addr = "ip_addr \<times> u16"

definition self_ip :: "('r, 'k) app_state \<Rightarrow> header_map \<Rightarrow> socket_addr option \<Rightarrow> ustr" where
  "self_ip s hs conn =
     (let cf = joined_header hs (lit ''cf-connecting-ip'');
          xff = joined_header hs (lit ''x-forwarded-for'');
          sock = map_option (\<lambda>a. show_ip (fst a)) conn
      in client_ip cf xff (case sock of Some a \<Rightarrow> a | None \<Rightarrow> lit ''127.0.0.1'')
           (trust_proxy s) (trust_cf s))"

definition proxy_view ::
  "('r, 'k) app_state \<Rightarrow> header_map \<Rightarrow> ustr \<Rightarrow> (ustr \<times> ustr) list \<times> ustr list" where
  "proxy_view s hs me =
     (let view = headers_lower hs;
          pre_edge = pre_edge_xff (map_of view (lit ''x-forwarded-for'')) me (trust_proxy s) (trust_cf s)
            (map_of view (lit ''cf-connecting-ip''));
          chain = normalize_chain pre_edge;
          view = (if trust_proxy s
                  then (let view = filter (\<lambda>l. fst l \<notin> set (edge_headers s)) view
                        in if pre_edge = [] then map_remove (lit ''x-forwarded-for'') view
                           else map_insert (lit ''x-forwarded-for'') (join (lit '', '') pre_edge) view)
                  else view)
      in (view, chain))"

section \<open>Cached lookups\<close>

definition geo_cached ::
  "('r, 'l, 'v) geo_lib \<Rightarrow> ((ustr \<rightharpoonup> geo_info) \<Rightarrow> (ustr \<rightharpoonup> geo_info)) \<Rightarrow>
     ('r, 'k) app_state \<Rightarrow> ustr \<Rightarrow> ('r, 'k) app_state \<times> geo_info" where
  "geo_cached lib evict s addr =
     (let m = evict (geo_cache s)
      in case m addr of
           Some g \<Rightarrow> (s\<lparr>geo_cache := m\<rparr>, g)
         | None \<Rightarrow> (let g = geo_lookup lib (geo s) addr in (s\<lparr>geo_cache := m(addr \<mapsto> g)\<rparr>, g)))"

section \<open>Facts about the headers\<close>

text \<open>The names of a \<open>HeaderMap\<close> are lower-case.\<close>

definition header_map_ok :: "header_map \<Rightarrow> bool" where
  "header_map_ok hs \<longleftrightarrow> list_all (\<lambda>l. to_ascii_lowercase (fst l) = fst l) hs"

lemma header_values_Nil: "header_values hs name = [] \<longleftrightarrow> name \<notin> set (map fst hs)"
  by (auto simp: header_values_def filter_empty_conv)

lemma joined_header_None: "joined_header hs name = None \<longleftrightarrow> name \<notin> set (map fst hs)"
  by (simp add: joined_header_def header_values_Nil [symmetric] split: list.split del: set_map)

lemma join_first: "join sep ((w @ x) # ys) = w @ join sep (x # ys)"
  by (cases ys) simp_all

lemma foldl_join: "foldl (\<lambda>out v. out @ sep @ f v) w vs = join sep (w # map f vs)"
  by (induction vs arbitrary: w) (simp_all add: join_first)

lemma joined_header_join:
  "joined_header hs name =
     (if header_values hs name = [] then None
      else Some (join (lit '', '') (map from_utf8_lossy (header_values hs name))))"
  by (simp add: joined_header_def foldl_join split: list.split)

lemma map_filter_eq_map: "(\<And>x. x \<in> set xs \<Longrightarrow> f x = Some (g x)) \<Longrightarrow> List.map_filter f xs = map g xs"
  by (induction xs) (simp_all add: List.map_filter_simps)

lemma headers_lower_eq:
  assumes "header_map_ok hs"
  shows "headers_lower hs = map (\<lambda>name. (name, the (joined_header hs name))) (remdups (map fst hs))"
  unfolding headers_lower_def
proof (rule map_filter_eq_map)
  fix name assume name: "name \<in> set (remdups (map fst hs))"
  then have "joined_header hs name \<noteq> None" by (simp add: joined_header_None)
  moreover have "to_ascii_lowercase name = name"
    using name assms by (auto simp: header_map_ok_def list_all_iff)
  ultimately show "map_option (\<lambda>v. (to_ascii_lowercase name, v)) (joined_header hs name) =
      Some (name, the (joined_header hs name))"
    by auto
qed

lemma distinct_headers_lower: "header_map_ok hs \<Longrightarrow> distinct_keys (headers_lower hs)"
  by (simp add: headers_lower_eq distinct_keys_def comp_def)

lemma map_of_keys: "map_of (map (\<lambda>k. (k, f k)) ks) k = (if k \<in> set ks then Some (f k) else None)"
  by (induction ks) auto

lemma map_of_headers_lower:
  assumes "header_map_ok hs"
  shows "map_of (headers_lower hs) = joined_header hs"
proof
  fix name
  show "map_of (headers_lower hs) name = joined_header hs name"
    using joined_header_None [of hs name]
    by (cases "joined_header hs name") (auto simp: headers_lower_eq [OF assms] map_of_keys simp del: set_map)
qed

text \<open>The entries and the view, in terms of the header lines.\<close>

definition pre_edge_entries :: "('r, 'k) app_state \<Rightarrow> header_map \<Rightarrow> ustr \<Rightarrow> ustr list" where
  "pre_edge_entries s hs me =
     pre_edge_xff (joined_header hs (lit ''x-forwarded-for'')) me (trust_proxy s) (trust_cf s)
       (joined_header hs (lit ''cf-connecting-ip''))"

lemma proxy_view_chain: "header_map_ok hs \<Longrightarrow> snd (proxy_view s hs me) = normalize_chain (pre_edge_entries s hs me)"
  by (simp add: proxy_view_def Let_def map_of_headers_lower pre_edge_entries_def)

lemma proxy_view_distinct: "header_map_ok hs \<Longrightarrow> distinct_keys (fst (proxy_view s hs me))"
  by (simp add: proxy_view_def Let_def distinct_headers_lower)

lemma proxy_view_lookup:
  assumes "header_map_ok hs"
  shows "map_of (fst (proxy_view s hs me)) name =
    (if \<not> trust_proxy s then joined_header hs name
     else if name = lit ''x-forwarded-for''
       then (case pre_edge_entries s hs me of [] \<Rightarrow> None | es \<Rightarrow> Some (join (lit '', '') es))
     else if name \<in> set (edge_headers s) then None
     else joined_header hs name)"
  using map_of_filter_key [where Q = "\<lambda>k. k \<notin> set (edge_headers s)" and m = "headers_lower hs"]
  by (simp add: proxy_view_def Let_def map_of_headers_lower [OF assms] pre_edge_entries_def split: list.split)

section \<open>The client address\<close>

lemma clean_host_show_mapped:
  assumes "to_ipv4_mapped v = Some d"
  shows "clean_host (show_ip (V6 v)) = show_ip (V6 v)"
proof -
  have s: "show_ip (V6 v) = lit ''::ffff:'' @ show_ipv4 d" using assms by (simp add: show_ipv6_def)
  have no_colon: "58 \<notin> set (show_ipv4 d)"
    using show_ipv4_chars [of 58 d] by (auto simp: is_ipv4_char_def is_ascii_digit_def)
  have "strip_prefix [91] (show_ip (V6 v)) = None" unfolding s by (simp add: str_eval)
  moreover have "rsplit_once 58 (show_ip (V6 v)) = Some (lit ''::ffff'', show_ipv4 d)"
    using no_colon rsplit_once_None [of 58 "show_ipv4 d"] unfolding s by (simp add: str_eval)
  moreover have "\<not> list_all (\<lambda>c. is_ascii_digit c \<or> c = 46) (lit ''::ffff'')"
    by (simp add: str_eval)
  ultimately show ?thesis using trim_show_ip [of "V6 v"] by (simp add: clean_host_def Let_def)
qed

lemma clean_host_show_ip: "clean_host (show_ip a) = show_ip a"
proof (cases "to_canonical a = a")
  case True
  then show ?thesis using clean_host_show [of a] by simp
next
  case False
  then obtain v d where "a = V6 v" "to_ipv4_mapped v = Some d"
    by (cases a) (auto split: option.splits)
  then show ?thesis using clean_host_show_mapped by blast
qed

lemma normalize_host_show: "normalize_host (show_ip a) = Some (show_ip (to_canonical a))"
  by (simp add: normalize_host_def clean_host_show_ip parse_show_ip)

text \<open>
  Whatever the headers and the peer, the client address of a request is the text of a
  canonical address: it parses, and it never has two spellings.
\<close>

theorem self_ip_is_address: "\<exists>a. self_ip s hs conn = show_ip (to_canonical a)"
proof -
  have local: "normalize_host (lit ''127.0.0.1'') = Some (lit ''127.0.0.1'')"
    by (simp add: host_eval addr_eval str_eval)
  have "normalize_host (case map_option (\<lambda>a. show_ip (fst a)) conn of Some a \<Rightarrow> a | None \<Rightarrow> lit ''127.0.0.1'') \<noteq> None"
    by (cases conn) (simp_all add: local normalize_host_show)
  then have "normalize_host (self_ip s hs conn) = Some (self_ip s hs conn)"
    unfolding self_ip_def Let_def by (rule client_ip_canonical)
  then show ?thesis by (auto elim: normalize_host_SomeE)
qed

section \<open>The forwarded entries of the view\<close>

lemma split_xff_no_comma: "e \<in> set (split_xff v) \<Longrightarrow> 44 \<notin> set e"
  using set_trim_subset by (cases v) (fastforce simp: split_xff_def dest: split_on_chars)+

lemma split_xff_space [simp]: "split_xff (Some (32 # s)) = split_xff (Some s)"
  by (cases "split_on (\<lambda>c. c = 44) s") (simp_all add: split_xff_def)

lemma split_xff_join:
  "list_all (\<lambda>e. e \<noteq> [] \<and> trim e = e \<and> 44 \<notin> set e) es \<Longrightarrow> es \<noteq> [] \<Longrightarrow>
     split_xff (Some (join (lit '', '') es)) = es"
proof (induction es)
  case (Cons e es)
  have e: "split_xff (Some e) = [e]" using Cons.prems by (simp add: split_xff_single)
  show ?case
  proof (cases es)
    case Nil
    with e show ?thesis by simp
  next
    case (Cons f fs)
    then have "join (lit '', '') (e # es) = e @ 44 # 32 # join (lit '', '') es" by (simp add: str_eval)
    then show ?thesis using Cons.IH Cons.prems e \<open>es = f # fs\<close> by (simp add: split_xff_append)
  qed
qed simp

lemma pre_edge_entries_ok: "list_all (\<lambda>e. e \<noteq> [] \<and> trim e = e \<and> 44 \<notin> set e) (pre_edge_entries s hs me)"
proof -
  have "set (pre_edge_entries s hs me) \<subseteq> set (split_xff (joined_header hs (lit ''x-forwarded-for'')))"
    unfolding pre_edge_entries_def using list_emb_set [OF pre_edge_subseq] by blast
  then show ?thesis using split_xff_trimmed split_xff_no_comma by (force simp: list_all_iff)
qed

lemma view_entries:
  assumes "header_map_ok hs"
  shows "forwarded_entries (fst (proxy_view s hs me)) = pre_edge_entries s hs me"
proof (cases "trust_proxy s")
  case True
  then show ?thesis
    using split_xff_join [OF pre_edge_entries_ok [of s hs me]]
    by (cases "pre_edge_entries s hs me")
      (simp_all add: forwarded_entries_def proxy_view_lookup [OF assms] del: join.simps)
next
  case False
  then show ?thesis
    by (simp add: forwarded_entries_def proxy_view_lookup [OF assms] pre_edge_entries_def pre_edge_untrusted)
qed

text \<open>
  C26. The view the client sees and the analysis reads: behind a trusted proxy every header
  except \<open>x-forwarded-for\<close> and the operator's own headers is kept with all its values joined,
  and the forwarded entries left in it are exactly those that came before the edge, which also
  make up the returned chain; without a trusted proxy the view is the request's headers.
\<close>

theorem view_is_what_the_client_sent:
  assumes "header_map_ok hs"
  shows "distinct_keys (fst (proxy_view s hs me)) \<and>
    forwarded_entries (fst (proxy_view s hs me)) = pre_edge_entries s hs me \<and>
    snd (proxy_view s hs me) = normalize_chain (pre_edge_entries s hs me) \<and>
    (if name = lit ''x-forwarded-for'' then True
     else map_of (fst (proxy_view s hs me)) name =
       (if trust_proxy s \<and> name \<in> set (edge_headers s) then None else joined_header hs name))"
  using view_entries [OF assms, of s me] proxy_view_distinct [OF assms, of s me]
    proxy_view_chain [OF assms, of s me] proxy_view_lookup [OF assms, of s me name] by simp

section \<open>Verdicts from end to end\<close>

lemma header_values_filter:
  "filter (\<lambda>l. fst l \<notin> E) hs = filter (\<lambda>l. fst l \<notin> E) hs' \<Longrightarrow> n \<notin> E \<Longrightarrow> header_values hs n = header_values hs' n"
proof -
  assume eq: "filter (\<lambda>l. fst l \<notin> E) hs = filter (\<lambda>l. fst l \<notin> E) hs'" and n: "n \<notin> E"
  have "filter (\<lambda>l. fst l = n) hs = filter (\<lambda>l. fst l = n) (filter (\<lambda>l. fst l \<notin> E) hs)" for hs :: header_map
    using n by (auto intro: filter_cong)
  then show ?thesis unfolding header_values_def by (metis eq)
qed

text \<open>
  C25. What the operator's own reverse proxy adds is never held against the client: with a trusted
  reverse proxy, two requests that differ only in \<open>EDGE_HEADERS\<close> have the same address, the same
  chain, the same view and the same verdict, unless the operator lists a header there that the
  service reads the client address from: \<open>X-Forwarded-For\<close>, or with \<open>TRUST_CF\<close> also
  \<open>CF-Connecting-IP\<close>.
\<close>

theorem edge_headers_are_ignored:
  assumes "header_map_ok hs" and "header_map_ok hs'" and "trust_proxy s"
    and "filter (\<lambda>l. fst l \<notin> set (edge_headers s)) hs = filter (\<lambda>l. fst l \<notin> set (edge_headers s)) hs'"
    and "lit ''x-forwarded-for'' \<notin> set (edge_headers s)"
    and "trust_cf s \<Longrightarrow> lit ''cf-connecting-ip'' \<notin> set (edge_headers s)"
  shows "self_ip s hs conn = self_ip s hs' conn \<and>
    snd (proxy_view s hs me) = snd (proxy_view s hs' me) \<and>
    map_of (fst (proxy_view s hs me)) = map_of (fst (proxy_view s hs' me)) \<and>
    anonymity_level (fst (proxy_view s hs me)) direct tc = anonymity_level (fst (proxy_view s hs' me)) direct tc"
proof -
  have joined: "joined_header hs n = joined_header hs' n" if "n \<notin> set (edge_headers s)" for n
    using header_values_filter [OF assms(4) that] by (simp add: joined_header_def)
  then have entries: "pre_edge_entries s hs me = pre_edge_entries s hs' me"
    using assms(5,6) by (cases "trust_cf s") (simp_all add: pre_edge_entries_def pre_edge_xff_def)
  have view: "map_of (fst (proxy_view s hs me)) = map_of (fst (proxy_view s hs' me))"
    by (rule ext) (simp add: proxy_view_lookup assms(1-3) entries joined)
  then have "anonymity_level (fst (proxy_view s hs me)) direct tc = anonymity_level (fst (proxy_view s hs' me)) direct tc"
    by (intro anonymity_level_cong proxy_view_distinct assms)
  then show ?thesis
    using view entries joined assms(1,2,5,6)
    by (cases "trust_cf s") (simp_all add: self_ip_def proxy_view_chain client_ip_def)
qed

lemma exit_address:
  assumes "trust_proxy s" and "\<not> trust_cf s"
    and "joined_header hs (lit ''x-forwarded-for'') = Some (client_part @ 44 # exit)"
    and "normalize_host exit = Some t" and "44 \<notin> set exit"
  shows "self_ip s hs conn = t \<and> pre_edge_entries s hs t = split_xff (Some client_part)"
proof -
  obtain a where "t = show_ip (to_canonical a)" using assms(4) by (rule normalize_host_SomeE)
  then show ?thesis
    using assms client_ip_last_hop(2) [OF assms(4,5)] pre_edge_direct [of t a False _ exit client_part]
    by (simp add: self_ip_def Let_def pre_edge_entries_def)
qed

text \<open>
  C3. From end to end, behind a trusted reverse proxy: the address judged is the last hop, and
  if the checked proxy passed on an \<open>X-Forwarded-For\<close> entry that denotes the caller's own
  address in any spelling, the verdict is \<open>transparent\<close>.
\<close>

theorem leaking_proxy_is_transparent:
  assumes "header_map_ok hs" and "trust_proxy s" and "\<not> trust_cf s"
    and "joined_header hs (lit ''x-forwarded-for'') = Some (client_part @ 44 # exit)"
    and "normalize_host exit = Some t" and "44 \<notin> set exit"
    and "e \<in> set (split_xff (Some client_part))" and "denotes e d" and "direct_addr direct = Some d"
  shows "self_ip s hs conn = t \<and>
    anonymity_level (fst (proxy_view s hs (self_ip s hs conn))) direct (trust_cf s) = lit ''transparent''"
proof -
  note exit = exit_address [OF assms(2-6), of conn]
  have "forwarded_entries (fst (proxy_view s hs t)) = split_xff (Some client_part)"
    using view_entries [OF assms(1), of s t] exit by simp
  then have "leaks (fst (proxy_view s hs t)) (trust_cf s) d"
    using assms(7,8) by (auto simp: leaks_def)
  then show ?thesis using exit assms(9) by (auto simp: transparent_iff)
qed

text \<open>
  C21. Conversely an honest elite proxy is recognised, and nothing else is taken for one. Behind a
  trusted reverse proxy, without \<open>TRUST_CF\<close>, if the only forwarded entry is the one the reverse
  proxy appended, that entry is the address judged, and the verdict is \<open>elite\<close> exactly when of the
  other headers, those of the operator's own reverse proxy excepted, none has a name that betrays a
  proxy and none outside the infrastructure has a value that contains the caller's address.
\<close>

theorem hiding_proxy_is_elite:
  assumes "header_map_ok hs" and "trust_proxy s" and "\<not> trust_cf s"
    and "joined_header hs (lit ''x-forwarded-for'') = Some exit"
    and "normalize_host exit = Some t" and "44 \<notin> set exit"
  shows "self_ip s hs conn = t \<and>
    (anonymity_level (fst (proxy_view s hs (self_ip s hs conn))) direct (trust_cf s) = lit ''elite'' \<longleftrightarrow>
       (\<forall>n v. n \<notin> set (edge_headers s) \<and> n \<noteq> lit ''x-forwarded-for'' \<and> joined_header hs n = Some v \<longrightarrow>
          \<not> is_telltale n False \<and>
          (is_infra n False \<or> (\<forall>d. direct_addr direct = Some d \<longrightarrow> \<not> ip_in_text v d))))"
proof -
  obtain a where t: "t = show_ip (to_canonical a)" using assms(5) by (rule normalize_host_SomeE)
  have "trim exit \<noteq> []" using assms(5) normalize_host_blank by fastforce
  then have single: "split_xff (Some exit) = [trim exit]" using assms(6) by (simp add: split_xff_single)
  have me: "self_ip s hs conn = t"
    using assms(2-5) single by (simp add: self_ip_def Let_def client_ip_def)
  have pre: "pre_edge_entries s hs t = []"
    using assms(2-5) single t by (simp add: pre_edge_entries_def pre_edge_xff_def Let_def)
  let ?view = "fst (proxy_view s hs t)"
  have lookup: "map_of ?view n = (if n = lit ''x-forwarded-for'' \<or> n \<in> set (edge_headers s) then None else joined_header hs n)" for n
    using proxy_view_lookup [OF assms(1), of s t n] assms(2) pre by simp
  define sent where "sent n v \<longleftrightarrow>
    n \<notin> set (edge_headers s) \<and> n \<noteq> lit ''x-forwarded-for'' \<and> joined_header hs n = Some v" for n v
  have member: "(n, v) \<in> set ?view \<longleftrightarrow> sent n v" for n v
    using in_set_iff_map_of [OF proxy_view_distinct [OF assms(1)], of n v s t] lookup [of n]
    by (auto simp: sent_def split: if_splits)
  have "forwarded_entries ?view = []" by (simp add: forwarded_entries_def lookup)
  moreover have "n \<noteq> lit ''x-forwarded-for''" if "sent n v" for n v using that by (simp add: sent_def)
  ultimately have "anonymity_level ?view direct False = lit ''elite'' \<longleftrightarrow>
      (\<forall>n v. sent n v \<longrightarrow> \<not> is_telltale n False \<and>
         (is_infra n False \<or> (\<forall>d. direct_addr direct = Some d \<longrightarrow> \<not> ip_in_text v d)))"
    unfolding elite_iff leaks_def by (simp add: Ball_def Bex_def member) blast
  then show ?thesis using me assms(3) by (simp add: sent_def)
qed

section \<open>Requests to run the definitions on\<close>

definition header_line :: "string \<times> string \<Rightarrow> ustr \<times> u8 list" where
  "header_line l = (lit (fst l), as_bytes (lit (snd l)))"

lemma joined_header_lines [simp]:
  "joined_header (map header_line ls) (lit n) =
     (case filter (\<lambda>l. fst l = n) ls of [] \<Rightarrow> None | _ \<Rightarrow> Some (join (lit '', '') (map (\<lambda>l. lit (snd l)) (filter (\<lambda>l. fst l = n) ls))))"
proof -
  have "header_values (map header_line ls) (lit n) = map (\<lambda>l. as_bytes (lit (snd l))) (filter (\<lambda>l. fst l = n) ls)"
    by (induction ls) (auto simp: header_values_def header_line_def)
  then show ?thesis
    by (simp add: joined_header_join comp_def from_utf8_lossy_as_bytes split: list.split)
qed

definition demo_state :: "(ustr + demo_json, u8 list) app_state" where
  "demo_state = app_state_new demo_pool
     (config_literal (demo_env demo_vars) True False [lit ''x-real-ip''] None (V4 (Ipv4Addr 0 0 0 0))
       None None None None (from_seed demo_crypto (replicate 32 1) True))"

lemma demo_state_fields [simp]:
  "trust_proxy demo_state" "\<not> trust_cf demo_state" "edge_headers demo_state = [lit ''x-real-ip'']"
  by (simp_all add: demo_state_def app_state_new_def config_literal_def)

definition leaking_request :: header_map where
  "leaking_request = map header_line
     [(''x-forwarded-for'', ''2001:DB8::1''), (''x-real-ip'', ''5.5.5.5''), (''x-forwarded-for'', ''5.5.5.5'')]"

definition hiding_request :: header_map where
  "hiding_request = map header_line [(''x-forwarded-for'', ''5.5.5.5''), (''x-real-ip'', ''5.5.5.5''), (''accept'', ''text/html'')]"

lemma demo_headers_ok: "header_map_ok leaking_request" "header_map_ok hiding_request"
  by (simp_all add: header_map_ok_def leaking_request_def hiding_request_def header_line_def str_eval)

theorem leaking_proxy_is_transparent_witness:
  "self_ip demo_state leaking_request None = lit ''5.5.5.5'' \<and>
   anonymity_level (fst (proxy_view demo_state leaking_request (self_ip demo_state leaking_request None)))
     (Some (lit ''2001:db8:0:0::1'')) (trust_cf demo_state) = lit ''transparent''"
proof -
  have x: "joined_header leaking_request (lit ''x-forwarded-for'') = Some (lit ''2001:DB8::1'' @ 44 # lit '' 5.5.5.5'')"
    unfolding leaking_request_def joined_header_lines by (simp add: str_eval)
  show ?thesis
    by (rule leaking_proxy_is_transparent [OF demo_headers_ok(1) _ _ x, where e = "lit ''2001:DB8::1''"
          and d = "V6 (Ipv6Addr 0x2001 0xdb8 0 0 0 0 0 1)"])
      (simp_all add: host_eval addr_eval str_eval denotes_def direct_addr_def)
qed

lemma hiding_request_header:
  "joined_header hiding_request n =
     (if n = lit ''x-forwarded-for'' then Some (lit ''5.5.5.5'')
      else if n = lit ''x-real-ip'' then Some (lit ''5.5.5.5'')
      else if n = lit ''accept'' then Some (lit ''text/html'')
      else None)"
  by (auto simp: joined_header_join header_values_def hiding_request_def header_line_def from_utf8_lossy_as_bytes)

theorem hiding_proxy_is_elite_witness:
  "self_ip demo_state hiding_request None = lit ''5.5.5.5'' \<and>
   anonymity_level (fst (proxy_view demo_state hiding_request (self_ip demo_state hiding_request None)))
     (Some (lit ''1.2.3.4'')) (trust_cf demo_state) = lit ''elite''"
proof -
  have "\<not> is_telltale n False \<and> (is_infra n False \<or> (\<forall>d. direct_addr (Some (lit ''1.2.3.4'')) = Some d \<longrightarrow> \<not> ip_in_text v d))"
    if "n \<notin> set (edge_headers demo_state)" "n \<noteq> lit ''x-forwarded-for''" "joined_header hiding_request n = Some v" for n v
    using that by (auto simp: hiding_request_header is_telltale_def is_infra_def INFRA_HEADERS_def direct_addr_def
        host_eval addr_eval str_eval ip_in_text_def split: if_splits)
  moreover have "joined_header hiding_request (lit ''x-forwarded-for'') = Some (lit ''5.5.5.5'')"
    "normalize_host (lit ''5.5.5.5'') = Some (lit ''5.5.5.5'')" "44 \<notin> set (lit ''5.5.5.5'')"
    by (simp_all add: hiding_request_header host_eval addr_eval str_eval)
  ultimately show ?thesis
    using hiding_proxy_is_elite [OF demo_headers_ok(2) demo_state_fields(1,2), of "lit ''5.5.5.5''" "lit ''5.5.5.5''" None
        "Some (lit ''1.2.3.4'')"] by blast
qed

theorem view_is_what_the_client_sent_witness:
  "distinct_keys (fst (proxy_view demo_state hiding_request (lit ''5.5.5.5''))) \<and>
   forwarded_entries (fst (proxy_view demo_state hiding_request (lit ''5.5.5.5''))) = [] \<and>
   map_of (fst (proxy_view demo_state hiding_request (lit ''5.5.5.5''))) (lit ''x-real-ip'') = None"
proof -
  have "pre_edge_entries demo_state hiding_request (lit ''5.5.5.5'') = []"
    by (simp add: pre_edge_entries_def hiding_request_header host_eval addr_eval str_eval)
  then show ?thesis
    using view_is_what_the_client_sent [OF demo_headers_ok(2), of demo_state "lit ''5.5.5.5''" "lit ''x-real-ip''"]
    by simp
qed

theorem edge_headers_are_ignored_witness:
  "anonymity_level (fst (proxy_view demo_state (header_line (''x-real-ip'', ''1.2.3.4'') # hiding_request) (lit ''5.5.5.5''))) None False =
   anonymity_level (fst (proxy_view demo_state hiding_request (lit ''5.5.5.5''))) None False"
proof -
  have "header_map_ok (header_line (''x-real-ip'', ''1.2.3.4'') # hiding_request)"
    using demo_headers_ok(2) by (simp add: header_map_ok_def header_line_def str_eval)
  then show ?thesis
    using edge_headers_are_ignored [OF _ demo_headers_ok(2), of "header_line (''x-real-ip'', ''1.2.3.4'') # hiding_request" demo_state]
    by (simp add: header_line_def)
qed

end
