(* ===== verification/Public_Address.thy ===== *)
theory Public_Address
  imports Ip_Addr
begin

text \<open>
  Which addresses may be asked about in the DNS (\<open>is_public_ip\<close> of \<open>src/app.rs\<close>), and the
  same set as a list of address blocks.
\<close>

section \<open>The check\<close>

definition is_public_ip :: "ip_addr \<Rightarrow> bool" where
  "is_public_ip addr =
     (case to_canonical addr of
        V4 v4 \<Rightarrow>
          (let oct = octets v4;
               is_cgnat = (oct ! 0 = 100 \<and> oct ! 1 AND 0xC0 = 64);
               is_benchmark = (oct ! 0 = 198 \<and> (oct ! 1 = 18 \<or> oct ! 1 = 19))
           in \<not> (v4_is_loopback v4 \<or> v4_is_private v4 \<or> v4_is_link_local v4 \<or> v4_is_unspecified v4 \<or>
                 v4_is_broadcast v4 \<or> v4_is_multicast v4 \<or> v4_is_documentation v4 \<or> is_cgnat \<or> is_benchmark))
      | V6 v6 \<Rightarrow>
          (let segs = segments v6;
               is_doc = (segs ! 0 = 0x2001 \<and> segs ! 1 = 0x0db8)
           in \<not> (v6_is_loopback v6 \<or> v6_is_unspecified v6 \<or> v6_is_multicast v6 \<or>
                 v6_is_unique_local v6 \<or> v6_is_unicast_link_local v6 \<or> is_doc)))"

section \<open>Address blocks\<close>

text \<open>
  The specification: an address is a number, a block is the addresses that share a prefix with
  its base.
\<close>

fun number_of :: "nat \<Rightarrow> nat list \<Rightarrow> nat" where
  "number_of radix [] = 0"
| "number_of radix (d # ds) = d * radix ^ length ds + number_of radix ds"

definition v4_number :: "ipv4_addr \<Rightarrow> nat" where
  "v4_number a = number_of (2 ^ 8) (map unat (octets a))"

definition v6_number :: "ipv6_addr \<Rightarrow> nat" where
  "v6_number a = number_of (2 ^ 16) (map unat (segments a))"

definition same_prefix :: "nat \<Rightarrow> nat \<Rightarrow> nat \<Rightarrow> nat \<Rightarrow> bool" where
  "same_prefix width len m n \<longleftrightarrow> m div 2 ^ (width - len) = n div 2 ^ (width - len)"

definition in_block4 :: "ipv4_addr \<Rightarrow> ipv4_addr \<times> nat \<Rightarrow> bool" where
  "in_block4 a blk \<longleftrightarrow> same_prefix 32 (snd blk) (v4_number a) (v4_number (fst blk))"

definition in_block6 :: "ipv6_addr \<Rightarrow> ipv6_addr \<times> nat \<Rightarrow> bool" where
  "in_block6 a blk \<longleftrightarrow> same_prefix 128 (snd blk) (v6_number a) (v6_number (fst blk))"

definition special_v4 :: "(ipv4_addr \<times> nat) list" where
  "special_v4 =
     [(Ipv4Addr 0 0 0 0, 32), (Ipv4Addr 10 0 0 0, 8), (Ipv4Addr 100 64 0 0, 10),
      (Ipv4Addr 127 0 0 0, 8), (Ipv4Addr 169 254 0 0, 16), (Ipv4Addr 172 16 0 0, 12),
      (Ipv4Addr 192 0 2 0, 24), (Ipv4Addr 192 168 0 0, 16), (Ipv4Addr 198 18 0 0, 15),
      (Ipv4Addr 198 51 100 0, 24), (Ipv4Addr 203 0 113 0, 24), (Ipv4Addr 224 0 0 0, 4),
      (Ipv4Addr 255 255 255 255, 32)]"

definition special_v6 :: "(ipv6_addr \<times> nat) list" where
  "special_v6 =
     [(Ipv6Addr 0 0 0 0 0 0 0 0, 128), (Ipv6Addr 0 0 0 0 0 0 0 1, 128),
      (Ipv6Addr 0x2001 0xdb8 0 0 0 0 0 0, 32), (Ipv6Addr 0xfc00 0 0 0 0 0 0 0, 7),
      (Ipv6Addr 0xfe80 0 0 0 0 0 0 0, 10), (Ipv6Addr 0xff00 0 0 0 0 0 0 0, 8)]"

lemma masked_prefix:
  fixes w v :: "'a::len word"
  assumes "v AND mask k = 0"
  shows "w AND NOT (mask k) = v \<longleftrightarrow> unat w div 2 ^ k = unat v div 2 ^ k"
proof -
  have v: "push_bit k (drop_bit k v) = v"
    using assms by (metis add.right_neutral bits_ident take_bit_eq_mask)
  have w: "push_bit k (drop_bit k w) = w AND NOT (mask k)"
    by (rule bit_word_eqI) (auto simp: bit_simps)
  have "drop_bit k (w AND NOT (mask k)) = drop_bit k w"
    by (rule bit_word_eqI) (auto simp: bit_simps dest: bit_imp_le_length)
  then have "w AND NOT (mask k) = v \<longleftrightarrow> drop_bit k w = drop_bit k v"
    using v w by metis
  also have "\<dots> \<longleftrightarrow> unat (drop_bit k w) = unat (drop_bit k v)" by (simp only: word_unat_eq_iff)
  finally show ?thesis unfolding unat_drop_bit_eq by (simp only: drop_bit_eq_div)
qed

lemma number_of_less: "list_all (\<lambda>d. d < r) ds \<Longrightarrow> number_of r ds < r ^ length ds"
proof (induction ds)
  case (Cons d ds)
  then have "number_of r ds < r ^ length ds" "Suc d \<le> r" by simp_all
  then have "number_of r (d # ds) < Suc d * r ^ length ds" by simp
  also have "\<dots> \<le> r * r ^ length ds" using \<open>Suc d \<le> r\<close> by (rule mult_le_mono1)
  finally show ?case by simp
qed simp

lemma digit_split:
  fixes x y d e k :: nat
  assumes "x < k" and "y < k"
  shows "d * k + x = e * k + y \<longleftrightarrow> d = e \<and> x = y"
proof -
  have "(d * k + x) div k = d" "(e * k + y) div k = e" using assms by simp_all
  then show ?thesis by auto
qed

text \<open>Two addresses share a prefix digit by digit; the last digit of the prefix may count in part.\<close>

lemma prefix_whole:
  assumes "list_all (\<lambda>d. d < r) ds" and "list_all (\<lambda>d. d < r) es"
    and "length ds = length es" and "q dvd r ^ length es" and "0 < q"
  shows "number_of r (d # ds) div q = number_of r (e # es) div q \<longleftrightarrow>
    d = e \<and> number_of r ds div q = number_of r es div q"
proof -
  obtain k where k: "r ^ length es = q * k" using assms(4) by (rule dvdE)
  have small: "number_of r xs div q < k" if "list_all (\<lambda>d. d < r) xs" "length xs = length es" for xs
    using number_of_less [OF that(1)] assms(5) that(2) by (simp add: k less_mult_imp_div_less mult.commute)
  have split: "number_of r (x # xs) div q = x * k + number_of r xs div q" if "length xs = length es" for x xs
    using assms(5) that by (simp add: k div_mult_self3 mult.left_commute)
  show ?thesis
    using digit_split [OF small [OF assms(1,3)] small [OF assms(2) refl]] split [OF assms(3)] split [OF refl]
    by simp
qed

lemma prefix_part:
  assumes "list_all (\<lambda>d. d < r) ds"
  shows "number_of r (d # ds) div (r ^ length ds * q) = d div q"
proof -
  have less: "number_of r ds < r ^ length ds" using assms by (rule number_of_less)
  then have "r ^ length ds \<noteq> 0" by (metis not_less_zero)
  then have "(d * r ^ length ds + number_of r ds) div r ^ length ds = d + number_of r ds div r ^ length ds"
    by (rule div_mult_self3)
  then have "(d * r ^ length ds + number_of r ds) div r ^ length ds = d" using less by simp
  then show ?thesis by (simp only: number_of.simps div_mult2_eq)
qed

lemma digits_ok [simp]:
  "list_all (\<lambda>d. d < 256) (map unat (ws :: u8 list))" "list_all (\<lambda>d. d < 65536) (map unat (vs :: u16 list))"
  by (simp_all add: list_all_iff unat_u8_less unat_u16_less)

lemma same_number:
  assumes "list_all (\<lambda>d. d < r) ds" and "list_all (\<lambda>d. d < r) es" and "length ds = length es"
  shows "number_of r (d # ds) = number_of r (e # es) \<longleftrightarrow> d = e \<and> number_of r ds = number_of r es"
  using prefix_whole [OF assms, of 1] by simp

lemma v4_prefixes:
  "y < 256 \<Longrightarrow> z < 256 \<Longrightarrow> w < 256 \<Longrightarrow> number_of 256 [x, y, z, w] div 268435456 = x div 16"
  "y < 256 \<Longrightarrow> z < 256 \<Longrightarrow> w < 256 \<Longrightarrow> number_of 256 [y, z, w] div 16777216 = 0"
  "z < 256 \<Longrightarrow> w < 256 \<Longrightarrow> number_of 256 [y, z, w] div 4194304 = y div 64"
  "z < 256 \<Longrightarrow> w < 256 \<Longrightarrow> number_of 256 [y, z, w] div 1048576 = y div 16"
  "z < 256 \<Longrightarrow> w < 256 \<Longrightarrow> number_of 256 [y, z, w] div 131072 = y div 2"
  "z < 256 \<Longrightarrow> w < 256 \<Longrightarrow> number_of 256 [z, w] div 65536 = 0"
  "w < 256 \<Longrightarrow> number_of 256 [w] div 256 = 0"
  using prefix_part [of 256 "[y, z, w]" x 16] prefix_part [of 256 "[z, w]" y 64]
    prefix_part [of 256 "[z, w]" y 16] prefix_part [of 256 "[z, w]" y 2] by simp_all

lemma in_special_v4:
  "list_ex (in_block4 (Ipv4Addr a b c d)) special_v4 \<longleftrightarrow>
     (a = 0 \<and> b = 0 \<and> c = 0 \<and> d = 0) \<or> a = 10 \<or> (a = 100 \<and> unat b div 64 = 1) \<or> a = 127 \<or>
     (a = 169 \<and> b = 254) \<or> (a = 172 \<and> unat b div 16 = 1) \<or> (a = 192 \<and> b = 0 \<and> c = 2) \<or>
     (a = 192 \<and> b = 168) \<or> (a = 198 \<and> unat b div 2 = 9) \<or> (a = 198 \<and> b = 51 \<and> c = 100) \<or>
     (a = 203 \<and> b = 0 \<and> c = 113) \<or> unat a div 16 = 14 \<or> (a = 255 \<and> b = 255 \<and> c = 255 \<and> d = 255)"
  by (simp add: special_v4_def in_block4_def same_prefix_def v4_number_def prefix_whole same_number
      v4_prefixes unat_u8_less word_unat_eq_iff del: number_of.simps(2))

lemma v6_prefixes:
  "list_all (\<lambda>d. d < 65536) [x1, x2, x3, x4, x5, x6, x7] \<Longrightarrow>
     number_of 65536 [x0, x1, x2, x3, x4, x5, x6, x7] div 2658455991569831745807614120560689152 = x0 div 512"
  "list_all (\<lambda>d. d < 65536) [x1, x2, x3, x4, x5, x6, x7] \<Longrightarrow>
     number_of 65536 [x0, x1, x2, x3, x4, x5, x6, x7] div 332306998946228968225951765070086144 = x0 div 64"
  "list_all (\<lambda>d. d < 65536) [x1, x2, x3, x4, x5, x6, x7] \<Longrightarrow>
     number_of 65536 [x0, x1, x2, x3, x4, x5, x6, x7] div 1329227995784915872903807060280344576 = x0 div 256"
  "list_all (\<lambda>d. d < 65536) [x2, x3, x4, x5, x6, x7] \<Longrightarrow>
     number_of 65536 [x2, x3, x4, x5, x6, x7] div 79228162514264337593543950336 = 0"
  using prefix_part [of 65536 "[x1, x2, x3, x4, x5, x6, x7]" x0 512]
    prefix_part [of 65536 "[x1, x2, x3, x4, x5, x6, x7]" x0 64]
    prefix_part [of 65536 "[x1, x2, x3, x4, x5, x6, x7]" x0 256]
    number_of_less [of 65536 "[x2, x3, x4, x5, x6, x7]"]
  by simp_all

lemma in_special_v6:
  "list_ex (in_block6 (Ipv6Addr a b c d e f g h)) special_v6 \<longleftrightarrow>
     [a, b, c, d, e, f, g, h] = [0, 0, 0, 0, 0, 0, 0, 0] \<or> [a, b, c, d, e, f, g, h] = [0, 0, 0, 0, 0, 0, 0, 1] \<or>
     (a = 0x2001 \<and> b = 0xdb8) \<or>
     unat a div 512 = 126 \<or> unat a div 64 = 1018 \<or> unat a div 256 = 255"
  by (simp add: special_v6_def in_block6_def same_prefix_def v6_number_def prefix_whole same_number
      v6_prefixes unat_u16_less word_unat_eq_iff del: number_of.simps(2))

text \<open>The masks and ranges of the source, as prefixes.\<close>

lemma mask_prefixes:
  "(b :: u8) AND 0xC0 = 64 \<longleftrightarrow> unat b div 64 = 1"
  "(s :: u16) AND 0xFF00 = 0xFF00 \<longleftrightarrow> unat s div 256 = 255"
  "(s :: u16) AND 0xFE00 = 0xFC00 \<longleftrightarrow> unat s div 512 = 126"
  "(s :: u16) AND 0xFFC0 = 0xFE80 \<longleftrightarrow> unat s div 64 = 1018"
proof -
  have m: "(0xC0 :: u8) = NOT (mask 6)" "(0xFF00 :: u16) = NOT (mask 8)" "(0xFE00 :: u16) = NOT (mask 9)"
    "(0xFFC0 :: u16) = NOT (mask 6)"
    by (simp_all add: mask_eq_exp_minus_1)
  show "(b :: u8) AND 0xC0 = 64 \<longleftrightarrow> unat b div 64 = 1"
    unfolding m using masked_prefix [of "64 :: u8" 6 b] by (simp add: mask_eq_exp_minus_1)
  have "(s :: u16) AND NOT (mask 8) = 0xFF00 \<longleftrightarrow> unat s div 256 = 255"
    using masked_prefix [of "0xFF00 :: u16" 8 s] by (simp add: mask_eq_exp_minus_1)
  then show "(s :: u16) AND 0xFF00 = 0xFF00 \<longleftrightarrow> unat s div 256 = 255" by (simp only: m(2))
  show "(s :: u16) AND 0xFE00 = 0xFC00 \<longleftrightarrow> unat s div 512 = 126"
    unfolding m using masked_prefix [of "0xFC00 :: u16" 9 s] by (simp add: mask_eq_exp_minus_1)
  show "(s :: u16) AND 0xFFC0 = 0xFE80 \<longleftrightarrow> unat s div 64 = 1018"
    unfolding m using masked_prefix [of "0xFE80 :: u16" 6 s] by (simp add: mask_eq_exp_minus_1)
qed

lemma range_prefixes:
  "16 \<le> b \<and> b \<le> 31 \<longleftrightarrow> unat b div 16 = 1"
  "224 \<le> b \<and> b \<le> 239 \<longleftrightarrow> unat b div 16 = 14"
  "b = 18 \<or> b = 19 \<longleftrightarrow> unat b div 2 = 9"
  for b :: u8
  by (auto simp: word_le_nat_alt word_unat_eq_iff)

text \<open>
  C32. Reverse DNS is asked only about public unicast addresses: \<open>is_public_ip\<close> refuses exactly
  the addresses of the loopback, private, link-local, shared, benchmark, documentation,
  multicast, unspecified and broadcast blocks, an IPv4-mapped IPv6 address counting as the IPv4
  address it carries.
\<close>

theorem public_iff_outside_blocks:
  "is_public_ip addr \<longleftrightarrow>
     (case to_canonical addr of
        V4 v \<Rightarrow> \<not> list_ex (in_block4 v) special_v4
      | V6 v \<Rightarrow> \<not> list_ex (in_block6 v) special_v6)"
proof (cases "to_canonical addr")
  case (V4 v)
  obtain a b c d where v: "v = Ipv4Addr a b c d" by (cases v)
  have "is_public_ip addr \<longleftrightarrow> \<not> list_ex (in_block4 v) special_v4"
    by (simp add: is_public_ip_def V4 v in_special_v4 mask_prefixes range_prefixes del: One_nat_def) blast
  with V4 show ?thesis by simp
next
  case (V6 v)
  obtain a b c d e f g h where v: "v = Ipv6Addr a b c d e f g h" by (cases v)
  have "is_public_ip addr \<longleftrightarrow> \<not> list_ex (in_block6 v) special_v6"
    by (simp add: is_public_ip_def V6 v in_special_v6 mask_prefixes v6_is_unspecified_def
        v6_is_loopback_def v6_is_multicast_def v6_is_unique_local_def v6_is_unicast_link_local_def) blast
  with V6 show ?thesis by simp
qed

lemma is_public_canonical [simp]: "is_public_ip (to_canonical addr) = is_public_ip addr"
  by (simp add: is_public_ip_def)

end
