(* ===== verification/Rdns_Lookup.thy ===== *)
theory Rdns_Lookup
  imports Request_View Public_Address Step_Machine
begin

text \<open>
  Reverse DNS (\<open>maybe_rdns\<close> of \<open>src/app.rs\<close>): when a name is looked up at all, the cache of
  answers, the bound on concurrent resolver calls, and what happens when the resolver is slow,
  panics, or the request is dropped while it waits. First the function as one request runs it,
  then the machine of all requests and resolver tasks together.
\<close>

section \<open>One call\<close>

text \<open>
  A future is either ready with a value or was dropped at one of its await points, because the
  request deadline of 20 seconds passed.
\<close>

datatype 'a awaited = Ready 'a | Dropped

text \<open>The checks before anything is looked up: the address to ask about, if any.\<close>

definition rdns_target :: "('r, 'k) app_state \<Rightarrow> ustr \<Rightarrow> ustr option \<Rightarrow> ip_addr option" where
  "rdns_target s ip_text org =
     (if rdns_timeout s = 0 \<or> (case org of Some name \<Rightarrow> trim name \<noteq> [] | None \<Rightarrow> False) then None
      else (case map_option to_canonical (parse_ip ip_text) of
              None \<Rightarrow> None
            | Some addr \<Rightarrow> if \<not> is_public_ip addr then None else Some addr))"

text \<open>The effects on the shared state.\<close>

definition take_permit :: "('r, 'k) app_state \<Rightarrow> ('r, 'k) app_state" where
  "take_permit s = s\<lparr>rdns_sem := rdns_sem s - 1\<rparr>"

definition drop_permit :: "('r, 'k) app_state \<Rightarrow> ('r, 'k) app_state" where
  "drop_permit s = s\<lparr>rdns_sem := rdns_sem s + 1\<rparr>"

definition count_skipped :: "('r, 'k) app_state \<Rightarrow> ('r, 'k) app_state" where
  "count_skipped s = s\<lparr>metrics := (metrics s)\<lparr>rdns_skipped := inc (rdns_skipped (metrics s))\<rparr>\<rparr>"

definition count_lookup :: "('r, 'k) app_state \<Rightarrow> ('r, 'k) app_state" where
  "count_lookup s = s\<lparr>metrics := (metrics s)\<lparr>rdns_lookups := inc (rdns_lookups (metrics s))\<rparr>\<rparr>"

definition count_timeout :: "('r, 'k) app_state \<Rightarrow> ('r, 'k) app_state" where
  "count_timeout s = s\<lparr>metrics := (metrics s)\<lparr>rdns_timeouts := inc (rdns_timeouts (metrics s))\<rparr>\<rparr>"

text \<open>The end of the blocking task: the answer is cached, then the permit is dropped.\<close>

definition task_done :: "ustr \<Rightarrow> ustr option \<Rightarrow> ('r, 'k) app_state \<Rightarrow> ('r, 'k) app_state" where
  "task_done cache_key res s = drop_permit (s\<lparr>ptr_cache := (ptr_cache s)(cache_key \<mapsto> res)\<rparr>)"

text \<open>
  What one call meets: the entries the cache has dropped by each access, what other tasks do to
  the shared state while the call is suspended, whether a permit came within 100 milliseconds,
  and how the wait for the resolver ends.
\<close>

datatype permit_result = Granted | Wait_Expired | Wait_Dropped

datatype lookup_result = Answered "ustr option" | Too_Slow | Panicked | Lookup_Dropped

record ('r, 'k) rdns_world =
  ptr_evict :: "(ustr \<rightharpoonup> ustr option) \<Rightarrow> (ustr \<rightharpoonup> ustr option)"
  while_queued :: "('r, 'k) app_state \<Rightarrow> ('r, 'k) app_state"
  permit_wait :: permit_result
  while_resolving :: "('r, 'k) app_state \<Rightarrow> ('r, 'k) app_state"
  lookup_end :: lookup_result

definition ptr_access :: "('r, 'k) rdns_world \<Rightarrow> ('r, 'k) app_state \<Rightarrow> ('r, 'k) app_state" where
  "ptr_access w s = s\<lparr>ptr_cache := ptr_evict w (ptr_cache s)\<rparr>"

text \<open>
  The permit moves into the task: giving up on the resolver does not return it, the end of the
  task does, also by a panic.
\<close>

definition rdns_await ::
  "('r, 'k) rdns_world \<Rightarrow> ustr \<Rightarrow> ('r, 'k) app_state \<Rightarrow> ('r, 'k) app_state \<times> ustr option awaited" where
  "rdns_await w cache_key s =
     (case lookup_end w of
        Answered res \<Rightarrow> (task_done cache_key res s, Ready res)
      | Too_Slow \<Rightarrow> (count_timeout s, Ready None)
      | Panicked \<Rightarrow> (count_timeout (drop_permit s), Ready None)
      | Lookup_Dropped \<Rightarrow> (s, Dropped))"

definition rdns_granted ::
  "('r, 'k) rdns_world \<Rightarrow> ustr \<Rightarrow> ('r, 'k) app_state \<Rightarrow> ('r, 'k) app_state \<times> ustr option awaited" where
  "rdns_granted w cache_key s =
     (let s = ptr_access w (take_permit s)
      in case ptr_cache s cache_key of
           Some hit \<Rightarrow> (drop_permit s, Ready hit)
         | None \<Rightarrow> rdns_await w cache_key (while_resolving w (count_lookup s)))"

definition rdns_queued ::
  "('r, 'k) rdns_world \<Rightarrow> ustr \<Rightarrow> ('r, 'k) app_state \<Rightarrow> ('r, 'k) app_state \<times> ustr option awaited" where
  "rdns_queued w cache_key s =
     (if permit_wait w = Wait_Dropped then (s, Dropped)
      else if permit_wait w = Granted \<and> 0 < rdns_sem s then rdns_granted w cache_key s
      else (count_skipped s, Ready None))"

definition maybe_rdns ::
  "('r, 'k) rdns_world \<Rightarrow> ('r, 'k) app_state \<Rightarrow> ustr \<Rightarrow> ustr option \<Rightarrow>
     ('r, 'k) app_state \<times> ustr option awaited" where
  "maybe_rdns w s ip_text org =
     (case rdns_target s ip_text org of
        None \<Rightarrow> (s, Ready None)
      | Some addr \<Rightarrow>
          (let cache_key = show_ip addr;
               s = ptr_access w s
           in case ptr_cache s cache_key of
                Some hit \<Rightarrow> (s, Ready hit)
              | None \<Rightarrow> rdns_queued w cache_key (while_queued w s)))"

lemmas rdns_effects = take_permit_def drop_permit_def count_skipped_def count_lookup_def count_timeout_def
  task_done_def ptr_access_def

section \<open>All calls together\<close>

text \<open>
  The machine: the shared state, where every call of \<open>maybe_rdns\<close> stands, and the resolver
  tasks that run (each named by the call that spawned it). A call that returned remembers the
  address it asked about.
\<close>

datatype call_state =
    Queued ip_addr
  | Holding ip_addr
  | Resolving ip_addr
  | Returned "ip_addr option" "ustr option"
  | Cancelled

record ('r, 'k) rdns_machine =
  shared :: "('r, 'k) app_state"
  calls :: "nat \<rightharpoonup> call_state"
  tasks :: "nat \<rightharpoonup> ip_addr"

definition set_call :: "nat \<Rightarrow> call_state \<Rightarrow> ('r, 'k) rdns_machine \<Rightarrow> ('r, 'k) rdns_machine" where
  "set_call c pc m = m\<lparr>calls := (calls m)(c \<mapsto> pc)\<rparr>"

definition on_shared ::
  "(('r, 'k) app_state \<Rightarrow> ('r, 'k) app_state) \<Rightarrow> ('r, 'k) rdns_machine \<Rightarrow> ('r, 'k) rdns_machine" where
  "on_shared f m = m\<lparr>shared := f (shared m)\<rparr>"

definition end_task :: "nat \<Rightarrow> ('r, 'k) rdns_machine \<Rightarrow> ('r, 'k) rdns_machine" where
  "end_task c m = m\<lparr>tasks := (tasks m)(c := None)\<rparr>"

text \<open>
  How a call begins: the checks before anything is looked up, and the first look at the cache.
\<close>

inductive start_step ::
  "nat \<Rightarrow> ustr \<Rightarrow> ustr option \<Rightarrow> ('r, 'k) rdns_machine \<Rightarrow> ('r, 'k) rdns_machine \<Rightarrow> bool" where
  refused: "calls m c = None \<Longrightarrow> rdns_target (shared m) ip_text org = None \<Longrightarrow>
    start_step c ip_text org m (set_call c (Returned None None) m)"
| cache_hit: "calls m c = None \<Longrightarrow> rdns_target (shared m) ip_text org = Some a \<Longrightarrow>
    ptr_cache (shared m) (show_ip a) = Some hit \<Longrightarrow>
    start_step c ip_text org m (set_call c (Returned (Some a) hit) m)"
| queued: "calls m c = None \<Longrightarrow> rdns_target (shared m) ip_text org = Some a \<Longrightarrow>
    ptr_cache (shared m) (show_ip a) = None \<Longrightarrow>
    start_step c ip_text org m (set_call c (Queued a) m)"

text \<open>
  The steps of a call that has begun and of its resolver task. \<open>answers a res\<close> says that the
  resolver may answer \<open>res\<close> for the address \<open>a\<close>. A task that ends wakes its call if that still
  waits.
\<close>

inductive call_step ::
  "(ip_addr \<Rightarrow> ustr option \<Rightarrow> bool) \<Rightarrow> nat \<Rightarrow> ('r, 'k) rdns_machine \<Rightarrow> ('r, 'k) rdns_machine \<Rightarrow> bool"
  for answers :: "ip_addr \<Rightarrow> ustr option \<Rightarrow> bool" where
  granted: "calls m c = Some (Queued a) \<Longrightarrow> 0 < rdns_sem (shared m) \<Longrightarrow>
    call_step answers c m (set_call c (Holding a) (on_shared take_permit m))"
| skipped: "calls m c = Some (Queued a) \<Longrightarrow>
    call_step answers c m (set_call c (Returned (Some a) None) (on_shared count_skipped m))"
| late_hit: "calls m c = Some (Holding a) \<Longrightarrow> ptr_cache (shared m) (show_ip a) = Some hit \<Longrightarrow>
    call_step answers c m (set_call c (Returned (Some a) hit) (on_shared drop_permit m))"
| spawned: "calls m c = Some (Holding a) \<Longrightarrow> ptr_cache (shared m) (show_ip a) = None \<Longrightarrow>
    call_step answers c m
      (set_call c (Resolving a) (on_shared count_lookup (m\<lparr>tasks := (tasks m)(c \<mapsto> a)\<rparr>)))"
| answered: "tasks m c = Some a \<Longrightarrow> calls m c = Some (Resolving b) \<Longrightarrow> answers a res \<Longrightarrow>
    call_step answers c m
      (set_call c (Returned (Some b) res) (end_task c (on_shared (task_done (show_ip a) res) m)))"
| answered_late: "tasks m c = Some a \<Longrightarrow> (\<And>b. calls m c \<noteq> Some (Resolving b)) \<Longrightarrow> answers a res \<Longrightarrow>
    call_step answers c m (end_task c (on_shared (task_done (show_ip a) res) m))"
| panicked: "tasks m c = Some a \<Longrightarrow> calls m c = Some (Resolving b) \<Longrightarrow>
    call_step answers c m
      (set_call c (Returned (Some b) None) (end_task c (on_shared (count_timeout \<circ> drop_permit) m)))"
| panicked_late: "tasks m c = Some a \<Longrightarrow> (\<And>b. calls m c \<noteq> Some (Resolving b)) \<Longrightarrow>
    call_step answers c m (end_task c (on_shared drop_permit m))"
| too_slow: "calls m c = Some (Resolving a) \<Longrightarrow>
    call_step answers c m (set_call c (Returned (Some a) None) (on_shared count_timeout m))"
| dropped_queued: "calls m c = Some (Queued a) \<Longrightarrow> call_step answers c m (set_call c Cancelled m)"
| dropped_resolving: "calls m c = Some (Resolving a) \<Longrightarrow> call_step answers c m (set_call c Cancelled m)"

text \<open>
  The machine by itself: the cache may drop entries at any time, and the last rule stands for
  everything other requests do with the state that is not reverse DNS.
\<close>

definition expire :: "(ustr \<rightharpoonup> ustr option) \<Rightarrow> ('r, 'k) rdns_machine \<Rightarrow> ('r, 'k) rdns_machine" where
  "expire kept m = on_shared (\<lambda>s. s\<lparr>ptr_cache := kept\<rparr>) m"

inductive rdns_step ::
  "(ip_addr \<Rightarrow> ustr option \<Rightarrow> bool) \<Rightarrow> ('r, 'k) rdns_machine \<Rightarrow> ('r, 'k) rdns_machine \<Rightarrow> bool"
  for answers :: "ip_addr \<Rightarrow> ustr option \<Rightarrow> bool" where
  starts: "start_step c ip_text org m m' \<Longrightarrow> rdns_step answers m m'"
| moves: "call_step answers c m m' \<Longrightarrow> rdns_step answers m m'"
| expired: "kept \<subseteq>\<^sub>m ptr_cache (shared m) \<Longrightarrow> rdns_step answers m (expire kept m)"
| elsewhere: "rdns_sem s = rdns_sem (shared m) \<Longrightarrow> ptr_cache s = ptr_cache (shared m) \<Longrightarrow>
    rdns_step answers m (m\<lparr>shared := s\<rparr>)"

text \<open>The machine of a started service.\<close>

definition rdns_init :: "('r, 'k) rdns_machine \<Rightarrow> bool" where
  "rdns_init m \<longleftrightarrow>
     (\<exists>pool cfg. m = \<lparr>shared = app_state_new pool cfg, calls = Map.empty, tasks = Map.empty\<rparr>)"

section \<open>Invariants\<close>

lemma machine_simps [simp]:
  "shared (set_call c pc m) = shared m" "calls (set_call c pc m) = (calls m)(c \<mapsto> pc)" "tasks (set_call c pc m) = tasks m"
  "shared (on_shared f m) = f (shared m)" "calls (on_shared f m) = calls m" "tasks (on_shared f m) = tasks m"
  "shared (end_task c m) = shared m" "calls (end_task c m) = calls m" "tasks (end_task c m) = (tasks m)(c := None)"
  "shared (expire kept m) = (shared m)\<lparr>ptr_cache := kept\<rparr>" "calls (expire kept m) = calls m" "tasks (expire kept m) = tasks m"
  by (simp_all add: set_call_def on_shared_def end_task_def expire_def)

lemma effect_simps [simp]:
  "rdns_sem (take_permit s) = rdns_sem s - 1" "ptr_cache (take_permit s) = ptr_cache s"
  "rdns_sem (drop_permit s) = Suc (rdns_sem s)" "ptr_cache (drop_permit s) = ptr_cache s"
  "rdns_sem (count_skipped s) = rdns_sem s" "ptr_cache (count_skipped s) = ptr_cache s"
  "rdns_sem (count_lookup s) = rdns_sem s" "ptr_cache (count_lookup s) = ptr_cache s"
  "rdns_sem (count_timeout s) = rdns_sem s" "ptr_cache (count_timeout s) = ptr_cache s"
  "rdns_sem (task_done k res s) = Suc (rdns_sem s)" "ptr_cache (task_done k res s) = (ptr_cache s)(k \<mapsto> res)"
  by (simp_all add: rdns_effects)

text \<open>The permits are with the running tasks and the calls that are about to spawn one.\<close>

definition holders :: "('r, 'k) rdns_machine \<Rightarrow> nat set" where
  "holders m = dom (tasks m) \<union> {c. \<exists>a. calls m c = Some (Holding a)}"

definition rdns_books :: "('r, 'k) rdns_machine \<Rightarrow> bool" where
  "rdns_books m \<longleftrightarrow>
     finite (dom (calls m)) \<and> dom (tasks m) \<subseteq> dom (calls m) \<and>
     (\<forall>c a. calls m c = Some (Queued a) \<or> calls m c = Some (Holding a) \<longrightarrow> tasks m c = None) \<and>
     (\<forall>c a. calls m c = Some (Resolving a) \<longrightarrow> tasks m c = Some a) \<and>
     rdns_sem (shared m) + card (holders m) = RDNS_MAX_CONCURRENT"

lemma finite_holders: "rdns_books m \<Longrightarrow> finite (holders m)"
  by (rule finite_subset [of _ "dom (calls m)"]) (auto simp: holders_def rdns_books_def)

lemma holders_step:
  assumes "rdns_step answers m m'" and "rdns_books m"
  obtains (same) "holders m' = holders m" "rdns_sem (shared m') = rdns_sem (shared m)"
  | (taken) c where "c \<notin> holders m" "holders m' = insert c (holders m)" "0 < rdns_sem (shared m)"
      "rdns_sem (shared m') = rdns_sem (shared m) - 1"
  | (dropped) c where "c \<in> holders m" "holders m' = holders m - {c}"
      "rdns_sem (shared m') = Suc (rdns_sem (shared m))"
  using assms(1)
proof cases
  case (moves c)
  then show ?thesis
  proof cases
    case (granted a)
    then show ?thesis using assms(2) by (intro taken [of c]) (auto simp: holders_def rdns_books_def)
  next
    case (late_hit a hit)
    then show ?thesis using assms(2) by (intro dropped [of c]) (auto simp: holders_def rdns_books_def)
  next
    case (answered a b res)
    then show ?thesis using assms(2) by (intro dropped [of c]) (auto simp: holders_def rdns_books_def)
  next
    case (answered_late a res)
    then show ?thesis using assms(2) by (intro dropped [of c]) (auto simp: holders_def rdns_books_def)
  next
    case (panicked a b)
    then show ?thesis using assms(2) by (intro dropped [of c]) (auto simp: holders_def rdns_books_def)
  next
    case (panicked_late a)
    then show ?thesis using assms(2) by (intro dropped [of c]) (auto simp: holders_def rdns_books_def)
  qed (use assms(2) in \<open>intro same; auto simp: holders_def rdns_books_def\<close>)+
next
  case (starts c ip_text org)
  then show ?thesis by cases (use assms(2) in \<open>intro same; auto simp: holders_def rdns_books_def\<close>)+
qed (use assms(2) in \<open>intro same; auto simp: holders_def rdns_books_def\<close>)+

definition calls_ok :: "('r, 'k) rdns_machine \<Rightarrow> bool" where
  "calls_ok m \<longleftrightarrow>
     finite (dom (calls m)) \<and> dom (tasks m) \<subseteq> dom (calls m) \<and>
     (\<forall>c a. calls m c = Some (Queued a) \<or> calls m c = Some (Holding a) \<longrightarrow> tasks m c = None) \<and>
     (\<forall>c a. calls m c = Some (Resolving a) \<longrightarrow> tasks m c = Some a)"

lemma calls_ok_start:
  assumes "start_step c ip_text org m m'" and "calls_ok m"
  shows "calls_ok m'"
  using assms by cases (auto simp: calls_ok_def split: if_splits)

lemma calls_ok_call:
  assumes "call_step answers c m m'" and "calls_ok m"
  shows "calls_ok m'"
  using assms by cases (auto simp: calls_ok_def split: if_splits)

lemma calls_ok_step:
  assumes "rdns_step answers m m'" and "calls_ok m"
  shows "calls_ok m'"
  using assms(1)
proof cases
  case (starts c ip_text org)
  then show ?thesis using assms(2) by (rule calls_ok_start)
next
  case (moves c)
  then show ?thesis using assms(2) by (rule calls_ok_call)
qed (use assms(2) in \<open>simp_all add: calls_ok_def\<close>)

lemma rdns_books_iff:
  "rdns_books m \<longleftrightarrow> calls_ok m \<and> rdns_sem (shared m) + card (holders m) = RDNS_MAX_CONCURRENT"
  by (auto simp: rdns_books_def calls_ok_def)

lemma rdns_books_step:
  assumes "rdns_books m" and "rdns_step answers m m'"
  shows "rdns_books m'"
proof -
  have "rdns_sem (shared m') + card (holders m') = RDNS_MAX_CONCURRENT"
    using assms(2,1)
  proof (cases rule: holders_step)
    case (dropped c)
    have "Suc (card (holders m')) = card (holders m)"
      unfolding dropped(2) using finite_holders [OF assms(1)] dropped(1) by (rule card_Suc_Diff1)
    with dropped(3) assms(1) show ?thesis by (simp add: rdns_books_def)
  qed (use assms(1) finite_holders [OF assms(1)] in \<open>auto simp: rdns_books_def\<close>)
  moreover have "calls_ok m'" using assms calls_ok_step by (auto simp: rdns_books_iff)
  ultimately show ?thesis by (simp add: rdns_books_iff)
qed

text \<open>What is asked about, and what the answers are.\<close>

definition lookup_address :: "ip_addr \<Rightarrow> bool" where
  "lookup_address a \<longleftrightarrow> is_public_ip a \<and> to_canonical a = a"

fun call_ok :: "(ip_addr \<Rightarrow> ustr option \<Rightarrow> bool) \<Rightarrow> call_state \<Rightarrow> bool" where
  "call_ok answers (Queued a) \<longleftrightarrow> lookup_address a"
| "call_ok answers (Holding a) \<longleftrightarrow> lookup_address a"
| "call_ok answers (Resolving a) \<longleftrightarrow> lookup_address a"
| "call_ok answers (Returned asked res) \<longleftrightarrow>
     res = None \<or> (\<exists>a. asked = Some a \<and> lookup_address a \<and> answers a res)"
| "call_ok answers Cancelled \<longleftrightarrow> True"

definition rdns_answers_ok :: "(ip_addr \<Rightarrow> ustr option \<Rightarrow> bool) \<Rightarrow> ('r, 'k) rdns_machine \<Rightarrow> bool" where
  "rdns_answers_ok answers m \<longleftrightarrow>
     (\<forall>c pc. calls m c = Some pc \<longrightarrow> call_ok answers pc) \<and>
     (\<forall>c a. tasks m c = Some a \<longrightarrow> lookup_address a) \<and>
     (\<forall>k res. ptr_cache (shared m) k = Some res \<longrightarrow> (\<exists>a. k = show_ip a \<and> lookup_address a \<and> answers a res))"

lemma rdns_target_ok: "rdns_target s ip_text org = Some a \<Longrightarrow> lookup_address a"
  by (auto simp: rdns_target_def lookup_address_def split: if_splits option.splits)

lemma cached_answer:
  assumes "rdns_answers_ok answers m" and "ptr_cache (shared m) (show_ip a) = Some hit"
  shows "lookup_address a \<and> answers a hit"
proof -
  obtain b where "show_ip a = show_ip b" "lookup_address b" "answers b hit"
    using assms unfolding rdns_answers_ok_def by blast
  then show ?thesis by (simp add: show_ip_inject)
qed

lemma call_address:
  assumes "rdns_answers_ok answers m" and "calls m c \<in> {Some (Queued a), Some (Holding a), Some (Resolving a)}"
  shows "lookup_address a"
proof -
  have "call_ok answers pc" if "calls m c = Some pc" for pc
    using assms(1) that by (simp add: rdns_answers_ok_def)
  with assms(2) show ?thesis by fastforce
qed

lemma rdns_answers_step:
  assumes "rdns_books m" and "rdns_answers_ok answers m" and "rdns_step answers m m'"
  shows "rdns_answers_ok answers m'"
  using assms(3)
proof cases
  case (starts c ip_text org)
  then show ?thesis
  proof cases
    case (cache_hit a hit)
    then have "lookup_address a \<and> answers a hit" using cached_answer [OF assms(2)] by blast
    with cache_hit assms(2) show ?thesis by (simp add: rdns_answers_ok_def)
  next
    case (queued a)
    then have "lookup_address a" using rdns_target_ok by blast
    with queued assms(2) show ?thesis by (simp add: rdns_answers_ok_def)
  qed (use assms(2) in \<open>auto simp: rdns_answers_ok_def\<close>)
next
  case (moves c)
  then show ?thesis
  proof cases
    case (granted a)
    then have "lookup_address a" using call_address [OF assms(2)] by blast
    with granted assms(2) show ?thesis by (simp add: rdns_answers_ok_def)
  next
    case (late_hit a hit)
    then have "lookup_address a \<and> answers a hit" using cached_answer [OF assms(2)] by blast
    with late_hit assms(2) show ?thesis by (simp add: rdns_answers_ok_def)
  next
    case (spawned a)
    then have "lookup_address a" using call_address [OF assms(2)] by blast
    with spawned assms(2) show ?thesis by (simp add: rdns_answers_ok_def)
  next
    case (answered a b res)
    then have "a = b" using assms(1) by (auto simp: rdns_books_def)
    with answered assms(2) show ?thesis by (auto simp: rdns_answers_ok_def)
  qed (use assms(2) in \<open>auto simp: rdns_answers_ok_def\<close>)
next
  case (expired kept)
  then show ?thesis using assms(2) by (auto simp: rdns_answers_ok_def dest: map_le_SomeD)
qed (use assms(2) in \<open>auto simp: rdns_answers_ok_def\<close>)

definition rdns_inv :: "(ip_addr \<Rightarrow> ustr option \<Rightarrow> bool) \<Rightarrow> ('r, 'k) rdns_machine \<Rightarrow> bool" where
  "rdns_inv answers m \<longleftrightarrow> rdns_books m \<and> rdns_answers_ok answers m"

interpretation rdns: permit_pool rdns_init "rdns_step answers" "rdns_inv answers"
    "\<lambda>m. rdns_sem (shared m)" holders RDNS_MAX_CONCURRENT
  for answers
proof
  show "rdns_inv answers m" if "rdns_init m" for m :: "('r, 'k) rdns_machine"
    using that by (auto simp: rdns_init_def rdns_inv_def rdns_books_def rdns_answers_ok_def holders_def app_state_new_def)
  show "rdns_inv answers m'" if "rdns_inv answers m" "rdns_step answers m m'" for m m' :: "('r, 'k) rdns_machine"
    using that rdns_books_step rdns_answers_step by (fastforce simp: rdns_inv_def)
qed (simp_all add: rdns_inv_def finite_holders rdns_books_def)

text \<open>
  However requests, resolver tasks, timeouts and panics interleave, at most 16 resolver
  calls run at once, also when their callers have given up on them, and no permit is lost: all
  16 are free exactly when no task runs and no call is about to start one.
\<close>

theorem resolver_calls_bounded:
  assumes "reachable rdns_init (rdns_step answers) m"
  shows "finite (dom (tasks m)) \<and> card (dom (tasks m)) \<le> 16 \<and>
    (rdns_sem (shared m) = 16 \<longleftrightarrow> tasks m = Map.empty \<and> (\<nexists>c a. calls m c = Some (Holding a)))"
  using rdns.holders_bounded [OF assms, of "dom (tasks m)"] rdns.all_free_iff [OF assms]
  by (auto simp: holders_def RDNS_MAX_CONCURRENT_def)

text \<open>
  C23. Only public addresses are ever asked about, and a name a request gets is one the resolver
  gave for the very address the request asked about, whether it comes from the resolver or from
  the cache.
\<close>

theorem rdns_names_are_genuine:
  assumes "reachable rdns_init (rdns_step answers) m"
  shows "(\<forall>c a. tasks m c = Some a \<longrightarrow> is_public_ip a) \<and>
    (\<forall>c asked n. calls m c = Some (Returned asked (Some n)) \<longrightarrow>
       (\<exists>a. asked = Some a \<and> is_public_ip a \<and> answers a (Some n)))"
proof -
  have "rdns_answers_ok answers m" using rdns.reachable_inv [OF assms] by (simp add: rdns_inv_def)
  then show ?thesis
    unfolding rdns_answers_ok_def lookup_address_def
    by (metis call_ok.simps(4) lookup_address_def option.distinct(1))
qed

section \<open>A call is a run of the machine\<close>

text \<open>
  What other tasks do while a call is suspended: from the state \<open>s\<close> in which it is suspended the
  machine runs to \<open>s'\<close>, where the shared state has changed by \<open>f\<close> and what belongs to the call is
  as it was (its state, its resolver task, and the value it has of its \<open>own\<close> in the machine).
\<close>

definition meanwhile ::
  "('s \<Rightarrow> 's \<Rightarrow> bool) \<Rightarrow> ('s \<Rightarrow> ('r, 'k) rdns_machine) \<Rightarrow> (nat \<Rightarrow> 's \<Rightarrow> 'v) \<Rightarrow> nat \<Rightarrow>
     (('r, 'k) app_state \<Rightarrow> ('r, 'k) app_state) \<Rightarrow> 's \<Rightarrow> 's \<Rightarrow> bool" where
  "meanwhile step part own c f s s' \<longleftrightarrow>
     step\<^sup>*\<^sup>* s s' \<and> shared (part s') = f (shared (part s)) \<and>
     calls (part s') c = calls (part s) c \<and> tasks (part s') c = tasks (part s) c \<and> own c s' = own c s"

lemma meanwhileE:
  assumes "meanwhile step part own c f s s'"
  obtains "step\<^sup>*\<^sup>* s s'" "shared (part s') = f (shared (part s))" "calls (part s') c = calls (part s) c"
    "tasks (part s') c = tasks (part s) c" "own c s' = own c s"
  using assms unfolding meanwhile_def by blast

lemma meanwhile_refl [simp]: "meanwhile step part own c id s s"
  by (simp add: meanwhile_def)

text \<open>
  The two await points of a call, and the states of the machine it is suspended in there: the
  resolver, once it has its permit and the cache still has no answer, and before it the queue for
  a permit. At each that is reached, what the world of the call says of the other tasks has to be
  something they can do from that very state.
\<close>

definition suspended_resolving ::
  "('s \<Rightarrow> ('r, 'k) rdns_machine) \<Rightarrow> (('r, 'k) rdns_machine \<Rightarrow> 's \<Rightarrow> 's) \<Rightarrow> nat \<Rightarrow> ip_addr \<Rightarrow> 's \<Rightarrow> 's" where
  "suspended_resolving part put c a s =
     put (set_call c (Resolving a) (on_shared count_lookup ((part s)\<lparr>tasks := (tasks (part s))(c \<mapsto> a)\<rparr>))) s"

definition drop_cached ::
  "('s \<Rightarrow> ('r, 'k) rdns_machine) \<Rightarrow> (('r, 'k) rdns_machine \<Rightarrow> 's \<Rightarrow> 's) \<Rightarrow> ('r, 'k) rdns_world \<Rightarrow> 's \<Rightarrow> 's" where
  "drop_cached part put w s = put (expire (ptr_evict w (ptr_cache (shared (part s)))) (part s)) s"

definition while_resolving_ok ::
  "('s \<Rightarrow> 's \<Rightarrow> bool) \<Rightarrow> ('s \<Rightarrow> ('r, 'k) rdns_machine) \<Rightarrow> (('r, 'k) rdns_machine \<Rightarrow> 's \<Rightarrow> 's) \<Rightarrow> (nat \<Rightarrow> 's \<Rightarrow> 'v) \<Rightarrow>
     nat \<Rightarrow> ('r, 'k) rdns_world \<Rightarrow> ip_addr \<Rightarrow> 's \<Rightarrow> bool" where
  "while_resolving_ok step part put own c w a s \<longleftrightarrow>
     (let s = drop_cached part put w (put (set_call c (Holding a) (on_shared take_permit (part s))) s)
      in ptr_cache (shared (part s)) (show_ip a) = None \<longrightarrow>
         (\<exists>s'. meanwhile step part own c (while_resolving w) (suspended_resolving part put c a s) s'))"

definition while_queued_ok ::
  "('s \<Rightarrow> 's \<Rightarrow> bool) \<Rightarrow> ('s \<Rightarrow> ('r, 'k) rdns_machine) \<Rightarrow> (('r, 'k) rdns_machine \<Rightarrow> 's \<Rightarrow> 's) \<Rightarrow> (nat \<Rightarrow> 's \<Rightarrow> 'v) \<Rightarrow>
     nat \<Rightarrow> ('r, 'k) rdns_world \<Rightarrow> ip_addr \<Rightarrow> 's \<Rightarrow> bool" where
  "while_queued_ok step part put own c w a s \<longleftrightarrow>
     (let s = drop_cached part put w s
      in ptr_cache (shared (part s)) (show_ip a) = None \<longrightarrow>
         (\<exists>s'. meanwhile step part own c (while_queued w) (put (set_call c (Queued a) (part s)) s) s' \<and>
            (permit_wait w = Granted \<and> 0 < rdns_sem (shared (part s')) \<longrightarrow> while_resolving_ok step part put own c w a s')))"

fun call_result :: "ip_addr option \<Rightarrow> ustr option awaited \<Rightarrow> call_state" where
  "call_result asked (Ready res) = Returned asked res"
| "call_result asked Dropped = Cancelled"

text \<open>
  The contract of a machine that runs these calls: it contains the state of the calls, offers
  every step of a call, and lets a call begin when the value that belongs to the call (its
  \<open>own\<close> part of the state) asks for it. Inside it an execution of \<open>maybe_rdns\<close> is a run.
\<close>

lemmas then_step = rtranclp.rtrancl_into_rtrancl

locale rdns_host =
  fixes answers :: "ip_addr \<Rightarrow> ustr option \<Rightarrow> bool"
    and step :: "'s \<Rightarrow> 's \<Rightarrow> bool"
    and part :: "'s \<Rightarrow> ('r, 'k) rdns_machine"
    and put :: "('r, 'k) rdns_machine \<Rightarrow> 's \<Rightarrow> 's"
    and own :: "nat \<Rightarrow> 's \<Rightarrow> 'v"
    and asks :: "ustr \<Rightarrow> ustr option \<Rightarrow> 'v \<Rightarrow> bool"
  assumes part_put: "part (put p s) = p"
    and own_put: "own c (put p s) = own c s"
    and host_start: "asks ip_text org (own c s) \<Longrightarrow> start_step c ip_text org (part s) p \<Longrightarrow> step s (put p s)"
    and host_call: "call_step answers c (part s) p \<Longrightarrow> step s (put p s)"
    and host_expired: "kept \<subseteq>\<^sub>m ptr_cache (shared (part s)) \<Longrightarrow> step s (put (expire kept (part s)) s)"
begin

text \<open>A run after which call \<open>c\<close> has the given result.\<close>

definition yields :: "nat \<Rightarrow> 's \<Rightarrow> ip_addr option \<Rightarrow> ('r, 'k) app_state \<times> ustr option awaited \<Rightarrow> bool" where
  "yields c s asked r \<longleftrightarrow>
     (\<exists>s'. step\<^sup>*\<^sup>* s s' \<and> shared (part s') = fst r \<and> own c s' = own c s \<and>
        calls (part s') c = Some (call_result asked (snd r)))"

lemma yields_step:
  assumes "step s s'" and "shared (part s') = fst r" and "own c s' = own c s"
    and "calls (part s') c = Some (call_result asked (snd r))"
  shows "yields c s asked r"
  using assms unfolding yields_def by blast

lemma yields_after:
  assumes "step\<^sup>*\<^sup>* s s'" and "own c s' = own c s" and "yields c s' asked r"
  shows "yields c s asked r"
  using assms unfolding yields_def by (metis rtranclp_trans)

lemma ptr_access_step: "(\<And>m. ptr_evict w m \<subseteq>\<^sub>m m) \<Longrightarrow> step s (drop_cached part put w s)"
  unfolding drop_cached_def by (rule host_expired)

lemma drop_cached_simps:
  "shared (part (drop_cached part put w s)) = ptr_access w (shared (part s))" "own c (drop_cached part put w s) = own c s"
  "calls (part (drop_cached part put w s)) = calls (part s)" "tasks (part (drop_cached part put w s)) = tasks (part s)"
  by (simp_all add: drop_cached_def part_put own_put ptr_access_def)

lemma suspended_resolving_simps:
  "shared (part (suspended_resolving part put c a s)) = count_lookup (shared (part s))"
  "own c (suspended_resolving part put c a s) = own c s"
  "calls (part (suspended_resolving part put c a s)) c = Some (Resolving a)"
  "tasks (part (suspended_resolving part put c a s)) c = Some a"
  by (simp_all add: suspended_resolving_def part_put own_put)

lemma await_yields:
  assumes "calls (part s) c = Some (Resolving a)" and "tasks (part s) c = Some a"
    and "\<And>res. lookup_end w = Answered res \<Longrightarrow> answers a res"
  shows "yields c s (Some a) (rdns_await w (show_ip a) (shared (part s)))"
proof (cases "lookup_end w")
  case (Answered res)
  note step = host_call [OF call_step.answered [of "part s" c a a answers res, OF assms(2,1) assms(3) [OF Answered]]]
  show ?thesis by (rule yields_step, rule step) (simp_all add: part_put own_put rdns_await_def Answered)
next
  case Too_Slow
  note step = host_call [OF call_step.too_slow [of "part s" c a answers, OF assms(1)]]
  show ?thesis by (rule yields_step, rule step) (simp_all add: part_put own_put rdns_await_def Too_Slow)
next
  case Panicked
  note step = host_call [OF call_step.panicked [of "part s" c a a answers, OF assms(2,1)]]
  show ?thesis by (rule yields_step, rule step) (simp_all add: part_put own_put rdns_await_def Panicked)
next
  case Lookup_Dropped
  note step = host_call [OF call_step.dropped_resolving [of "part s" c a answers, OF assms(1)]]
  show ?thesis by (rule yields_step, rule step) (simp_all add: part_put own_put rdns_await_def Lookup_Dropped)
qed

lemma granted_yields:
  assumes "calls (part s) c = Some (Queued a)" and "0 < rdns_sem (shared (part s))"
    and "\<And>m. ptr_evict w m \<subseteq>\<^sub>m m" and "while_resolving_ok step part put own c w a s"
    and "\<And>res. lookup_end w = Answered res \<Longrightarrow> answers a res"
  shows "yields c s (Some a) (rdns_granted w (show_ip a) (shared (part s)))"
proof -
  define s1 where "s1 = put (set_call c (Holding a) (on_shared take_permit (part s))) s"
  define s2 where "s2 = drop_cached part put w s1"
  have "step s s1" unfolding s1_def by (rule host_call [OF call_step.granted [OF assms(1,2)]])
  moreover have "step s1 s2" unfolding s2_def by (rule ptr_access_step [OF assms(3)])
  ultimately have run: "step\<^sup>*\<^sup>* s s2" by (blast intro: then_step)
  have c2: "calls (part s2) c = Some (Holding a)" and own2: "own c s2 = own c s"
    and sh2: "shared (part s2) = ptr_access w (take_permit (shared (part s)))"
    by (simp_all add: s1_def s2_def drop_cached_simps part_put own_put)
  show ?thesis
  proof (rule yields_after [OF run own2], cases "ptr_cache (shared (part s2)) (show_ip a)")
    case (Some hit)
    note step = host_call [OF call_step.late_hit [of "part s2" c a hit answers, OF c2 Some]]
    show "yields c s2 (Some a) (rdns_granted w (show_ip a) (shared (part s)))"
      by (rule yields_step, rule step) (use Some sh2 in \<open>simp_all add: part_put own_put rdns_granted_def Let_def\<close>)
  next
    case None
    define s3 where "s3 = suspended_resolving part put c a s2"
    have "step s2 s3" unfolding s3_def suspended_resolving_def by (rule host_call [OF call_step.spawned [OF c2 None]])
    moreover obtain s4 where "meanwhile step part own c (while_resolving w) s3 s4"
      using assms(4) None unfolding while_resolving_ok_def Let_def s1_def [symmetric] s2_def [symmetric] s3_def by blast
    then have s4: "step\<^sup>*\<^sup>* s3 s4" "shared (part s4) = while_resolving w (shared (part s3))"
        "calls (part s4) c = calls (part s3) c" "tasks (part s4) c = tasks (part s3) c" "own c s4 = own c s3"
      by (auto elim: meanwhileE)
    ultimately have run4: "step\<^sup>*\<^sup>* s2 s4" by simp
    have "calls (part s4) c = Some (Resolving a)" "tasks (part s4) c = Some a" and own4: "own c s4 = own c s2"
      using s4 by (simp_all add: s3_def suspended_resolving_simps)
    moreover have "rdns_await w (show_ip a) (shared (part s4)) = rdns_granted w (show_ip a) (shared (part s))"
      using None sh2 s4(2) by (simp add: rdns_granted_def Let_def s3_def suspended_resolving_simps)
    ultimately have "yields c s4 (Some a) (rdns_granted w (show_ip a) (shared (part s)))"
      using await_yields [of s4 c a w] assms(5) by simp
    then show "yields c s2 (Some a) (rdns_granted w (show_ip a) (shared (part s)))"
      by (rule yields_after [OF run4 own4])
  qed
qed

lemma queued_yields:
  assumes "calls (part s) c = Some (Queued a)" and "\<And>m. ptr_evict w m \<subseteq>\<^sub>m m"
    and "permit_wait w = Granted \<and> 0 < rdns_sem (shared (part s)) \<longrightarrow> while_resolving_ok step part put own c w a s"
    and "\<And>res. lookup_end w = Answered res \<Longrightarrow> answers a res"
  shows "yields c s (Some a) (rdns_queued w (show_ip a) (shared (part s)))"
proof -
  consider (dropped) "permit_wait w = Wait_Dropped" | (granted) "permit_wait w = Granted" "0 < rdns_sem (shared (part s))"
    | (expired) "permit_wait w \<noteq> Wait_Dropped" "\<not> (permit_wait w = Granted \<and> 0 < rdns_sem (shared (part s)))"
    by (cases "permit_wait w") auto
  then show ?thesis
  proof cases
    case dropped
    note step = host_call [OF call_step.dropped_queued [of "part s" c a answers, OF assms(1)]]
    show ?thesis by (rule yields_step, rule step) (simp_all add: part_put own_put rdns_queued_def dropped)
  next
    case granted
    then show ?thesis using granted_yields [OF assms(1) granted(2) assms(2) _ assms(4)] assms(3) by (simp add: rdns_queued_def)
  next
    case expired
    note step = host_call [OF call_step.skipped [of "part s" c a answers, OF assms(1)]]
    show ?thesis by (rule yields_step, rule step) (use expired in \<open>auto simp: part_put own_put rdns_queued_def\<close>)
  qed
qed

lemma call_yields:
  assumes "calls (part s) c = None" and "asks ip_text org (own c s)"
    and "\<And>m. ptr_evict w m \<subseteq>\<^sub>m m"
    and "\<And>a. rdns_target (shared (part s)) ip_text org = Some a \<Longrightarrow> while_queued_ok step part put own c w a s"
    and "\<And>a res. rdns_target (shared (part s)) ip_text org = Some a \<Longrightarrow> lookup_end w = Answered res \<Longrightarrow> answers a res"
  shows "\<exists>asked. yields c s asked (maybe_rdns w (shared (part s)) ip_text org)"
proof (cases "rdns_target (shared (part s)) ip_text org")
  case None
  note step = host_start [OF assms(2) start_step.refused [of "part s" c ip_text org, OF assms(1) None]]
  have "yields c s None (maybe_rdns w (shared (part s)) ip_text org)"
    by (rule yields_step, rule step) (simp_all add: part_put own_put maybe_rdns_def None)
  then show ?thesis by blast
next
  case (Some a)
  define s1 where "s1 = drop_cached part put w s"
  have s1: "step s s1" "shared (part s1) = ptr_access w (shared (part s))" "own c s1 = own c s"
      "calls (part s1) = calls (part s)" "tasks (part s1) = tasks (part s)"
    unfolding s1_def using ptr_access_step [OF assms(3)] by (simp_all add: drop_cached_simps)
  have target: "rdns_target (shared (part s1)) ip_text org = Some a"
    using Some by (simp add: s1(2) ptr_access_def rdns_target_def)
  have c1: "calls (part s1) c = None" and asks1: "asks ip_text org (own c s1)" using assms(1,2) s1 by simp_all
  have "yields c s1 (Some a) (maybe_rdns w (shared (part s)) ip_text org)"
  proof (cases "ptr_cache (shared (part s1)) (show_ip a)")
    case (Some hit)
    note step = host_start [OF asks1 start_step.cache_hit [of "part s1" c ip_text org a hit, OF c1 target Some]]
    show ?thesis
      by (rule yields_step, rule step)
        (use Some s1(2) \<open>rdns_target (shared (part s)) _ _ = _\<close> in \<open>simp_all add: part_put own_put maybe_rdns_def Let_def\<close>)
  next
    case None
    define s2 where "s2 = put (set_call c (Queued a) (part s1)) s1"
    have "step s1 s2" unfolding s2_def by (rule host_start [OF asks1 start_step.queued [OF c1 target None]])
    moreover obtain s3 where m3: "meanwhile step part own c (while_queued w) s2 s3"
        "permit_wait w = Granted \<and> 0 < rdns_sem (shared (part s3)) \<longrightarrow> while_resolving_ok step part put own c w a s3"
      using assms(4) [OF Some] None unfolding while_queued_ok_def Let_def s1_def [symmetric] s2_def by blast
    then have s3: "step\<^sup>*\<^sup>* s2 s3" "shared (part s3) = while_queued w (shared (part s2))"
        "calls (part s3) c = calls (part s2) c" "tasks (part s3) c = tasks (part s2) c" "own c s3 = own c s2"
      by (auto elim: meanwhileE)
    ultimately have run: "step\<^sup>*\<^sup>* s1 s3" by simp
    have "calls (part s3) c = Some (Queued a)" and own3: "own c s3 = own c s1" using s3 by (simp_all add: s2_def part_put own_put)
    then have "yields c s3 (Some a) (rdns_queued w (show_ip a) (shared (part s3)))"
      using assms(3) m3(2) assms(5) [OF Some] by (intro queued_yields)
    moreover have "maybe_rdns w (shared (part s)) ip_text org = rdns_queued w (show_ip a) (shared (part s3))"
      using None s1(2) s3(2) Some by (simp add: maybe_rdns_def Let_def s2_def part_put)
    ultimately show ?thesis using yields_after [OF run own3] by simp
  qed
  then show ?thesis using yields_after [of s s1 c] s1(1,3) by blast
qed

lemma call_run:
  assumes "calls (part s) c = None" and "asks ip_text org (own c s)"
    and "\<And>m. ptr_evict w m \<subseteq>\<^sub>m m"
    and "\<And>a. rdns_target (shared (part s)) ip_text org = Some a \<Longrightarrow> while_queued_ok step part put own c w a s"
    and "\<And>a res. rdns_target (shared (part s)) ip_text org = Some a \<Longrightarrow> lookup_end w = Answered res \<Longrightarrow> answers a res"
  shows "\<exists>asked s'. step\<^sup>*\<^sup>* s s' \<and> shared (part s') = fst (maybe_rdns w (shared (part s)) ip_text org) \<and>
    own c s' = own c s \<and> calls (part s') c = Some (call_result asked (snd (maybe_rdns w (shared (part s)) ip_text org)))"
  using call_yields [OF assms] unfolding yields_def by blast

end

text \<open>The machine of the calls alone is such a machine; a call may begin at any time.\<close>

interpretation calls: rdns_host answers "rdns_step answers" "\<lambda>m. m" "\<lambda>p m. p" "\<lambda>c m. ()" "\<lambda>ip_text org v. True"
  for answers :: "ip_addr \<Rightarrow> ustr option \<Rightarrow> bool"
  by unfold_locales (blast intro: starts moves expired)+

text \<open>
  Every execution of \<open>maybe_rdns\<close> is a run of the machine, so what holds of the machine holds
  of the code: if at its await points the other tasks do what the machine allows there and the
  resolver gives one of its answers, the machine gets from the state before the call to the state
  after it, with the call returned (or dropped) with the same result.
\<close>

theorem maybe_rdns_is_a_run:
  assumes "calls m c = None" and "\<And>m. ptr_evict w m \<subseteq>\<^sub>m m"
    and "\<And>a. rdns_target (shared m) ip_text org = Some a \<Longrightarrow>
      while_queued_ok (rdns_step answers) (\<lambda>m. m) (\<lambda>p m. p) (\<lambda>c m. ()) c w a m"
    and "\<And>a res. rdns_target (shared m) ip_text org = Some a \<Longrightarrow> lookup_end w = Answered res \<Longrightarrow> answers a res"
  shows "\<exists>m'. (rdns_step answers)\<^sup>*\<^sup>* m m' \<and> shared m' = fst (maybe_rdns w (shared m) ip_text org) \<and>
    (\<exists>asked. calls m' c = Some (call_result asked (snd (maybe_rdns w (shared m) ip_text org))))"
  using calls.call_run [where s = m and c = c and ip_text = ip_text and org = org and w = w and answers = answers] assms by blast

text \<open>With nobody else there nothing has to be shown of the await points.\<close>

lemma nobody_else:
  assumes "while_queued w = id" and "while_resolving w = id"
  shows "while_queued_ok step part put own c w a s"
proof -
  have resolving: "while_resolving_ok step part put own c w a s'" for s'
    unfolding while_resolving_ok_def assms Let_def by (rule impI, rule exI, rule meanwhile_refl)
  show ?thesis
    unfolding while_queued_ok_def assms Let_def by (rule impI, rule exI, rule conjI, rule meanwhile_refl, simp add: resolving)
qed

section \<open>A lookup\<close>

definition google_dns :: ip_addr where
  "google_dns = V4 (Ipv4Addr 8 8 8 8)"

definition demo_machine :: "(ustr + demo_json, u8 list) rdns_machine" where
  "demo_machine = \<lparr>shared = demo_state, calls = Map.empty, tasks = Map.empty\<rparr>"

definition demo_resolving :: "(ustr + demo_json, u8 list) rdns_machine" where
  "demo_resolving =
     (let m = set_call 0 (Holding google_dns) (on_shared take_permit (set_call 0 (Queued google_dns) demo_machine))
      in set_call 0 (Resolving google_dns) (on_shared count_lookup (m\<lparr>tasks := (tasks m)(0 \<mapsto> google_dns)\<rparr>)))"

definition demo_answers :: "ip_addr \<Rightarrow> ustr option \<Rightarrow> bool" where
  "demo_answers a res \<longleftrightarrow> a = google_dns \<and> res = Some (lit ''dns.google'')"

lemma demo_timeout: "the (from_secs_f64 (Finite (3 / 2))) = 1500000000"
  using round_half_even_int [of 1500000000] by (simp add: from_secs_f64_def)

lemma demo_target:
  "rdns_target demo_state (lit ''8.8.8.8'') None = Some google_dns"
  "show_ip google_dns = lit ''8.8.8.8''" "ptr_cache demo_state = Map.empty" "rdns_sem demo_state = 16"
  by (simp_all add: google_dns_def rdns_target_def demo_state_def app_state_new_def config_literal_def demo_timeout
      parse_rdns_timeout_def demo_env_def is_public_ip_def RDNS_MAX_CONCURRENT_def addr_eval str_eval)

lemma demo_reachable: "reachable rdns_init (rdns_step demo_answers) demo_machine"
  by (rule reachable_init) (auto simp: rdns_init_def demo_machine_def demo_state_def)

lemma demo_resolving_reachable: "reachable rdns_init (rdns_step demo_answers) demo_resolving"
proof -
  let ?queued = "set_call 0 (Queued google_dns) demo_machine"
  let ?holding = "set_call 0 (Holding google_dns) (on_shared take_permit ?queued)"
  have "rdns_step demo_answers demo_machine ?queued"
    by (rule starts, rule start_step.queued [of _ _ "lit ''8.8.8.8''" None]) (simp_all add: demo_machine_def demo_target)
  note queued = reachable_step [OF demo_reachable this]
  have "rdns_step demo_answers ?queued ?holding"
    by (rule moves, rule call_step.granted) (simp_all add: demo_machine_def demo_target)
  note holding = reachable_step [OF queued this]
  have "rdns_step demo_answers ?holding demo_resolving"
    unfolding demo_resolving_def Let_def
    by (rule moves, rule call_step.spawned) (simp_all add: demo_machine_def demo_target)
  then show ?thesis by (rule reachable_step [OF holding])
qed

theorem resolver_calls_bounded_witness:
  "card (dom (tasks demo_resolving)) = 1 \<and> card (dom (tasks demo_resolving)) \<le> 16 \<and> rdns_sem (shared demo_resolving) \<noteq> 16"
  using resolver_calls_bounded [OF demo_resolving_reachable]
  by (auto simp: demo_resolving_def demo_machine_def Let_def)

theorem rdns_names_are_genuine_witness:
  "\<exists>m. calls m 0 = Some (Returned (Some google_dns) (Some (lit ''dns.google''))) \<and>
     is_public_ip google_dns \<and> demo_answers google_dns (Some (lit ''dns.google'')) \<and>
     reachable rdns_init (rdns_step demo_answers) (m :: (ustr + demo_json, u8 list) rdns_machine)"
proof -
  let ?m = "set_call 0 (Returned (Some google_dns) (Some (lit ''dns.google'')))
    (end_task 0 (on_shared (task_done (show_ip google_dns) (Some (lit ''dns.google''))) demo_resolving))"
  have "rdns_step demo_answers demo_resolving ?m"
    by (rule moves, rule call_step.answered) (simp_all add: demo_resolving_def Let_def demo_answers_def)
  then have "reachable rdns_init (rdns_step demo_answers) ?m" by (rule reachable_step [OF demo_resolving_reachable])
  moreover from this have "\<exists>a. Some google_dns = Some a \<and> is_public_ip a \<and> demo_answers a (Some (lit ''dns.google''))"
    by (rule rdns_names_are_genuine [THEN conjunct2, rule_format, of demo_answers ?m 0]) simp
  ultimately show ?thesis by (intro exI [of _ ?m]) auto
qed

definition demo_rdns :: "(ustr + demo_json, u8 list) rdns_world" where
  "demo_rdns = \<lparr>ptr_evict = id, while_queued = id, permit_wait = Granted, while_resolving = id,
     lookup_end = Answered (Some (lit ''dns.google''))\<rparr>"

theorem maybe_rdns_is_a_run_witness:
  "\<exists>m'. (rdns_step demo_answers)\<^sup>*\<^sup>* demo_machine m' \<and>
     shared m' = fst (maybe_rdns demo_rdns demo_state (lit ''8.8.8.8'') None) \<and>
     snd (maybe_rdns demo_rdns demo_state (lit ''8.8.8.8'') None) = Ready (Some (lit ''dns.google'')) \<and>
     (\<exists>asked. calls m' 0 = Some (Returned asked (Some (lit ''dns.google''))))"
proof -
  have out: "snd (maybe_rdns demo_rdns demo_state (lit ''8.8.8.8'') None) = Ready (Some (lit ''dns.google''))"
    by (simp add: maybe_rdns_def rdns_queued_def rdns_granted_def rdns_await_def demo_rdns_def demo_target ptr_access_def Let_def take_permit_def)
  have "\<exists>m'. (rdns_step demo_answers)\<^sup>*\<^sup>* demo_machine m' \<and>
     shared m' = fst (maybe_rdns demo_rdns (shared demo_machine) (lit ''8.8.8.8'') None) \<and>
     (\<exists>asked. calls m' 0 = Some (call_result asked (snd (maybe_rdns demo_rdns (shared demo_machine) (lit ''8.8.8.8'') None))))"
    by (rule maybe_rdns_is_a_run)
      (auto simp: demo_machine_def demo_rdns_def nobody_else demo_answers_def demo_target)
  then show ?thesis using out by (simp add: demo_machine_def)
qed

end
