(* ===== verification/Handlers.thy ===== *)
theory Handlers
  imports Rdns_Lookup
begin

text \<open>
  The HTTP handlers of \<open>src/app.rs\<close>: the answers of the service as responses over JSON values.
  The framework (axum, serde_json, the \<open>http\<close> types) is a parameter: how a JSON value is
  printed, how a query string is read, which texts are legal header values, and what axum
  answers by itself.
\<close>

section \<open>Requests, responses and JSON values\<close>

datatype json =
    J_Null
  | J_Bool bool
  | J_Nat nat
  | J_F64 rat
  | J_Str ustr
  | J_Arr "json list"
  | J_Obj "(ustr \<times> json) list"

record response =
  resp_status :: nat
  resp_headers :: header_map
  resp_body :: "u8 list"

record request =
  req_method :: ustr
  req_path :: ustr
  req_query :: "ustr option"
  req_headers :: header_map
  req_peer :: "socket_addr option"

record judge_params =
  direct_ip :: "ustr option"
  nonce :: "ustr option"

text \<open>
  The libraries. \<open>header_value_ok\<close> is whether \<open>HeaderValue::from_str\<close> accepts a text,
  \<open>header_to_str\<close> is \<open>HeaderValue::to_str\<close>; the last two fields are what axum answers itself:
  without connection information, and for a path or method no handler is registered for.
\<close>

record ('r, 'l, 'v, 'k) app_libs =
  geo_db_lib :: "('r, 'l, 'v) geo_lib"
  signing_lib :: "'k crypto"
  unicode_alnum :: "uchar \<Rightarrow> bool"
  json_text :: "json \<Rightarrow> u8 list"
  parse_query :: "ustr option \<Rightarrow> response + judge_params"
  header_value_ok :: "ustr \<Rightarrow> bool"
  header_to_str :: "u8 list \<Rightarrow> ustr option"
  no_connect_info :: response
  unrouted :: "request \<Rightarrow> response"

text \<open>
  What one request meets: the housekeeping of the caches, the clock readings of the rate
  limiter, the wait for a request slot, and the fate of its reverse DNS call.
\<close>

record ('r, 'k) request_world =
  geo_evict :: "(ustr \<rightharpoonup> geo_info) \<Rightarrow> (ustr \<rightharpoonup> geo_info)"
  rate_evict :: "(ustr \<rightharpoonup> token_bucket) \<Rightarrow> (ustr \<rightharpoonup> token_bucket)"
  clock0 :: nat
  clock1 :: nat
  while_busy :: "('r, 'k) app_state \<Rightarrow> ('r, 'k) app_state"
  slot_in_time :: bool
  rdns_call :: "('r, 'k) rdns_world"

definition header_insert :: "ustr \<Rightarrow> ustr \<Rightarrow> header_map \<Rightarrow> header_map" where
  "header_insert name v hs = filter (\<lambda>l. fst l \<noteq> name) hs @ [(name, as_bytes v)]"

definition json_response :: "('r, 'l, 'v, 'k) app_libs \<Rightarrow> nat \<Rightarrow> json \<Rightarrow> response" where
  "json_response lib st j =
     \<lparr>resp_status = st, resp_headers = [(lit ''content-type'', as_bytes (lit ''application/json''))],
      resp_body = json_text lib j\<rparr>"

definition error_body :: "string \<Rightarrow> json" where
  "error_body e = J_Obj [(lit ''error'', J_Str (lit e))]"

section \<open>Values as JSON\<close>

definition json_map :: "(ustr \<times> ustr) list \<Rightarrow> json" where
  "json_map m = J_Obj (map (\<lambda>p. (fst p, J_Str (snd p))) m)"

definition json_strs :: "ustr list \<Rightarrow> json" where
  "json_strs xs = J_Arr (map J_Str xs)"

definition json_opt_str :: "ustr option \<Rightarrow> json" where
  "json_opt_str v = (case v of None \<Rightarrow> J_Null | Some x \<Rightarrow> J_Str x)"

text \<open>A field that is left out when it is \<open>None\<close>.\<close>

definition opt_field :: "string \<Rightarrow> ('a \<Rightarrow> json) \<Rightarrow> 'a option \<Rightarrow> (ustr \<times> json) list" where
  "opt_field name f v = (case v of None \<Rightarrow> [] | Some x \<Rightarrow> [(lit name, f x)])"

definition json_geo :: "geo_info \<Rightarrow> json" where
  "json_geo g =
     J_Obj ([(lit ''ip'', J_Str (ip g))] @
       opt_field ''error'' J_Str (error g) @
       opt_field ''country'' J_Str (country g) @
       opt_field ''country_code'' J_Str (country_code g) @
       opt_field ''city'' J_Str (city g) @
       opt_field ''latitude'' J_F64 (latitude g) @
       opt_field ''longitude'' J_F64 (longitude g) @
       opt_field ''asn'' (\<lambda>n. J_Nat (unat n)) (asn g) @
       opt_field ''aso'' J_Str (aso g))"

definition json_signals :: "type_signals \<Rightarrow> json" where
  "json_signals t =
     J_Obj ([(lit ''org'', json_opt_str (signal_org t)),
             (lit ''rdns'', json_opt_str (signal_rdns t)),
             (lit ''hosting_kw'', json_strs (hosting_kw t)),
             (lit ''hosting_vendor'', json_strs (hosting_vendor t)),
             (lit ''mobile_kw'', json_strs (mobile_kw t)),
             (lit ''residential_kw'', json_strs (residential_kw t)),
             (lit ''business_kw'', json_strs (business_kw t))] @
       opt_field ''note'' J_Str (sig_note t))"

definition sources_or_null :: "('r, 'k) app_state \<Rightarrow> json" where
  "sources_or_null s = (let m = sources (geo s) in if m = [] then J_Null else json_map m)"

section \<open>The handlers\<close>

definition VERSION :: ustr where
  "VERSION = lit ''0.6.1''"

definition REPOSITORY :: ustr where
  "REPOSITORY = lit ''https://github.com/nechel12/proxpulse-judge''"

definition licenses :: json where
  "licenses =
     J_Obj
       [(lit ''dbip_lite'', J_Obj
          [(lit ''license'', J_Str (lit ''CC BY 4.0'')),
           (lit ''url'', J_Str (lit ''https://db-ip.com/db/lite.php'')),
           (lit ''attribution'', J_Str (lit ''IP Geolocation by DB-IP (https://db-ip.com)''))]),
        (lit ''geolite2'', J_Obj
          [(lit ''license'', J_Str (lit ''GeoLite EULA (CC BY-SA 4.0 aspects)'')),
           (lit ''url'', J_Str (lit ''https://www.maxmind.com/en/geolite/eula'')),
           (lit ''attribution'', J_Str (lit ''This product includes GeoLite2 Data created by MaxMind, available from https://www.maxmind.com''))])]"

definition endpoints :: json where
  "endpoints = json_strs (map lit
     [''GET /generate_204'', ''GET /ip'', ''GET /headers'', ''GET /geo'', ''GET /type'', ''GET /content'',
      ''GET /judge'', ''GET /key'', ''GET /healthz'', ''GET /readyz'', ''GET /metrics''])"

definition index :: "('r, 'l, 'v, 'k) app_libs \<Rightarrow> ('r, 'k) app_state \<Rightarrow> response" where
  "index lib s = json_response lib 200 (J_Obj
     [(lit ''service'', J_Str (lit ''proxpulse-judge'')),
      (lit ''version'', J_Str VERSION),
      (lit ''repository'', J_Str REPOSITORY),
      (lit ''trust_proxy'', J_Bool (trust_proxy s)),
      (lit ''trust_cf'', J_Bool (trust_cf s)),
      (lit ''geo_sources'', json_map (sources (geo s))),
      (lit ''licenses'', licenses),
      (lit ''endpoints'', endpoints)])"

definition healthz :: "('r, 'l, 'v, 'k) app_libs \<Rightarrow> response" where
  "healthz lib = json_response lib 200 (J_Obj [(lit ''ok'', J_Bool True)])"

definition readyz :: "('r, 'l, 'v, 'k) app_libs \<Rightarrow> ('r, 'k) app_state \<Rightarrow> response" where
  "readyz lib s =
     (let srcs = sources (geo s)
      in json_response lib 200 (J_Obj
           [(lit ''ok'', J_Bool True),
            (lit ''geo_ready'', J_Bool (srcs \<noteq> [])),
            (lit ''geo_sources'', json_map srcs)]))"

definition constant_time_eq :: "u8 list \<Rightarrow> u8 list \<Rightarrow> bool" where
  "constant_time_eq a b \<longleftrightarrow>
     length a = length b \<and> foldl (\<lambda>acc p. acc OR (fst p XOR snd p)) 0 (zip a b) = 0"

definition presented_token :: "('r, 'l, 'v, 'k) app_libs \<Rightarrow> header_map \<Rightarrow> ustr option" where
  "presented_token lib hs =
     (case header_values hs (lit ''authorization'') of
        [] \<Rightarrow> None
      | v # _ \<Rightarrow> Option.bind (header_to_str lib v) (strip_prefix (lit ''Bearer '')))"

definition metrics_ep :: "('r, 'l, 'v, 'k) app_libs \<Rightarrow> ('r, 'k) app_state \<Rightarrow> header_map \<Rightarrow> response" where
  "metrics_ep lib s hs =
     (case metrics_token s of
        Some token \<Rightarrow>
          (if \<not> (case presented_token lib hs of
                    Some p \<Rightarrow> constant_time_eq (as_bytes p) (as_bytes token) | None \<Rightarrow> False)
           then (json_response lib 401 (error_body ''unauthorized''))
                  \<lparr>resp_headers := [(lit ''www-authenticate'', as_bytes (lit ''Bearer'')),
                    (lit ''content-type'', as_bytes (lit ''application/json''))]\<rparr>
           else \<lparr>resp_status = 200,
                  resp_headers = [(lit ''content-type'', as_bytes (lit ''text/plain; version=0.0.4''))],
                  resp_body = as_bytes (render (metrics s) (sources (geo s) \<noteq> []) VERSION)\<rparr>)
      | None \<Rightarrow>
          \<lparr>resp_status = 200,
           resp_headers = [(lit ''content-type'', as_bytes (lit ''text/plain; version=0.0.4''))],
           resp_body = as_bytes (render (metrics s) (sources (geo s) \<noteq> []) VERSION)\<rparr>)"

definition generate_204 :: response where
  "generate_204 = \<lparr>resp_status = 204, resp_headers = [], resp_body = []\<rparr>"

definition ip_ep :: "('r, 'l, 'v, 'k) app_libs \<Rightarrow> ('r, 'k) app_state \<Rightarrow> socket_addr \<Rightarrow> header_map \<Rightarrow> response" where
  "ip_ep lib s conn hs =
     json_response lib 200 (J_Obj [(lit ''ip'', J_Str (self_ip s hs (Some conn)))])"

definition headers_echo ::
  "('r, 'l, 'v, 'k) app_libs \<Rightarrow> ('r, 'k) app_state \<Rightarrow> socket_addr \<Rightarrow> header_map \<Rightarrow> response" where
  "headers_echo lib s conn hs =
     (let me = self_ip s hs (Some conn);
          (view, chain) = proxy_view s hs me
      in json_response lib 200 (J_Obj
           [(lit ''ip'', J_Str me), (lit ''headers'', json_map view), (lit ''xff_chain'', json_strs chain)]))"

definition geo_ep ::
  "('r, 'l, 'v, 'k) app_libs \<Rightarrow> ('r, 'k) request_world \<Rightarrow> ('r, 'k) app_state \<Rightarrow> socket_addr \<Rightarrow> header_map \<Rightarrow>
     ('r, 'k) app_state \<times> response" where
  "geo_ep lib w s conn hs =
     (let me = self_ip s hs (Some conn);
          (s, g) = geo_cached (geo_db_lib lib) (geo_evict w) s me
      in (s, json_response lib 200 (J_Obj
           [(lit ''ip'', J_Str me),
            (lit ''geo'', json_geo g),
            (lit ''source'', sources_or_null s),
            (lit ''attribution'', json_strs (attributions (geo_db_lib lib) (geo s)))])))"

text \<open>An expression that awaits: the rest runs when the value is ready.\<close>

definition await :: "'s \<times> 'a awaited \<Rightarrow> ('s \<Rightarrow> 'a \<Rightarrow> 's \<times> 'b) \<Rightarrow> 's \<times> 'b awaited" where
  "await r f = (case r of (s, Dropped) \<Rightarrow> (s, Dropped) | (s, Ready v) \<Rightarrow> (let (s, x) = f s v in (s, Ready x)))"

definition ip_type ::
  "('r, 'l, 'v, 'k) app_libs \<Rightarrow> ('r, 'k) request_world \<Rightarrow> ('r, 'k) app_state \<Rightarrow> socket_addr \<Rightarrow> header_map \<Rightarrow>
     ('r, 'k) app_state \<times> response awaited" where
  "ip_type lib w s conn hs =
     (let me = self_ip s hs (Some conn);
          (s, g) = geo_cached (geo_db_lib lib) (geo_evict w) s me
      in await (maybe_rdns (rdns_call w) s me (aso g)) (\<lambda>s ptr.
           (let (t, signals) = classify_ip (unicode_alnum lib) (aso g) ptr
            in (s, json_response lib 200 (J_Obj
                  [(lit ''ip'', J_Str me), (lit ''ip_type'', J_Str t), (lit ''signals'', json_signals signals)])))))"

definition content_ep :: response where
  "content_ep = \<lparr>resp_status = 200,
     resp_headers = [(lit ''content-type'', as_bytes (lit ''application/json''))], resp_body = FIXED_CONTENT\<rparr>"

definition key_ep :: "('r, 'l, 'v, 'k) app_libs \<Rightarrow> ('r, 'k) app_state \<Rightarrow> response" where
  "key_ep lib s = json_response lib 200 (J_Obj
     [(lit ''alg'', J_Str (lit ''ed25519'')),
      (lit ''key_id'', J_Str (key_id (signer s))),
      (lit ''public_key'', J_Str (public_key (signer s)))])"

section \<open>The judge\<close>

definition without_lf :: "ustr option \<Rightarrow> ustr option" where
  "without_lf d = (case d of Some x \<Rightarrow> if 10 \<in> set x then None else Some x | None \<Rightarrow> None)"

definition challenge_of :: "judge_params \<Rightarrow> ustr" where
  "challenge_of p = (case nonce p of Some n \<Rightarrow> if valid_nonce n then n else [] | None \<Rightarrow> [])"

definition judge_body ::
  "('r, 'l, 'v, 'k) app_libs \<Rightarrow> ('r, 'k) app_state \<Rightarrow> ustr \<Rightarrow> (ustr \<times> ustr) list \<Rightarrow> ustr list \<Rightarrow> ustr \<Rightarrow>
     geo_info \<Rightarrow> ustr \<Rightarrow> type_signals \<Rightarrow> u8 list" where
  "judge_body lib s me view chain level g t signals =
     json_text lib (J_Obj
       [(lit ''ip'', J_Str me),
        (lit ''headers'', json_map view),
        (lit ''xff_chain'', json_strs chain),
        (lit ''anonymity'', J_Str level),
        (lit ''geo'', json_geo g),
        (lit ''geo_source'', sources_or_null s),
        (lit ''attribution'', json_strs (attributions (geo_db_lib lib) (geo s))),
        (lit ''ip_type'', J_Str t),
        (lit ''type_signals'', json_signals signals),
        (lit ''content_version'', J_Nat (unat CONTENT_VERSION)),
        (lit ''content_sha256'', J_Str (content_sha256 (sha256 (signing_lib lib))))])"

definition signed_response ::
  "('r, 'l, 'v, 'k) app_libs \<Rightarrow> 'k signer \<Rightarrow> judge_params \<Rightarrow> u8 list \<Rightarrow> response" where
  "signed_response lib sg p body_bytes =
     (let direct_raw = without_lf (direct_ip p);
          sig = sign (signing_lib lib) sg (challenge_of p)
                  (case direct_raw of Some d \<Rightarrow> d | None \<Rightarrow> []) body_bytes;
          hs = [(lit ''content-type'', as_bytes (lit ''application/json''))];
          hs = (if header_value_ok lib sig \<and> header_value_ok lib (key_id sg)
                then header_insert (lit ''x-judge-key-id'') (key_id sg)
                       (header_insert (lit ''x-judge-signature'') sig hs)
                else hs)
      in \<lparr>resp_status = 200, resp_headers = hs, resp_body = body_bytes\<rparr>)"

definition judge ::
  "('r, 'l, 'v, 'k) app_libs \<Rightarrow> ('r, 'k) request_world \<Rightarrow> ('r, 'k) app_state \<Rightarrow> socket_addr \<Rightarrow> header_map \<Rightarrow>
     judge_params \<Rightarrow> ('r, 'k) app_state \<times> response awaited" where
  "judge lib w s conn hs p =
     (let me = self_ip s hs (Some conn);
          (view, chain) = proxy_view s hs me;
          direct_raw = without_lf (direct_ip p);
          direct = Option.bind direct_raw normalize_host;
          level = anonymity_level view direct (trust_cf s);
          (s, g) = geo_cached (geo_db_lib lib) (geo_evict w) s me
      in await (maybe_rdns (rdns_call w) s me (aso g)) (\<lambda>s ptr.
           (let (t, signals) = classify_ip (unicode_alnum lib) (aso g) ptr;
                body_bytes = judge_body lib s me view chain level g t signals
            in (s, signed_response lib (signer s) p body_bytes))))"

end
