(* ===== verification/App_Layers.thy ===== *)
theory App_Layers
  imports Handlers
begin

text \<open>
  The middleware and the router of \<open>src/app.rs\<close>: request counters, response headers, the rate
  limiter, the bound on concurrent requests and the request deadline around the routes, in the
  order \<open>build_app\<close> stacks them.
\<close>

section \<open>Layers\<close>

type_synonym ('r, 'k) service = "request \<Rightarrow> ('r, 'k) app_state \<Rightarrow> ('r, 'k) app_state \<times> response"

definition count :: "(metrics \<Rightarrow> metrics) \<Rightarrow> ('r, 'k) app_state \<Rightarrow> ('r, 'k) app_state" where
  "count f s = s\<lparr>metrics := f (metrics s)\<rparr>"

definition is_monitoring :: "ustr \<Rightarrow> bool" where
  "is_monitoring path \<longleftrightarrow> path \<in> {lit ''/healthz'', lit ''/readyz'', lit ''/metrics''}"

text \<open>A handler that is still suspended after 20 seconds is dropped.\<close>

definition timeout_mw ::
  "('r, 'l, 'v, 'k) app_libs \<Rightarrow> (request \<Rightarrow> ('r, 'k) app_state \<Rightarrow> ('r, 'k) app_state \<times> response awaited) \<Rightarrow>
     ('r, 'k) service" where
  "timeout_mw lib inner req s =
     (case inner req s of
        (s, Ready res) \<Rightarrow> (s, res)
      | (s, Dropped) \<Rightarrow> (s, json_response lib 504 (error_body ''request timeout'')))"

text \<open>
  A slot is a permit of the \<open>concurrency\<close> semaphore, waited for at most 5 seconds and returned
  when the inner service is done.
\<close>

definition concurrency_mw ::
  "('r, 'l, 'v, 'k) app_libs \<Rightarrow> ('r, 'k) request_world \<Rightarrow> ('r, 'k) service \<Rightarrow> ('r, 'k) service" where
  "concurrency_mw lib w inner req s =
     (if is_monitoring (req_path req) then inner req s
      else
        (let s = while_busy w s
         in if \<not> (slot_in_time w \<and> 0 < concurrency s)
            then (s, json_response lib 503 (error_body ''busy''))
            else (let (s, res) = inner req (s\<lparr>concurrency := concurrency s - 1\<rparr>)
                  in (s\<lparr>concurrency := concurrency s + 1\<rparr>, res))))"

definition rate_limit_mw ::
  "('r, 'l, 'v, 'k) app_libs \<Rightarrow> ('r, 'k) request_world \<Rightarrow> ('r, 'k) service \<Rightarrow> ('r, 'k) service" where
  "rate_limit_mw lib w inner req s =
     (if is_monitoring (req_path req) then inner req s
      else
        (let client = self_ip s (req_headers req) (req_peer req);
             (rl, verdict) = rate_check (rate_evict w) (rate_limit s) client (clock0 w) (clock1 w);
             s = s\<lparr>rate_limit := rl\<rparr>
         in case verdict of
              Some secs \<Rightarrow>
                (count (\<lambda>m. m\<lparr>rate_limited := inc (rate_limited m)\<rparr>) s,
                 (json_response lib 429 (error_body ''rate limited''))
                   \<lparr>resp_headers := [(lit ''retry-after'', as_bytes (show_nat (unat secs))),
                      (lit ''content-type'', as_bytes (lit ''application/json''))]\<rparr>)
            | None \<Rightarrow> inner req s))"

definition response_headers_mw :: "('r, 'k) service \<Rightarrow> ('r, 'k) service" where
  "response_headers_mw inner req s =
     (let cacheable = (req_path req = lit ''/content'');
          (s, res) = inner req s;
          res = res\<lparr>resp_headers := header_insert (lit ''x-content-type-options'') (lit ''nosniff'') (resp_headers res)\<rparr>;
          res = (if \<not> cacheable \<or> resp_status res \<noteq> 200
                 then res\<lparr>resp_headers := header_insert (lit ''cache-control'') (lit ''no-store'') (resp_headers res)\<rparr>
                 else res)
      in (s, res))"

definition metrics_mw :: "('r, 'k) service \<Rightarrow> ('r, 'k) service" where
  "metrics_mw inner req s =
     (let (s, res) = inner req s;
          s = count (\<lambda>m. m\<lparr>requests := inc (requests m)\<rparr>) s;
          s = (if 400 \<le> resp_status res \<and> resp_status res < 500
               then count (\<lambda>m. m\<lparr>responses_4xx := inc (responses_4xx m)\<rparr>) s else s);
          s = (if 500 \<le> resp_status res \<and> resp_status res < 600
               then count (\<lambda>m. m\<lparr>responses_5xx := inc (responses_5xx m)\<rparr>) s else s)
      in (s, res))"

section \<open>Routes\<close>

text \<open>The \<open>ConnectInfo\<close> extractor: without the extension axum answers itself.\<close>

definition with_peer ::
  "('r, 'l, 'v, 'k) app_libs \<Rightarrow> request \<Rightarrow> ('r, 'k) app_state \<Rightarrow>
     (socket_addr \<Rightarrow> ('r, 'k) app_state \<times> response awaited) \<Rightarrow> ('r, 'k) app_state \<times> response awaited" where
  "with_peer lib req s f = (case req_peer req of None \<Rightarrow> (s, Ready (no_connect_info lib)) | Some conn \<Rightarrow> f conn)"

definition handle ::
  "('r, 'l, 'v, 'k) app_libs \<Rightarrow> ('r, 'k) request_world \<Rightarrow> request \<Rightarrow> ('r, 'k) app_state \<Rightarrow>
     ('r, 'k) app_state \<times> response awaited" where
  "handle lib w req s =
     (let hs = req_headers req;
          path = req_path req
      in if path = lit ''/'' then (s, Ready (index lib s))
         else if path = lit ''/healthz'' then (s, Ready (healthz lib))
         else if path = lit ''/readyz'' then (s, Ready (readyz lib s))
         else if path = lit ''/metrics'' then (s, Ready (metrics_ep lib s hs))
         else if path = lit ''/generate_204'' then (s, Ready generate_204)
         else if path = lit ''/ip'' then with_peer lib req s (\<lambda>conn. (s, Ready (ip_ep lib s conn hs)))
         else if path = lit ''/headers'' then with_peer lib req s (\<lambda>conn. (s, Ready (headers_echo lib s conn hs)))
         else if path = lit ''/geo'' then
           with_peer lib req s (\<lambda>conn. (let (s, res) = geo_ep lib w s conn hs in (s, Ready res)))
         else if path = lit ''/type'' then with_peer lib req s (\<lambda>conn. ip_type lib w s conn hs)
         else if path = lit ''/content'' then (s, Ready content_ep)
         else if path = lit ''/judge'' then
           with_peer lib req s (\<lambda>conn.
             (case parse_query lib (req_query req) of
                Inl rejection \<Rightarrow> (s, Ready rejection)
              | Inr p \<Rightarrow> judge lib w s conn hs p))
         else if path = lit ''/key'' then (s, Ready (key_ep lib s))
         else (s, Ready (unrouted lib req)))"

text \<open>
  \<open>get(handler)\<close> serves \<open>GET\<close> and \<open>HEAD\<close>; other methods are axum's to answer. The response to a
  \<open>HEAD\<close> request loses its body on the way out of the router, after all layers, so also when a
  layer answers.
\<close>

definition routes ::
  "('r, 'l, 'v, 'k) app_libs \<Rightarrow> ('r, 'k) request_world \<Rightarrow> request \<Rightarrow> ('r, 'k) app_state \<Rightarrow>
     ('r, 'k) app_state \<times> response awaited" where
  "routes lib w req s =
     (if req_method req = lit ''GET'' \<or> req_method req = lit ''HEAD'' then handle lib w req s
      else (s, Ready (unrouted lib req)))"

definition head_only :: "request \<Rightarrow> response \<Rightarrow> response" where
  "head_only req res = (if req_method req = lit ''HEAD'' then res\<lparr>resp_body := []\<rparr> else res)"

definition build_app :: "('r, 'l, 'v, 'k) app_libs \<Rightarrow> ('r, 'k) request_world \<Rightarrow> ('r, 'k) service" where
  "build_app lib w req s =
     (let (s, res) =
        metrics_mw (response_headers_mw (rate_limit_mw lib w (concurrency_mw lib w (timeout_mw lib (routes lib w))))) req s
      in (s, head_only req res))"

lemma head_only_simps [simp]:
  "resp_status (head_only req res) = resp_status res" "resp_headers (head_only req res) = resp_headers res"
  "req_method req = lit ''GET'' \<Longrightarrow> head_only req res = res"
  by (simp_all add: head_only_def)

section \<open>Response headers\<close>

lemma header_values_insert:
  "header_values (header_insert n v hs) m = (if m = n then [as_bytes v] else header_values hs m)"
  by (auto simp: header_values_def header_insert_def filter_none intro!: arg_cong [of _ _ "map snd"] filter_cong)

lemma snd_metrics_mw [simp]: "snd (metrics_mw inner req s) = snd (inner req s)"
  by (simp add: metrics_mw_def Let_def split_def)

lemma response_headers_mw_simps [simp]:
  "fst (response_headers_mw inner req s) = fst (inner req s)"
  "resp_status (snd (response_headers_mw inner req s)) = resp_status (snd (inner req s))"
  "resp_body (snd (response_headers_mw inner req s)) = resp_body (snd (inner req s))"
  by (simp_all add: response_headers_mw_def Let_def split_def)

lemma other_headers_kept:
  "n \<noteq> lit ''x-content-type-options'' \<Longrightarrow> n \<noteq> lit ''cache-control'' \<Longrightarrow>
     header_values (resp_headers (snd (response_headers_mw inner req s))) n = header_values (resp_headers (snd (inner req s))) n"
  by (simp add: response_headers_mw_def Let_def split_def header_values_insert)

lemma json_response_simps [simp]:
  "resp_status (json_response lib st j) = st" "resp_body (json_response lib st j) = json_text lib j"
  by (simp_all add: json_response_def)

text \<open>
  C24. Every response of the service, whatever the request and whoever answers it, handler,
  limiter, deadline or framework, carries exactly one \<open>X-Content-Type-Options: nosniff\<close>, and
  exactly one \<open>Cache-Control: no-store\<close> unless it is the fixed content with status 200.
\<close>

theorem every_response_is_hardened:
  "header_values (resp_headers (snd (build_app lib w req s))) (lit ''x-content-type-options'') = [as_bytes (lit ''nosniff'')] \<and>
   (req_path req = lit ''/content'' \<and> resp_status (snd (build_app lib w req s)) = 200 \<or>
    header_values (resp_headers (snd (build_app lib w req s))) (lit ''cache-control'') = [as_bytes (lit ''no-store'')])"
  by (auto simp: build_app_def metrics_mw_def response_headers_mw_def Let_def split_def header_values_insert)

section \<open>Monitoring\<close>

lemma monitoring_direct:
  "is_monitoring (req_path req) \<Longrightarrow>
     rate_limit_mw lib w (concurrency_mw lib w inner) req s = inner req s"
  by (simp add: rate_limit_mw_def concurrency_mw_def)

lemma fst_metrics_mw_fields:
  "rate_limit (fst (metrics_mw inner req s)) = rate_limit (fst (inner req s))"
  "concurrency (fst (metrics_mw inner req s)) = concurrency (fst (inner req s))"
  "geo_cache (fst (metrics_mw inner req s)) = geo_cache (fst (inner req s))"
  "ptr_cache (fst (metrics_mw inner req s)) = ptr_cache (fst (inner req s))"
  "rdns_sem (fst (metrics_mw inner req s)) = rdns_sem (fst (inner req s))"
  by (simp_all add: metrics_mw_def count_def Let_def split_def)

text \<open>
  C40. Probes keep working under load: whatever the state, with every request slot taken and the
  client over its limit, \<open>/healthz\<close> and \<open>/readyz\<close> answer 200, \<open>/metrics\<close> answers 200 or 401, and
  none of them touches the limiter or the slots.
\<close>

theorem probes_always_answer:
  "list_all (\<lambda>(path, ok).
     (let (s', res) = build_app lib w (req\<lparr>req_method := lit ''GET'', req_path := lit path\<rparr>) s
      in resp_status res \<in> ok \<and> rate_limit s' = rate_limit s \<and> concurrency s' = concurrency s))
     [(''/healthz'', {200}), (''/readyz'', {200}), (''/metrics'', {200, 401})]"
  by (simp add: build_app_def split_def Let_def fst_metrics_mw_fields monitoring_direct is_monitoring_def
      timeout_mw_def routes_def handle_def healthz_def readyz_def metrics_ep_def split: option.split)

section \<open>The metrics token\<close>

lemma xor_zero: "(a :: u8) XOR b = 0 \<longleftrightarrow> a = b"
  by (auto simp: bit_eq_iff bit_simps)

lemma constant_time_fold:
  "length a = length b \<Longrightarrow> foldl (\<lambda>acc p. acc OR (fst p XOR snd p)) c (zip a b) = 0 \<longleftrightarrow> c = 0 \<and> a = b"
  for a b :: "u8 list"
proof (induction a b arbitrary: c rule: list_induct2)
  case (Cons x xs y ys)
  then show ?case by (auto simp: or_eq_0_iff xor_zero)
qed simp

lemma constant_time_eq_iff: "constant_time_eq a b \<longleftrightarrow> a = b"
  by (auto simp: constant_time_eq_def constant_time_fold)

lemma strip_prefix_iff: "strip_prefix p s = Some r \<longleftrightarrow> s = p @ r"
  by (induction p s rule: strip_prefix.induct) auto

lemma presented_token_iff:
  "presented_token lib hs = Some p \<longleftrightarrow>
     (\<exists>v vs. header_values hs (lit ''authorization'') = v # vs \<and> header_to_str lib v = Some (lit ''Bearer '' @ p))"
  by (auto simp: presented_token_def strip_prefix_iff bind_eq_Some_conv split: list.split)

text \<open>
  C20. With a metrics token configured, \<open>/metrics\<close> is readable exactly with it: the answer is 200
  when the first \<open>Authorization\<close> value is \<open>Bearer\<close> and the token, and otherwise a 401 whose body
  is the same whatever the counters and the token are.
\<close>

theorem metrics_need_the_token:
  assumes "metrics_token s = Some token" and "valid_str token"
    and "\<And>v t. header_to_str lib v = Some t \<Longrightarrow> valid_str t"
    and "req_method req = lit ''GET''" and "req_path req = lit ''/metrics''"
  shows "(if \<exists>v vs. header_values (req_headers req) (lit ''authorization'') = v # vs \<and>
              header_to_str lib v = Some (lit ''Bearer '' @ token)
          then resp_status (snd (build_app lib w req s)) = 200
          else resp_status (snd (build_app lib w req s)) = 401 \<and>
            resp_body (snd (build_app lib w req s)) = json_text lib (error_body ''unauthorized''))"
proof -
  let ?r = "snd (build_app lib w req s)" and ?m = "metrics_ep lib s (req_headers req)"
  have r: "resp_status ?r = resp_status ?m" "resp_body ?r = resp_body ?m"
    using assms(4,5)
    by (simp_all add: build_app_def monitoring_direct is_monitoring_def timeout_mw_def routes_def handle_def split_def Let_def)
  have "valid_str p" if "presented_token lib (req_headers req) = Some p" for p
    using that assms(3) by (fastforce simp: presented_token_iff valid_str_def)
  then have "(case presented_token lib (req_headers req) of
        Some p \<Rightarrow> constant_time_eq (as_bytes p) (as_bytes token) | None \<Rightarrow> False) \<longleftrightarrow>
      presented_token lib (req_headers req) = Some token"
    using assms(2) by (auto simp: constant_time_eq_iff as_bytes_inject split: option.split)
  then show ?thesis
    unfolding r presented_token_iff [symmetric] by (auto simp: metrics_ep_def assms(1))
qed

section \<open>Refused requests\<close>

text \<open>
  C22. A request over the limit is refused before any work is done for it: the answer is 429 with
  the delay as \<open>Retry-After\<close>, and the state stays as it was except for the counters of a request, of
  a refusal and of an answer of class 4xx, which go up by one, and the cache of the limiter: it has
  the buckets that its own housekeeping left, and in it the client's bucket (there was one) has its
  tokens refilled up to now and none taken.
\<close>

theorem refused_requests_do_no_work:
  assumes "\<not> is_monitoring (req_path req)"
    and "snd (rate_check (rate_evict w) (rate_limit s) (self_ip s (req_headers req) (req_peer req)) (clock0 w) (clock1 w)) =
      Some secs"
  shows "resp_status (snd (build_app lib w req s)) = 429 \<and>
    header_values (resp_headers (snd (build_app lib w req s))) (lit ''retry-after'') = [as_bytes (show_nat (unat secs))] \<and>
    (let me = bucket_key (self_ip s (req_headers req) (req_peer req));
         buckets = rate_evict w (hits (rate_limit s))
     in \<exists>b. buckets me = Some b \<and>
       fst (build_app lib w req s) =
         s\<lparr>rate_limit := (rate_limit s)\<lparr>hits := buckets(me \<mapsto>
               b\<lparr>tokens := refill b (clock1 w) (per_minute (rate_limit s)), updated := clock1 w\<rparr>)\<rparr>,
           metrics := (metrics s)\<lparr>requests := requests (metrics s) + 1, rate_limited := rate_limited (metrics s) + 1,
             responses_4xx := responses_4xx (metrics s) + 1\<rparr>\<rparr>)"
proof -
  let ?me = "bucket_key (self_ip s (req_headers req) (req_peer req))" and ?buckets = "rate_evict w (hits (rate_limit s))"
  obtain b where b: "?buckets ?me = Some b" and check:
    "rate_check (rate_evict w) (rate_limit s) (self_ip s (req_headers req) (req_peer req)) (clock0 w) (clock1 w) =
      ((rate_limit s)\<lparr>hits := ?buckets(?me \<mapsto>
         b\<lparr>tokens := refill b (clock1 w) (per_minute (rate_limit s)), updated := clock1 w\<rparr>)\<rparr>, Some secs)"
    using refused_check [OF assms(2)] by blast
  have hv: "header_values [(lit ''retry-after'', v), (lit ''content-type'', v')] (lit ''retry-after'') = [v]" for v v'
    by (simp add: header_values_def)
  have "resp_status (snd (build_app lib w req s)) = 429"
    "header_values (resp_headers (snd (build_app lib w req s))) (lit ''retry-after'') = [as_bytes (show_nat (unat secs))]"
    using assms(1) by (simp_all add: build_app_def split_def other_headers_kept rate_limit_mw_def check hv Let_def)
  moreover have "fst (build_app lib w req s) =
      s\<lparr>rate_limit := (rate_limit s)\<lparr>hits := ?buckets(?me \<mapsto>
            b\<lparr>tokens := refill b (clock1 w) (per_minute (rate_limit s)), updated := clock1 w\<rparr>)\<rparr>,
        metrics := (metrics s)\<lparr>requests := requests (metrics s) + 1, rate_limited := rate_limited (metrics s) + 1,
          responses_4xx := responses_4xx (metrics s) + 1\<rparr>\<rparr>"
    using assms(1) by (simp add: build_app_def rate_limit_mw_def check metrics_mw_def count_def inc_def Let_def split_def)
  ultimately show ?thesis using b by simp
qed

section \<open>Accounts\<close>

text \<open>No other task touches the shared state during the request.\<close>

definition undisturbed :: "('r, 'k) request_world \<Rightarrow> bool" where
  "undisturbed w \<longleftrightarrow> while_busy w = id \<and> while_queued (rdns_call w) = id \<and> while_resolving (rdns_call w) = id"

definition accounts :: "('r, 'k) app_state \<Rightarrow> u64 \<times> u64 \<times> u64 \<times> u64 \<times> nat" where
  "accounts s =
     (let m = metrics s in (requests m, responses_4xx m, responses_5xx m, rate_limited m, concurrency s))"

lemma fst_await: "(\<And>s v. P (fst (f s v)) = P s) \<Longrightarrow> P (fst (await r f)) = P (fst r)"
  by (cases r; cases "snd r") (auto simp: await_def split_def Let_def)

lemma accounts_maybe_rdns:
  assumes "while_queued rw = id" and "while_resolving rw = id"
  shows "accounts (fst (maybe_rdns rw s ip_text org)) = accounts s"
  by (simp add: maybe_rdns_def rdns_queued_def rdns_granted_def rdns_await_def assms Let_def accounts_def rdns_effects
      split: option.split lookup_result.split)

lemma accounts_geo_cached: "accounts (fst (geo_cached lib evict s addr)) = accounts s"
  by (simp add: geo_cached_def accounts_def Let_def split: option.split)

lemma accounts_handle:
  assumes "undisturbed w"
  shows "accounts (fst (handle lib w req s)) = accounts s"
proof -
  have rdns: "accounts (fst (maybe_rdns (rdns_call w) s me org)) = accounts s" for s me org
    using assms accounts_maybe_rdns by (auto simp: undisturbed_def)
  have "accounts (fst (ip_type lib w s conn hs)) = accounts s" for conn hs
    by (simp add: ip_type_def Let_def split_def fst_await [where P = accounts] rdns accounts_geo_cached)
  moreover have "accounts (fst (judge lib w s conn hs p)) = accounts s" for conn hs p
    by (simp add: judge_def Let_def split_def fst_await [where P = accounts] rdns accounts_geo_cached)
  moreover have "accounts (fst (geo_ep lib w s conn hs)) = accounts s" for conn hs
    by (simp add: geo_ep_def Let_def split_def accounts_geo_cached)
  ultimately show ?thesis
    by (simp add: handle_def with_peer_def Let_def split_def split: option.split sum.split)
qed

lemma accounts_routes: "undisturbed w \<Longrightarrow> accounts (fst (routes lib w req s)) = accounts s"
  by (simp add: routes_def accounts_handle fst_await [where P = accounts])

lemma accounts_timeout: "accounts (fst (timeout_mw lib inner req s)) = accounts (fst (inner req s))"
  by (simp add: timeout_mw_def split: prod.split awaited.split)

lemma accounts_concurrency:
  assumes "undisturbed w" and "\<And>s. accounts (fst (inner req s)) = accounts s"
  shows "accounts (fst (concurrency_mw lib w inner req s)) = accounts s"
  using assms(1) assms(2) [of s] assms(2) [of "s\<lparr>concurrency := concurrency s - 1\<rparr>"]
  by (auto simp: concurrency_mw_def undisturbed_def accounts_def Let_def split_def)

lemma hundreds: "n div 100 = k \<longleftrightarrow> 100 * k \<le> n \<and> n < 100 * k + 100" for n :: nat
  by (auto intro: div_nat_eqI)

text \<open>
  The books balance: a request that no other task interferes with is counted exactly once,
  its response once in its status class, and as rate limited exactly if it was refused, and it
  returns the slot it took, also when it times out.
\<close>

theorem each_request_is_counted:
  assumes "undisturbed w"
  shows "(let (s', res) = build_app lib w req s;
      refused = (\<not> is_monitoring (req_path req) \<and>
        snd (rate_check (rate_evict w) (rate_limit s) (self_ip s (req_headers req) (req_peer req)) (clock0 w) (clock1 w)) \<noteq> None)
    in requests (metrics s') = requests (metrics s) + 1 \<and>
       responses_4xx (metrics s') = responses_4xx (metrics s) + (if resp_status res div 100 = 4 then 1 else 0) \<and>
       responses_5xx (metrics s') = responses_5xx (metrics s) + (if resp_status res div 100 = 5 then 1 else 0) \<and>
       rate_limited (metrics s') = rate_limited (metrics s) + (if refused then 1 else 0) \<and>
       concurrency s' = concurrency s)"
proof -
  let ?inner = "concurrency_mw lib w (timeout_mw lib (routes lib w))"
  let ?limited = "rate_limit_mw lib w ?inner"
  obtain rl v where rl: "rate_check (rate_evict w) (rate_limit s) (self_ip s (req_headers req) (req_peer req)) (clock0 w) (clock1 w) = (rl, v)"
    by (cases "rate_check (rate_evict w) (rate_limit s) (self_ip s (req_headers req) (req_peer req)) (clock0 w) (clock1 w)")
  define refused where "refused = (\<not> is_monitoring (req_path req) \<and> v \<noteq> None)"
  have inner: "accounts (fst (?inner req s)) = accounts s" for s
    by (rule accounts_concurrency [OF assms]) (simp add: accounts_timeout accounts_routes assms)
  have limited: "accounts (fst (?limited req s)) =
      (let m = metrics s in (requests m, responses_4xx m, responses_5xx m,
         rate_limited m + (if refused then 1 else 0), concurrency s))"
    using inner [of s] inner [of "s\<lparr>rate_limit := rl\<rparr>"]
    by (cases v) (simp_all add: rate_limit_mw_def rl refused_def accounts_def count_def inc_def Let_def split_def)
  have status: "400 \<le> n \<and> n < 500 \<longleftrightarrow> n div 100 = 4" "500 \<le> n \<and> n < 600 \<longleftrightarrow> n div 100 = 5" for n :: nat
    by (auto simp: hundreds)
  show ?thesis
    using limited
    by (simp add: build_app_def metrics_mw_def status rl accounts_def count_def inc_def Let_def split_def)
      (auto simp: refused_def)
qed

end
