(* ===== verification/Request_Phases.thy ===== *)
theory Request_Phases
  imports App_Layers
begin

text \<open>
  The handlers of \<open>src/app.rs\<close> cut at their await points. Only \<open>/type\<close> and \<open>/judge\<close> suspend: what
  they compute before \<open>maybe_rdns\<close> is a value they keep, and what they do with its answer is a
  function of that value. All other requests are answered without a suspension.
\<close>

section \<open>Handlers that suspend\<close>

definition routed :: "request \<Rightarrow> bool" where
  "routed req \<longleftrightarrow> req_method req \<in> {lit ''GET'', lit ''HEAD''}"

text \<open>The requests that get to \<open>maybe_rdns\<close>.\<close>

definition suspends :: "('r, 'l, 'v, 'k) app_libs \<Rightarrow> request \<Rightarrow> bool" where
  "suspends lib req \<longleftrightarrow>
     routed req \<and> req_peer req \<noteq> None \<and>
     (req_path req = lit ''/type'' \<or>
      req_path req = lit ''/judge'' \<and> (case parse_query lib (req_query req) of Inl _ \<Rightarrow> False | Inr _ \<Rightarrow> True))"

text \<open>
  The locals that live across the suspension: the client address and its database entry, and for
  \<open>/judge\<close> also the parameters, the view of the headers, the chain and the verdict.
\<close>

datatype pending =
    Type_Pending (pending_me: ustr) (pending_geo: geo_info)
  | Judge_Pending (pending_me: ustr) (pending_geo: geo_info)
      (pending_params: judge_params) (pending_view: "(ustr \<times> ustr) list") (pending_chain: "ustr list") (pending_level: ustr)

definition before_rdns ::
  "('r, 'l, 'v, 'k) app_libs \<Rightarrow> ((ustr \<rightharpoonup> geo_info) \<Rightarrow> (ustr \<rightharpoonup> geo_info)) \<Rightarrow> request \<Rightarrow> ('r, 'k) app_state \<Rightarrow>
     ('r, 'k) app_state \<times> pending" where
  "before_rdns lib evict req s =
     (let hs = req_headers req;
          me = self_ip s hs (req_peer req);
          (s', g) = geo_cached (geo_db_lib lib) evict s me
      in if req_path req = lit ''/type'' then (s', Type_Pending me g)
         else
           (let p = projr (parse_query lib (req_query req));
                (view, chain) = proxy_view s hs me;
                direct = Option.bind (without_lf (direct_ip p)) normalize_host
            in (s', Judge_Pending me g p view chain (anonymity_level view direct (trust_cf s)))))"

fun after_rdns ::
  "('r, 'l, 'v, 'k) app_libs \<Rightarrow> ('r, 'k) app_state \<Rightarrow> pending \<Rightarrow> ustr option \<Rightarrow> response" where
  "after_rdns lib s (Type_Pending me g) ptr =
     (let (t, signals) = classify_ip (unicode_alnum lib) (aso g) ptr
      in json_response lib 200 (J_Obj
           [(lit ''ip'', J_Str me), (lit ''ip_type'', J_Str t), (lit ''signals'', json_signals signals)]))"
| "after_rdns lib s (Judge_Pending me g p view chain level) ptr =
     (let (t, signals) = classify_ip (unicode_alnum lib) (aso g) ptr
      in signed_response lib (signer s) p (judge_body lib s me view chain level g t signals))"

section \<open>The cut is faithful\<close>

lemma await_await:
  "await (await r f) g = await r (\<lambda>s v. (let (s', x) = f s v in g s' x))"
  by (cases r; cases "snd r") (auto simp: await_def split_def Let_def)

lemma await_map:
  "fst (await r (\<lambda>s v. (s, f v))) = fst r" "snd (await r (\<lambda>s v. (s, f v))) = map_awaited f (snd r)"
  by (cases r; cases "snd r"; simp add: await_def)+

lemma handle_suspending:
  assumes "suspends lib req"
  shows "handle lib w req s =
    (let (s', pd) = before_rdns lib (geo_evict w) req s
     in await (maybe_rdns (rdns_call w) s' (pending_me pd) (aso (pending_geo pd)))
          (\<lambda>t ptr. (t, after_rdns lib t pd ptr)))"
proof -
  obtain conn where conn: "req_peer req = Some conn" using assms by (auto simp: suspends_def)
  show ?thesis
  proof (cases "req_path req = lit ''/type''")
    case True
    then show ?thesis
      by (simp add: handle_def with_peer_def conn ip_type_def before_rdns_def Let_def split_def)
  next
    case False
    with assms have path: "req_path req = lit ''/judge''" by (simp add: suspends_def)
    obtain p where p: "parse_query lib (req_query req) = Inr p"
      using assms False by (auto simp: suspends_def split: sum.splits)
    show ?thesis
      by (simp add: handle_def with_peer_def conn path p judge_def before_rdns_def Let_def split_def)
  qed
qed

lemma routes_suspending:
  assumes "suspends lib req"
  shows "routes lib w req s =
    (let (s', pd) = before_rdns lib (geo_evict w) req s
     in await (maybe_rdns (rdns_call w) s' (pending_me pd) (aso (pending_geo pd)))
          (\<lambda>t ptr. (t, after_rdns lib t pd ptr)))"
proof -
  have "routed req" using assms by (simp add: suspends_def)
  then show ?thesis
    by (auto simp: routes_def routed_def handle_suspending [OF assms] Let_def split_def await_await)
qed

lemma routes_plain:
  assumes "\<not> suspends lib req"
  obtains s' res where "routes lib w req s = (s', Ready res)"
proof -
  have "\<exists>res. snd (handle lib w req s) = Ready res" if "routed req"
    using assms that
    by (auto simp: handle_def with_peer_def suspends_def Let_def split_def split: option.split sum.split)
  then have "\<exists>s' res. routes lib w req s = (s', Ready res)"
    by (cases "handle lib w req s") (auto simp: routes_def routed_def await_def split_def Let_def)
  then show ?thesis using that by blast
qed

section \<open>What an answer depends on\<close>

text \<open>The part of the shared state that is set up once.\<close>

definition settings ::
  "('r, 'k) app_state \<Rightarrow> 'r geo_pool \<times> bool \<times> bool \<times> nat \<times> ustr list \<times> ustr option \<times> 'k signer" where
  "settings s = (geo s, trust_proxy s, trust_cf s, rdns_timeout s, edge_headers s, metrics_token s, signer s)"

text \<open>The cached database entries are the ones the databases give.\<close>

definition geo_coherent :: "('r, 'l, 'v, 'k) app_libs \<Rightarrow> ('r, 'k) app_state \<Rightarrow> bool" where
  "geo_coherent lib s \<longleftrightarrow> (\<forall>k g. geo_cache s k = Some g \<longrightarrow> g = geo_lookup (geo_db_lib lib) (geo s) k)"

lemma settings_fields:
  assumes "settings s = settings t"
  shows "geo s = geo t" "trust_proxy s = trust_proxy t" "trust_cf s = trust_cf t" "rdns_timeout s = rdns_timeout t"
    "edge_headers s = edge_headers t" "metrics_token s = metrics_token t" "signer s = signer t"
  using assms by (simp_all add: settings_def)

lemma self_ip_settings: "settings s = settings t \<Longrightarrow> self_ip s hs conn = self_ip t hs conn"
  by (simp add: self_ip_def settings_def)

lemma proxy_view_settings: "settings s = settings t \<Longrightarrow> proxy_view s hs me = proxy_view t hs me"
  by (simp add: proxy_view_def settings_def Let_def)

lemma coherent_entry:
  assumes "geo_coherent lib s" and "\<And>m. evict m \<subseteq>\<^sub>m m" and "evict (geo_cache s) k = Some g"
  shows "g = geo_lookup (geo_db_lib lib) (geo s) k"
proof -
  have "geo_cache s k = Some g" using assms(2,3) by (rule map_le_SomeD)
  then show ?thesis using assms(1) by (simp add: geo_coherent_def)
qed

lemma geo_cached_coherent:
  assumes "geo_coherent lib s" and "\<And>m. evict m \<subseteq>\<^sub>m m"
  shows "snd (geo_cached (geo_db_lib lib) evict s addr) = geo_lookup (geo_db_lib lib) (geo s) addr \<and>
    geo_coherent lib (fst (geo_cached (geo_db_lib lib) evict s addr))"
proof -
  note entry = coherent_entry [OF assms]
  show ?thesis
    by (auto simp: geo_cached_def Let_def geo_coherent_def dest: entry split: option.split)
qed

lemma geo_cached_keeps:
  "settings (fst (geo_cached lib evict s addr)) = settings s"
  "ptr_cache (fst (geo_cached lib evict s addr)) = ptr_cache s" "rdns_sem (fst (geo_cached lib evict s addr)) = rdns_sem s"
  "rate_limit (fst (geo_cached lib evict s addr)) = rate_limit s" "metrics (fst (geo_cached lib evict s addr)) = metrics s"
  "concurrency (fst (geo_cached lib evict s addr)) = concurrency s"
  by (simp_all add: geo_cached_def Let_def settings_def split: option.split)

lemma before_rdns_keeps:
  "settings (fst (before_rdns lib evict req s)) = settings s"
  "ptr_cache (fst (before_rdns lib evict req s)) = ptr_cache s" "rdns_sem (fst (before_rdns lib evict req s)) = rdns_sem s"
  "rate_limit (fst (before_rdns lib evict req s)) = rate_limit s" "metrics (fst (before_rdns lib evict req s)) = metrics s"
  "concurrency (fst (before_rdns lib evict req s)) = concurrency s"
  by (simp_all add: before_rdns_def Let_def split_def geo_cached_keeps)

lemma before_rdns_coherent:
  assumes "geo_coherent lib s" and "\<And>m. evict m \<subseteq>\<^sub>m m"
  shows "geo_coherent lib (fst (before_rdns lib evict req s))"
  using geo_cached_coherent [OF assms] by (simp add: before_rdns_def Let_def split_def)

text \<open>What a suspended handler keeps depends on the request and the settings only.\<close>

lemma before_rdns_value:
  assumes "geo_coherent lib s" and "\<And>m. evict m \<subseteq>\<^sub>m m" and "geo_coherent lib t" and "settings s = settings t"
  shows "snd (before_rdns lib evict req s) = snd (before_rdns lib id req t)"
  using geo_cached_coherent [OF assms(1,2)] geo_cached_coherent [OF assms(3), of id]
  by (simp add: before_rdns_def Let_def split_def self_ip_settings [OF assms(4)] proxy_view_settings [OF assms(4)]
      settings_fields [OF assms(4)])

lemma after_rdns_settings: "settings s = settings t \<Longrightarrow> after_rdns lib s pd ptr = after_rdns lib t pd ptr"
  by (cases pd) (simp_all add: judge_body_def sources_or_null_def settings_def)

lemma sources_or_null_settings: "settings s = settings t \<Longrightarrow> sources_or_null s = sources_or_null t"
  by (simp add: sources_or_null_def settings_def)

lemma geo_ep_value:
  assumes "geo_coherent lib s" and "\<And>m. geo_evict w m \<subseteq>\<^sub>m m" and "geo_coherent lib t" and "\<And>m. geo_evict v m \<subseteq>\<^sub>m m"
    and "settings s = settings t"
  shows "snd (geo_ep lib w s conn hs) = snd (geo_ep lib v t conn hs)"
proof -
  have "settings (fst (geo_cached (geo_db_lib lib) (geo_evict w) s me)) =
      settings (fst (geo_cached (geo_db_lib lib) (geo_evict v) t me))" for me
    using assms(5) by (simp add: geo_cached_keeps)
  note same = settings_fields(1) [OF this] sources_or_null_settings [OF this]
  show ?thesis
    using geo_cached_coherent [OF assms(1,2)] geo_cached_coherent [OF assms(3,4)]
    by (simp add: geo_ep_def Let_def split_def self_ip_settings [OF assms(5)] settings_fields [OF assms(5)] same)
qed

lemma geo_ep_keeps:
  "settings (fst (geo_ep lib w s conn hs)) = settings s"
  "ptr_cache (fst (geo_ep lib w s conn hs)) = ptr_cache s" "rdns_sem (fst (geo_ep lib w s conn hs)) = rdns_sem s"
  "rate_limit (fst (geo_ep lib w s conn hs)) = rate_limit s" "metrics (fst (geo_ep lib w s conn hs)) = metrics s"
  "concurrency (fst (geo_ep lib w s conn hs)) = concurrency s"
  by (simp_all add: geo_ep_def Let_def split_def geo_cached_keeps)

lemma geo_ep_coherent:
  assumes "geo_coherent lib s" and "\<And>m. geo_evict w m \<subseteq>\<^sub>m m"
  shows "geo_coherent lib (fst (geo_ep lib w s conn hs))"
  using geo_cached_coherent [OF assms] by (simp add: geo_ep_def Let_def split_def)

lemma fst_if_mem:
  "(c \<Longrightarrow> fst x \<in> A) \<Longrightarrow> (\<not> c \<Longrightarrow> fst y \<in> A) \<Longrightarrow> fst (if c then x else y) \<in> A"
  "fst (s, res) \<in> insert s A"
  by simp_all

lemma handle_plain_state:
  assumes "\<not> suspends lib req" and "routed req"
  shows "fst (handle lib w req s) \<in> {s, fst (geo_ep lib w s (the (req_peer req)) (req_headers req))}"
proof (cases "req_peer req")
  case None
  show ?thesis unfolding handle_def with_peer_def Let_def None option.case by (intro fst_if_mem)
next
  case (Some conn)
  have type: "req_path req \<noteq> lit ''/type''"
    using assms Some by (auto simp: suspends_def)
  have judge: "\<exists>res. parse_query lib (req_query req) = Inl res" if "req_path req = lit ''/judge''"
    using assms Some that by (auto simp: suspends_def split: sum.splits)
  show ?thesis
    unfolding handle_def with_peer_def Let_def split_def Some option.case option.sel
    by (intro fst_if_mem; (simp add: type)?) (use judge in auto)
qed

lemma routes_plain_state:
  assumes "\<not> suspends lib req"
  shows "fst (routes lib w req s) = s \<or> (\<exists>conn. fst (routes lib w req s) = fst (geo_ep lib w s conn (req_headers req)))"
proof (cases "routed req")
  case True
  then have "fst (routes lib w req s) = fst (handle lib w req s)" by (auto simp: routes_def routed_def await_map)
  then show ?thesis using handle_plain_state [OF assms True, of w s] by (metis insertE singletonD)
qed (simp add: routes_def routed_def)

lemma routes_plain_keeps:
  assumes "\<not> suspends lib req"
  shows "settings (fst (routes lib w req s)) = settings s" "ptr_cache (fst (routes lib w req s)) = ptr_cache s"
    "rdns_sem (fst (routes lib w req s)) = rdns_sem s" "rate_limit (fst (routes lib w req s)) = rate_limit s"
    "metrics (fst (routes lib w req s)) = metrics s" "concurrency (fst (routes lib w req s)) = concurrency s"
  using routes_plain_state [OF assms, of w s] by (auto simp: geo_ep_keeps)

lemma routes_plain_coherent:
  assumes "\<not> suspends lib req" and "geo_coherent lib s" and "\<And>m. geo_evict w m \<subseteq>\<^sub>m m"
  shows "geo_coherent lib (fst (routes lib w req s))"
  using routes_plain_state [OF assms(1), of w s] geo_ep_coherent [OF assms(2,3)] assms(2) by auto

text \<open>An answer given at once depends on the request, the settings and (for a scrape) the counters.\<close>

lemma handle_plain_value:
  assumes "\<not> suspends lib req" and "routed req" and "settings s = settings t" and "metrics s = metrics t"
    and "geo_coherent lib s" and "\<And>m. geo_evict w m \<subseteq>\<^sub>m m" and "geo_coherent lib t" and "\<And>m. geo_evict v m \<subseteq>\<^sub>m m"
  shows "snd (handle lib w req s) = snd (handle lib v req t)"
proof -
  note geo = geo_ep_value [OF assms(5-8,3)]
  note same = settings_fields [OF assms(3)] self_ip_settings [OF assms(3)] proxy_view_settings [OF assms(3)] assms(4)
  have endpoints: "index lib s = index lib t" "readyz lib s = readyz lib t" "key_ep lib s = key_ep lib t"
    "metrics_ep lib s hs = metrics_ep lib t hs" "ip_ep lib s conn hs = ip_ep lib t conn hs"
    "headers_echo lib s conn hs = headers_echo lib t conn hs" for conn hs
    by (simp_all add: index_def readyz_def key_ep_def metrics_ep_def ip_ep_def headers_echo_def same split: option.split)
  show ?thesis
    using assms(1,2)
    unfolding handle_def with_peer_def Let_def split_def
    by (simp add: endpoints geo suspends_def split: option.split sum.split) auto
qed

lemma routes_plain_value:
  assumes "\<not> suspends lib req" and "settings s = settings t" and "metrics s = metrics t"
    and "geo_coherent lib s" and "\<And>m. geo_evict w m \<subseteq>\<^sub>m m" and "geo_coherent lib t" and "\<And>m. geo_evict v m \<subseteq>\<^sub>m m"
  shows "snd (routes lib w req s) = snd (routes lib v req t)"
proof (cases "routed req")
  case True
  then show ?thesis
    using handle_plain_value [OF assms(1) True assms(2-7)] by (simp add: routes_def await_map)
qed (simp add: routes_def routed_def)

end
