(* ===== verification/Request_Slots.thy ===== *)
theory Request_Slots
  imports App_Layers
begin

text \<open>
  The bound on concurrent requests (\<open>concurrency_mw\<close> of \<open>src/app.rs\<close>) with all requests in
  flight: a step relation on the slots and on where every request stands, and the layer as one
  request runs it as a run of these steps.
\<close>

section \<open>Requests and slots\<close>

text \<open>
  A request is exempt (a monitoring path), waits for a slot, runs with a slot, is answered with
  a status, or was given up by its client.
\<close>

datatype flight = Exempt | Waiting | Running | Answered_With nat | Hung_Up

record slots =
  free_slots :: nat
  flights :: "nat \<rightharpoonup> flight"

definition slots_init :: "slots \<Rightarrow> bool" where
  "slots_init g \<longleftrightarrow> g = \<lparr>free_slots = MAX_CONCURRENCY, flights = Map.empty\<rparr>"

definition set_flight :: "nat \<Rightarrow> flight \<Rightarrow> slots \<Rightarrow> slots" where
  "set_flight r f g = g\<lparr>flights := (flights g)(r \<mapsto> f)\<rparr>"

text \<open>
  Waiting ends after five seconds with 503. The permit is a local of the layer's future: it is
  returned when the inner service has answered and also when the connection goes away and the
  future is dropped.
\<close>

inductive slots_step :: "slots \<Rightarrow> slots \<Rightarrow> bool" where
  exempt: "flights g r = None \<Longrightarrow> is_monitoring path \<Longrightarrow> slots_step g (set_flight r Exempt g)"
| arrive: "flights g r = None \<Longrightarrow> \<not> is_monitoring path \<Longrightarrow> slots_step g (set_flight r Waiting g)"
| slot: "flights g r = Some Waiting \<Longrightarrow> 0 < free_slots g \<Longrightarrow>
    slots_step g (set_flight r Running (g\<lparr>free_slots := free_slots g - 1\<rparr>))"
| busy: "flights g r = Some Waiting \<Longrightarrow> slots_step g (set_flight r (Answered_With 503) g)"
| answer: "flights g r = Some Running \<Longrightarrow>
    slots_step g (set_flight r (Answered_With st) (g\<lparr>free_slots := free_slots g + 1\<rparr>))"
| answer_exempt: "flights g r = Some Exempt \<Longrightarrow> slots_step g (set_flight r (Answered_With st) g)"
| hang_up_waiting: "flights g r = Some Waiting \<Longrightarrow> slots_step g (set_flight r Hung_Up g)"
| hang_up_running: "flights g r = Some Running \<Longrightarrow>
    slots_step g (set_flight r Hung_Up (g\<lparr>free_slots := free_slots g + 1\<rparr>))"
| hang_up_exempt: "flights g r = Some Exempt \<Longrightarrow> slots_step g (set_flight r Hung_Up g)"

definition running :: "slots \<Rightarrow> nat set" where
  "running g = {r. flights g r = Some Running}"

definition slots_inv :: "slots \<Rightarrow> bool" where
  "slots_inv g \<longleftrightarrow> finite (running g) \<and> free_slots g + card (running g) = MAX_CONCURRENCY"

lemma set_flight_simps [simp]:
  "free_slots (set_flight r f g) = free_slots g" "flights (set_flight r f g) = (flights g)(r \<mapsto> f)"
  by (simp_all add: set_flight_def)

lemma running_set_flight:
  "running (set_flight r f g) = (if f = Running then insert r (running g) else running g - {r})"
  by (auto simp: running_def)

lemma running_update [simp]: "running (g\<lparr>free_slots := n\<rparr>) = running g"
  by (simp add: running_def)

lemma not_running: "flights g r \<noteq> Some Running \<Longrightarrow> running g - {r} = running g"
  by (auto simp: running_def)

lemma slots_inv_step:
  assumes "slots_inv g" and "slots_step g g'"
  shows "slots_inv g'"
proof -
  have returned: "Suc (card (running g - {r})) = card (running g)" if "flights g r = Some Running" for r
    using assms(1) that by (intro card_Suc_Diff1) (auto simp: slots_inv_def running_def)
  show ?thesis
    using assms(2)
  proof cases
    case (slot r)
    then have "r \<notin> running g" by (simp add: running_def)
    with slot assms(1) show ?thesis by (simp add: slots_inv_def running_set_flight)
  next
    case (answer r st)
    then show ?thesis using returned [of r] assms(1) by (simp add: slots_inv_def running_set_flight)
  next
    case (hang_up_running r)
    then show ?thesis using returned [of r] assms(1) by (simp add: slots_inv_def running_set_flight)
  qed (use assms(1) not_running in \<open>auto simp: slots_inv_def running_set_flight\<close>)
qed

interpretation slots: permit_pool slots_init slots_step slots_inv free_slots running MAX_CONCURRENCY
proof
  show "slots_inv g" if "slots_init g" for g
    using that by (simp add: slots_init_def slots_inv_def running_def)
  show "slots_inv g'" if "slots_inv g" "slots_step g g'" for g g'
    using that by (rule slots_inv_step)
qed (simp_all add: slots_inv_def)

section \<open>The layer is a run\<close>

text \<open>A run that answers the request and leaves the slots as they were.\<close>

definition run_answers :: "slots \<Rightarrow> nat \<Rightarrow> nat \<Rightarrow> bool" where
  "run_answers g r st \<longleftrightarrow>
     (\<exists>g'. slots_step\<^sup>*\<^sup>* g g' \<and> free_slots g' = free_slots g \<and> flights g' = (flights g)(r \<mapsto> Answered_With st))"

lemma run_answersI:
  "slots_step\<^sup>*\<^sup>* g g' \<Longrightarrow> free_slots g' = free_slots g \<Longrightarrow> flights g' = (flights g)(r \<mapsto> Answered_With st) \<Longrightarrow>
     run_answers g r st"
  by (auto simp: run_answers_def)

lemma run_exempt:
  assumes "flights g r = None" and "is_monitoring path"
  shows "run_answers g r st"
proof (rule run_answersI)
  have "slots_step g (set_flight r Exempt g)" using assms by (rule slots_step.exempt)
  moreover have "slots_step (set_flight r Exempt g) (set_flight r (Answered_With st) (set_flight r Exempt g))"
    by (rule slots_step.answer_exempt) simp
  ultimately show "slots_step\<^sup>*\<^sup>* g (set_flight r (Answered_With st) (set_flight r Exempt g))" by auto
qed simp_all

lemma run_busy:
  assumes "flights g r = None" and "\<not> is_monitoring path"
  shows "run_answers g r 503"
proof (rule run_answersI)
  have "slots_step g (set_flight r Waiting g)" using assms by (rule slots_step.arrive)
  moreover have "slots_step (set_flight r Waiting g) (set_flight r (Answered_With 503) (set_flight r Waiting g))"
    by (rule slots_step.busy) simp
  ultimately show "slots_step\<^sup>*\<^sup>* g (set_flight r (Answered_With 503) (set_flight r Waiting g))" by auto
qed simp_all

lemma run_served:
  assumes "flights g r = None" and "\<not> is_monitoring path" and "0 < free_slots g"
  shows "run_answers g r st"
proof (rule run_answersI)
  let ?g1 = "set_flight r Waiting g"
  let ?g2 = "set_flight r Running (?g1\<lparr>free_slots := free_slots ?g1 - 1\<rparr>)"
  let ?g3 = "set_flight r (Answered_With st) (?g2\<lparr>free_slots := free_slots ?g2 + 1\<rparr>)"
  have "slots_step g ?g1" using assms(1,2) by (rule slots_step.arrive)
  moreover have "slots_step ?g1 ?g2" by (rule slots_step.slot) (simp_all add: assms(3))
  moreover have "slots_step ?g2 ?g3" by (rule slots_step.answer) simp
  ultimately show "slots_step\<^sup>*\<^sup>* g ?g3" by (blast intro: converse_rtranclp_into_rtranclp)
qed (use assms(3) in simp_all)

text \<open>
  At most 512 requests are in the handlers at once however requests arrive, finish, time out
  or lose their client, and the layer as one request runs it is a run of these steps: it ends
  with the slots the layer leaves and the status it answers.
\<close>

theorem slots_bound_handlers:
  assumes "reachable slots_init slots_step g" and "flights g r = None"
    and "concurrency s = free_slots g" and "while_busy w = id"
    and "\<And>t. concurrency (fst (inner req t)) = concurrency t"
  shows "finite (running g) \<and> card (running g) \<le> 512 \<and>
    run_answers g r (resp_status (snd (concurrency_mw lib w inner req s))) \<and>
    concurrency (fst (concurrency_mw lib w inner req s)) = free_slots g"
proof -
  have bound: "finite (running g) \<and> card (running g) \<le> 512"
    using slots.holders_bounded [OF assms(1) order_refl] by (simp add: MAX_CONCURRENCY_def)
  show ?thesis
  proof (cases "is_monitoring (req_path req)")
    case True
    then show ?thesis using bound run_exempt [OF assms(2) True] assms(3,5) by (simp add: concurrency_mw_def)
  next
    case False
    then show ?thesis
      using bound run_busy [OF assms(2) False] run_served [OF assms(2) False] assms(3-5)
      by (auto simp: concurrency_mw_def Let_def split_def)
  qed
qed

section \<open>A request\<close>

definition empty_slots :: slots where
  "empty_slots = \<lparr>free_slots = MAX_CONCURRENCY, flights = Map.empty\<rparr>"

theorem slots_bound_handlers_witness:
  "run_answers empty_slots 0 204 \<and> card (running empty_slots) \<le> 512"
proof -
  let ?w = "\<lparr>geo_evict = id, rate_evict = id, clock0 = 0, clock1 = 0, while_busy = id, slot_in_time = True,
    rdns_call = demo_rdns\<rparr>"
  let ?req = "\<lparr>req_method = lit ''GET'', req_path = lit ''/generate_204'', req_query = None, req_headers = [], req_peer = None\<rparr>"
  have "reachable slots_init slots_step empty_slots"
    by (rule reachable_init) (simp add: slots_init_def empty_slots_def)
  then have "run_answers empty_slots 0 (resp_status (snd (concurrency_mw lib ?w (\<lambda>req s. (s, generate_204)) ?req demo_state))) \<and>
      card (running empty_slots) \<le> 512" for lib :: "(ustr + demo_json, demo_json, demo_json, u8 list) app_libs"
    using slots_bound_handlers [of empty_slots 0 demo_state ?w "\<lambda>req s. (s, generate_204)" ?req lib]
    by (simp add: empty_slots_def demo_state_def app_state_new_def)
  then show ?thesis
    by (simp add: concurrency_mw_def is_monitoring_def str_eval Let_def generate_204_def demo_state_def app_state_new_def MAX_CONCURRENCY_def)
qed

end
