(* ===== verification/Service_Machine.thy ===== *)
theory Service_Machine
  imports Request_Phases Request_Slots
begin

text \<open>
  The service with all requests in flight: every request goes through the layers of \<open>build_app\<close>
  (\<open>src/app.rs\<close>) one access to the shared state at a time, interleaved with all other requests
  and with the resolver tasks. This theory has the machine, its accounts (slots, counters, the
  log of the rate limiter) and the run of one request; \<open>Service_Answers\<close> has what the answers are.
\<close>

section \<open>Stages of a request\<close>

text \<open>
  Where a request stands: refused by the limiter, waiting for a slot, about to be handled,
  suspended in \<open>maybe_rdns\<close>, answered by the inner service and about to return its slot, on its
  way out through the layers (counted in no counter, in the request counter, in its class), or
  given up by its client at an await point.
\<close>

datatype stage =
    Over_Limit request u64
  | Queueing request
  | Handling request
  | Naming request pending
  | Releasing request response
  | Leaving request response
  | Classing request response
  | Sent request response
  | Gone request

fun stage_request :: "stage \<Rightarrow> request" where
  "stage_request (Over_Limit req secs) = req"
| "stage_request (Queueing req) = req"
| "stage_request (Handling req) = req"
| "stage_request (Naming req pd) = req"
| "stage_request (Releasing req res) = req"
| "stage_request (Leaving req res) = req"
| "stage_request (Classing req res) = req"
| "stage_request (Sent req res) = req"
| "stage_request (Gone req) = req"

text \<open>
  The machine: the shared state with the calls of \<open>maybe_rdns\<close> (named by their requests) and the
  resolver tasks, the requests, and the history of the limiter, which only the proofs read.
\<close>

record ('r, 'k) service_machine =
  lookups :: "('r, 'k) rdns_machine"
  stages :: "nat \<rightharpoonup> stage"
  limiter_log :: "(nat \<times> access) list"

abbreviation app :: "('r, 'k) service_machine \<Rightarrow> ('r, 'k) app_state" where
  "app m \<equiv> shared (lookups m)"

definition enter :: "nat \<Rightarrow> stage \<Rightarrow> ('r, 'k) service_machine \<Rightarrow> ('r, 'k) service_machine" where
  "enter r st m = m\<lparr>stages := (stages m)(r \<mapsto> st)\<rparr>"

definition on_app ::
  "(('r, 'k) app_state \<Rightarrow> ('r, 'k) app_state) \<Rightarrow> ('r, 'k) service_machine \<Rightarrow> ('r, 'k) service_machine" where
  "on_app f m = m\<lparr>lookups := on_shared f (lookups m)\<rparr>"

definition with_lookups :: "('r, 'k) rdns_machine \<Rightarrow> ('r, 'k) service_machine \<Rightarrow> ('r, 'k) service_machine" where
  "with_lookups p m = m\<lparr>lookups := p\<rparr>"

definition note_access :: "nat \<Rightarrow> access \<Rightarrow> ('r, 'k) service_machine \<Rightarrow> ('r, 'k) service_machine" where
  "note_access r a m = m\<lparr>limiter_log := limiter_log m @ [(r, a)]\<rparr>"

section \<open>Responses of the layers\<close>

definition too_many_requests :: "('r, 'l, 'v, 'k) app_libs \<Rightarrow> u64 \<Rightarrow> response" where
  "too_many_requests lib secs =
     (json_response lib 429 (error_body ''rate limited''))
       \<lparr>resp_headers := [(lit ''retry-after'', as_bytes (show_nat (unat secs))),
          (lit ''content-type'', as_bytes (lit ''application/json''))]\<rparr>"

definition service_busy :: "('r, 'l, 'v, 'k) app_libs \<Rightarrow> response" where
  "service_busy lib = json_response lib 503 (error_body ''busy'')"

definition request_timeout :: "('r, 'l, 'v, 'k) app_libs \<Rightarrow> response" where
  "request_timeout lib = json_response lib 504 (error_body ''request timeout'')"

definition hardened :: "request \<Rightarrow> response \<Rightarrow> response" where
  "hardened req res =
     (let res = res\<lparr>resp_headers := header_insert (lit ''x-content-type-options'') (lit ''nosniff'') (resp_headers res)\<rparr>
      in if req_path req \<noteq> lit ''/content'' \<or> resp_status res \<noteq> 200
         then res\<lparr>resp_headers := header_insert (lit ''cache-control'') (lit ''no-store'') (resp_headers res)\<rparr>
         else res)"

text \<open>As it leaves the router: with the headers of the layers, and without its body for \<open>HEAD\<close>.\<close>

definition delivered :: "request \<Rightarrow> response \<Rightarrow> response" where
  "delivered req res = head_only req (hardened req res)"

lemma delivered_simps [simp]:
  "resp_status (delivered req res) = resp_status res"
  "resp_headers (delivered req res) = resp_headers (hardened req res)"
  "req_method req = lit ''GET'' \<Longrightarrow> delivered req res = hardened req res"
  by (simp_all add: delivered_def hardened_def Let_def)

definition client_error :: "response \<Rightarrow> bool" where
  "client_error res \<longleftrightarrow> 400 \<le> resp_status res \<and> resp_status res < 500"

definition server_error :: "response \<Rightarrow> bool" where
  "server_error res \<longleftrightarrow> 500 \<le> resp_status res \<and> resp_status res < 600"

definition count_request :: "('r, 'k) app_state \<Rightarrow> ('r, 'k) app_state" where
  "count_request = count (\<lambda>m. m\<lparr>requests := inc (requests m)\<rparr>)"

definition count_refused :: "('r, 'k) app_state \<Rightarrow> ('r, 'k) app_state" where
  "count_refused = count (\<lambda>m. m\<lparr>rate_limited := inc (rate_limited m)\<rparr>)"

definition count_class :: "response \<Rightarrow> ('r, 'k) app_state \<Rightarrow> ('r, 'k) app_state" where
  "count_class res s =
     (let s = (if client_error res then count (\<lambda>m. m\<lparr>responses_4xx := inc (responses_4xx m)\<rparr>) s else s)
      in if server_error res then count (\<lambda>m. m\<lparr>responses_5xx := inc (responses_5xx m)\<rparr>) s else s)"

definition take_slot :: "('r, 'k) app_state \<Rightarrow> ('r, 'k) app_state" where
  "take_slot s = s\<lparr>concurrency := concurrency s - 1\<rparr>"

definition return_slot :: "request \<Rightarrow> ('r, 'k) app_state \<Rightarrow> ('r, 'k) app_state" where
  "return_slot req s = (if is_monitoring (req_path req) then s else s\<lparr>concurrency := concurrency s + 1\<rparr>)"

section \<open>Steps\<close>

text \<open>
  A request arrives. The limiter checks it under the lock of its bucket, with whatever entries
  the cache has dropped by then; monitoring requests pass it.
\<close>

inductive arrival :: "nat \<Rightarrow> request \<Rightarrow> ('r, 'k) service_machine \<Rightarrow> ('r, 'k) service_machine \<Rightarrow> bool" where
  exempt: "stages m r = None \<Longrightarrow> is_monitoring (req_path req) \<Longrightarrow> arrival r req m (enter r (Handling req) m)"
| over_limit: "stages m r = None \<Longrightarrow> \<not> is_monitoring (req_path req) \<Longrightarrow>
    a = (evict, self_ip (app m) (req_headers req) (req_peer req), now0, now1) \<Longrightarrow> only_evicts a \<Longrightarrow>
    rate_access (rate_limit (app m)) a = (rl, Some secs) \<Longrightarrow>
    arrival r req m (enter r (Over_Limit req secs) (note_access r a (on_app (\<lambda>s. s\<lparr>rate_limit := rl\<rparr>) m)))"
| admitted: "stages m r = None \<Longrightarrow> \<not> is_monitoring (req_path req) \<Longrightarrow>
    a = (evict, self_ip (app m) (req_headers req) (req_peer req), now0, now1) \<Longrightarrow> only_evicts a \<Longrightarrow>
    rate_access (rate_limit (app m)) a = (rl, None) \<Longrightarrow>
    arrival r req m (enter r (Queueing req) (note_access r a (on_app (\<lambda>s. s\<lparr>rate_limit := rl\<rparr>) m)))"

text \<open>
  A request moves on by itself. A handler that suspends starts its call of \<open>maybe_rdns\<close> and goes
  on when the call has returned; if the call was dropped, the deadline answers, or the client has
  gone away and the future of the whole request is dropped, which returns the slot.
\<close>

inductive progress ::
  "('r, 'l, 'v, 'k) app_libs \<Rightarrow> nat \<Rightarrow> ('r, 'k) service_machine \<Rightarrow> ('r, 'k) service_machine \<Rightarrow> bool"
  for lib :: "('r, 'l, 'v, 'k) app_libs" where
  refuse: "stages m r = Some (Over_Limit req secs) \<Longrightarrow>
    progress lib r m (enter r (Leaving req (too_many_requests lib secs)) (on_app count_refused m))"
| slot: "stages m r = Some (Queueing req) \<Longrightarrow> 0 < concurrency (app m) \<Longrightarrow>
    progress lib r m (enter r (Handling req) (on_app take_slot m))"
| busy: "stages m r = Some (Queueing req) \<Longrightarrow> progress lib r m (enter r (Leaving req (service_busy lib)) m)"
| give_up_queue: "stages m r = Some (Queueing req) \<Longrightarrow> progress lib r m (enter r (Gone req) m)"
| answer: "stages m r = Some (Handling req) \<Longrightarrow> \<not> suspends lib req \<Longrightarrow> (\<And>x. geo_evict w x \<subseteq>\<^sub>m x) \<Longrightarrow>
    routes lib w req (app m) = (s, Ready res) \<Longrightarrow>
    progress lib r m (enter r (Releasing req res) (on_app (\<lambda>_. s) m))"
| suspend: "stages m r = Some (Handling req) \<Longrightarrow> suspends lib req \<Longrightarrow> (\<And>x. evict x \<subseteq>\<^sub>m x) \<Longrightarrow>
    before_rdns lib evict req (app m) = (s, pd) \<Longrightarrow>
    progress lib r m (enter r (Naming req pd) (on_app (\<lambda>_. s) m))"
| ask: "stages m r = Some (Naming req pd) \<Longrightarrow>
    start_step r (pending_me pd) (aso (pending_geo pd)) (lookups m) p \<Longrightarrow> progress lib r m (with_lookups p m)"
| named: "stages m r = Some (Naming req pd) \<Longrightarrow> calls (lookups m) r = Some (Returned asked ptr) \<Longrightarrow>
    progress lib r m (enter r (Releasing req (after_rdns lib (app m) pd ptr)) m)"
| deadline: "stages m r = Some (Naming req pd) \<Longrightarrow> calls (lookups m) r = Some Cancelled \<Longrightarrow>
    progress lib r m (enter r (Releasing req (request_timeout lib)) m)"
| give_up_naming: "stages m r = Some (Naming req pd) \<Longrightarrow> calls (lookups m) r = Some Cancelled \<Longrightarrow>
    progress lib r m (enter r (Gone req) (on_app (return_slot req) m))"
| release: "stages m r = Some (Releasing req res) \<Longrightarrow>
    progress lib r m (enter r (Leaving req res) (on_app (return_slot req) m))"
| account: "stages m r = Some (Leaving req res) \<Longrightarrow>
    progress lib r m (enter r (Classing req res) (on_app count_request m))"
| classify: "stages m r = Some (Classing req res) \<Longrightarrow>
    progress lib r m (enter r (Sent req (delivered req res)) (on_app (count_class res) m))"

text \<open>All of it, with the steps of the calls and of the resolver tasks.\<close>

inductive service_step ::
  "('r, 'l, 'v, 'k) app_libs \<Rightarrow> (ip_addr \<Rightarrow> ustr option \<Rightarrow> bool) \<Rightarrow>
     ('r, 'k) service_machine \<Rightarrow> ('r, 'k) service_machine \<Rightarrow> bool"
  for lib :: "('r, 'l, 'v, 'k) app_libs" and answers :: "ip_addr \<Rightarrow> ustr option \<Rightarrow> bool" where
  arrives: "arrival r req m m' \<Longrightarrow> service_step lib answers m m'"
| proceeds: "progress lib r m m' \<Longrightarrow> service_step lib answers m m'"
| resolves: "call_step answers r (lookups m) p \<Longrightarrow> service_step lib answers m (with_lookups p m)"
| forgets: "kept \<subseteq>\<^sub>m ptr_cache (app m) \<Longrightarrow> service_step lib answers m (with_lookups (expire kept (lookups m)) m)"

definition service_start :: "('r, 'k) app_state \<Rightarrow> ('r, 'k) service_machine" where
  "service_start s = \<lparr>lookups = \<lparr>shared = s, calls = Map.empty, tasks = Map.empty\<rparr>, stages = Map.empty, limiter_log = []\<rparr>"

definition service_init :: "'r geo_pool \<Rightarrow> 'k config \<Rightarrow> ('r, 'k) service_machine \<Rightarrow> bool" where
  "service_init pool cfg m \<longleftrightarrow> m = service_start (app_state_new pool cfg)"

lemma service_simps [simp]:
  "lookups (enter r st m) = lookups m" "stages (enter r st m) = (stages m)(r \<mapsto> st)" "limiter_log (enter r st m) = limiter_log m"
  "lookups (on_app f m) = on_shared f (lookups m)" "stages (on_app f m) = stages m" "limiter_log (on_app f m) = limiter_log m"
  "lookups (with_lookups p m) = p" "stages (with_lookups p m) = stages m" "limiter_log (with_lookups p m) = limiter_log m"
  "lookups (note_access r a m) = lookups m" "stages (note_access r a m) = stages m"
  "limiter_log (note_access r a m) = limiter_log m @ [(r, a)]"
  by (simp_all add: enter_def on_app_def with_lookups_def note_access_def)

lemma count_simps [simp]:
  "ptr_cache (count_request s) = ptr_cache s" "rdns_sem (count_request s) = rdns_sem s"
  "concurrency (count_request s) = concurrency s" "rate_limit (count_request s) = rate_limit s" "geo_cache (count_request s) = geo_cache s"
  "ptr_cache (count_refused s) = ptr_cache s" "rdns_sem (count_refused s) = rdns_sem s"
  "concurrency (count_refused s) = concurrency s" "rate_limit (count_refused s) = rate_limit s" "geo_cache (count_refused s) = geo_cache s"
  "ptr_cache (count_class res s) = ptr_cache s" "rdns_sem (count_class res s) = rdns_sem s"
  "concurrency (count_class res s) = concurrency s" "rate_limit (count_class res s) = rate_limit s" "geo_cache (count_class res s) = geo_cache s"
  "ptr_cache (take_slot s) = ptr_cache s" "rdns_sem (take_slot s) = rdns_sem s" "metrics (take_slot s) = metrics s"
  "concurrency (take_slot s) = concurrency s - 1" "rate_limit (take_slot s) = rate_limit s" "geo_cache (take_slot s) = geo_cache s"
  "ptr_cache (return_slot req s) = ptr_cache s" "rdns_sem (return_slot req s) = rdns_sem s" "metrics (return_slot req s) = metrics s"
  "rate_limit (return_slot req s) = rate_limit s" "geo_cache (return_slot req s) = geo_cache s"
  by (simp_all add: count_request_def count_refused_def count_class_def take_slot_def return_slot_def count_def Let_def)

lemma settings_simps [simp]:
  "settings (count_request s) = settings s" "settings (count_refused s) = settings s" "settings (count_class res s) = settings s"
  "settings (take_slot s) = settings s" "settings (return_slot req s) = settings s"
  "settings (s\<lparr>rate_limit := rl\<rparr>) = settings s" "settings (s\<lparr>ptr_cache := c\<rparr>) = settings s"
  "settings (take_permit s) = settings s" "settings (drop_permit s) = settings s" "settings (count_skipped s) = settings s"
  "settings (count_lookup s) = settings s" "settings (count_timeout s) = settings s" "settings (task_done k ptr s) = settings s"
  by (simp_all add: settings_def count_request_def count_refused_def count_class_def take_slot_def return_slot_def count_def
      rdns_effects Let_def)

section \<open>The calls and the resolver tasks\<close>

text \<open>Every step is a step of the machine of \<open>Rdns_Lookup\<close>, or none, for the calls and tasks.\<close>

lemma elsewhere_on_shared:
  assumes "rdns_sem (f (shared p)) = rdns_sem (shared p)" and "ptr_cache (f (shared p)) = ptr_cache (shared p)"
  shows "rdns_step answers p (on_shared f p)"
  unfolding on_shared_def using assms by (rule elsewhere)

lemma lookups_step:
  assumes "service_step lib answers m m'"
  shows "(rdns_step answers)\<^sup>*\<^sup>* (lookups m) (lookups m')"
  using assms
proof cases
  case (arrives r req)
  then show ?thesis by cases (auto intro!: r_into_rtranclp elsewhere_on_shared)
next
  case (proceeds r)
  then show ?thesis
  proof cases
    case (answer req w s res)
    have "fst (routes lib w req (app m)) = s" using answer(5) by simp
    then have "rdns_step answers (lookups m) (on_shared (\<lambda>_. s) (lookups m))"
      using routes_plain_keeps [OF answer(3), of w "app m"] by (intro elsewhere_on_shared) simp_all
    with answer show ?thesis by auto
  next
    case (suspend req evict s pd)
    have "fst (before_rdns lib evict req (app m)) = s" using suspend(5) by simp
    then have "rdns_step answers (lookups m) (on_shared (\<lambda>_. s) (lookups m))"
      using before_rdns_keeps [of lib evict req "app m"] by (intro elsewhere_on_shared) simp_all
    with suspend show ?thesis by auto
  next
    case (ask req pd p)
    then show ?thesis by (auto intro!: r_into_rtranclp starts)
  qed (auto intro!: r_into_rtranclp elsewhere_on_shared)
next
  case (resolves r p)
  then show ?thesis by (auto intro!: r_into_rtranclp moves)
next
  case (forgets kept)
  then show ?thesis by (auto intro!: r_into_rtranclp expired)
qed

lemma reachable_lookups:
  assumes "reachable (service_init pool cfg) (service_step lib answers) m"
  shows "reachable rdns_init (rdns_step answers) (lookups m)"
  using assms
proof (induction rule: reachable.induct)
  case (reachable_init m)
  then show ?case by (auto simp: service_init_def service_start_def rdns_init_def intro!: reachable.reachable_init)
next
  case (reachable_step m m')
  then show ?case using reachable_run [OF lookups_step [OF reachable_step.hyps(2)]] by blast
qed

section \<open>Counting requests\<close>

definition stood :: "(stage \<Rightarrow> bool) \<Rightarrow> ('r, 'k) service_machine \<Rightarrow> nat \<Rightarrow> bool" where
  "stood P m r \<longleftrightarrow> (case stages m r of Some st \<Rightarrow> P st | None \<Rightarrow> False)"

definition tally :: "(stage \<Rightarrow> bool) \<Rightarrow> ('r, 'k) service_machine \<Rightarrow> nat" where
  "tally P m = card {r. stood P m r}"

lemma stood_simps [simp]:
  "stood P (enter r st m) r' = (if r' = r then P st else stood P m r')"
  "stood P (on_app f m) r' = stood P m r'" "stood P (with_lookups p m) r' = stood P m r'"
  "stood P (note_access r a m) r' = stood P m r'"
  by (simp_all add: stood_def)

lemma tally_simps [simp]:
  "tally P (on_app f m) = tally P m" "tally P (with_lookups p m) = tally P m" "tally P (note_access r a m) = tally P m"
  by (simp_all add: tally_def)

lemma finite_stood: "finite (dom (stages m)) \<Longrightarrow> finite {r. stood P m r}"
  by (rule finite_subset [of _ "dom (stages m)"]) (auto simp: stood_def split: option.splits)

lemma tally_pos: "finite (dom (stages m)) \<Longrightarrow> stood P m r \<Longrightarrow> 0 < tally P m"
  using finite_stood [of m P] by (auto simp: tally_def card_gt_0_iff)

lemma tally_enter:
  assumes "finite (dom (stages m))"
  shows "tally P (enter r st m) = (if stood P m r then tally P m - 1 else tally P m) + (if P st then 1 else 0)"
proof -
  define D where "D = {x. stood P m x} - {r}"
  have D: "finite D" "r \<notin> D" using finite_stood [OF assms, of P] by (simp_all add: D_def)
  have "{x. stood P (enter r st m) x} = (if P st then insert r D else D)" by (auto simp: D_def)
  moreover have "card D = (if stood P m r then card {x. stood P m x} - 1 else card {x. stood P m x})"
    by (simp add: D_def)
  ultimately show ?thesis using D by (simp add: tally_def)
qed

section \<open>Accounts\<close>

fun holds_slot :: "stage \<Rightarrow> bool" where
  "holds_slot (Handling req) \<longleftrightarrow> \<not> is_monitoring (req_path req)"
| "holds_slot (Naming req pd) \<longleftrightarrow> \<not> is_monitoring (req_path req)"
| "holds_slot (Releasing req res) \<longleftrightarrow> \<not> is_monitoring (req_path req)"
| "holds_slot _ \<longleftrightarrow> False"

fun counted :: "stage \<Rightarrow> bool" where
  "counted (Classing req res) \<longleftrightarrow> True"
| "counted (Sent req res) \<longleftrightarrow> True"
| "counted _ \<longleftrightarrow> False"

fun sent_with :: "(response \<Rightarrow> bool) \<Rightarrow> stage \<Rightarrow> bool" where
  "sent_with P (Sent req res) \<longleftrightarrow> P res"
| "sent_with P _ \<longleftrightarrow> False"

fun being_refused :: "stage \<Rightarrow> bool" where
  "being_refused (Over_Limit req secs) \<longleftrightarrow> True"
| "being_refused _ \<longleftrightarrow> False"

text \<open>The verdicts of the limiter, in the order of its checks.\<close>

definition verdicts :: "u32 \<Rightarrow> ('r, 'k) service_machine \<Rightarrow> u64 option list" where
  "verdicts n m = snd (rate_run (rate_limit_new n) (map snd (limiter_log m)))"

definition refusals :: "u64 option list \<Rightarrow> nat" where
  "refusals vs = length (filter (\<lambda>v. v \<noteq> None) vs)"

text \<open>
  The books: slots, request counters (which wrap at \<open>2 ^ 64\<close>) and the limiter. Each request is
  counted after its answer is complete, so a client that gives up is in no counter.
\<close>

definition slot_books :: "('r, 'k) service_machine \<Rightarrow> bool" where
  "slot_books m \<longleftrightarrow>
     finite (dom (stages m)) \<and>
     (\<forall>r req. stages m r = Some (Queueing req) \<longrightarrow> \<not> is_monitoring (req_path req)) \<and>
     concurrency (app m) + tally holds_slot m = MAX_CONCURRENCY"

definition counter_books :: "('r, 'k) service_machine \<Rightarrow> bool" where
  "counter_books m \<longleftrightarrow>
     requests (metrics (app m)) = of_nat (tally counted m) \<and>
     responses_4xx (metrics (app m)) = of_nat (tally (sent_with client_error) m) \<and>
     responses_5xx (metrics (app m)) = of_nat (tally (sent_with server_error) m)"

definition limiter_books :: "u32 \<Rightarrow> ('r, 'k) service_machine \<Rightarrow> bool" where
  "limiter_books n m \<longleftrightarrow>
     (\<forall>e \<in> set (limiter_log m). only_evicts (snd e)) \<and>
     rate_limit (app m) = fst (rate_run (rate_limit_new n) (map snd (limiter_log m))) \<and>
     rate_limited (metrics (app m)) + of_nat (tally being_refused m) = of_nat (refusals (verdicts n m))"

lemma rate_run_snoc:
  "rate_run rl (as @ [a]) =
     (let (rl', vs) = rate_run rl as; (rl'', v) = rate_access rl' a in (rl'', vs @ [v]))"
  by (induction as arbitrary: rl) (simp_all add: Let_def split_def)

lemma verdicts_note:
  assumes "rate_limit (app m) = fst (rate_run (rate_limit_new n) (map snd (limiter_log m)))"
  shows "verdicts n (note_access r a (on_app f m)) = verdicts n m @ [snd (rate_access (rate_limit (app m)) a)]"
  using assms by (simp add: verdicts_def rate_run_snoc Let_def split_def)

lemma verdicts_simps [simp]:
  "verdicts n (enter r st m) = verdicts n m" "verdicts n (on_app f m) = verdicts n m" "verdicts n (with_lookups p m) = verdicts n m"
  by (simp_all add: verdicts_def)

lemma refusals_append: "refusals (vs @ ws) = refusals vs + refusals ws"
  by (simp add: refusals_def)

lemma refusals_single: "refusals [v] = (if v = None then 0 else 1)"
  by (simp add: refusals_def)

lemma count_metrics [simp]:
  "requests (metrics (count_request s)) = requests (metrics s) + 1"
  "responses_4xx (metrics (count_request s)) = responses_4xx (metrics s)"
  "responses_5xx (metrics (count_request s)) = responses_5xx (metrics s)"
  "rate_limited (metrics (count_request s)) = rate_limited (metrics s)"
  "requests (metrics (count_refused s)) = requests (metrics s)"
  "responses_4xx (metrics (count_refused s)) = responses_4xx (metrics s)"
  "responses_5xx (metrics (count_refused s)) = responses_5xx (metrics s)"
  "rate_limited (metrics (count_refused s)) = rate_limited (metrics s) + 1"
  "requests (metrics (count_class res s)) = requests (metrics s)"
  "responses_4xx (metrics (count_class res s)) = responses_4xx (metrics s) + (if client_error res then 1 else 0)"
  "responses_5xx (metrics (count_class res s)) = responses_5xx (metrics s) + (if server_error res then 1 else 0)"
  "rate_limited (metrics (count_class res s)) = rate_limited (metrics s)"
  by (simp_all add: count_request_def count_refused_def count_class_def count_def inc_def Let_def)

lemma hardened_status [simp]:
  "resp_status (hardened req res) = resp_status res"
  "client_error (hardened req res) = client_error res" "server_error (hardened req res) = server_error res"
  "client_error (delivered req res) = client_error res" "server_error (delivered req res) = server_error res"
  by (simp_all add: hardened_def Let_def client_error_def server_error_def)

text \<open>Calls and resolver tasks touch none of it.\<close>

lemma call_step_keeps:
  assumes "call_step answers c p p'"
  shows "accounts (shared p') = accounts (shared p)" "rate_limit (shared p') = rate_limit (shared p)"
    "geo_cache (shared p') = geo_cache (shared p)" "settings (shared p') = settings (shared p)"
  using assms by (cases; simp add: rdns_effects accounts_def settings_def Let_def)+

lemma start_step_keeps: "start_step c ip_text org p p' \<Longrightarrow> shared p' = shared p"
  by (auto elim: start_step.cases)

lemma accounts_fields:
  assumes "accounts s = accounts t"
  shows "requests (metrics s) = requests (metrics t)" "responses_4xx (metrics s) = responses_4xx (metrics t)"
    "responses_5xx (metrics s) = responses_5xx (metrics t)" "rate_limited (metrics s) = rate_limited (metrics t)"
    "concurrency s = concurrency t"
  using assms by (simp_all add: accounts_def Let_def)

lemma stood_at:
  "stages m r = Some st \<Longrightarrow> stood P m r \<longleftrightarrow> P st" "stages m r = None \<Longrightarrow> \<not> stood P m r"
  by (simp_all add: stood_def)

text \<open>What an answer given at once and the first half of a suspending handler leave alone.\<close>

lemma answer_keeps:
  assumes "\<not> suspends lib req" and "routes lib w req s = (s', Ready res)"
  shows "settings s' = settings s" "metrics s' = metrics s" "concurrency s' = concurrency s" "rate_limit s' = rate_limit s"
  using routes_plain_keeps [OF assms(1), of w s] assms(2) by simp_all

lemma suspend_keeps:
  assumes "before_rdns lib evict req s = (s', pd)"
  shows "settings s' = settings s" "metrics s' = metrics s" "concurrency s' = concurrency s" "rate_limit s' = rate_limit s"
  using before_rdns_keeps [of lib evict req s] assms by simp_all

lemma return_slot_concurrency [simp]:
  "concurrency (return_slot req s) = (if is_monitoring (req_path req) then concurrency s else concurrency s + 1)"
  by (simp add: return_slot_def)

lemma slot_books_step:
  assumes "service_step lib answers m m'" and "slot_books m"
  shows "slot_books m'"
proof -
  have fin: "finite (dom (stages m))" using assms(2) by (simp add: slot_books_def)
  have pos: "0 < tally holds_slot m" if "stages m r = Some st" "holds_slot st" for r st
    using tally_pos [OF fin, of holds_slot r] that by (simp add: stood_at)
  show ?thesis
    using assms(1)
  proof cases
    case (arrives r req)
    then show ?thesis using assms(2) by cases (simp_all add: slot_books_def tally_enter stood_at)
  next
    case (proceeds r)
    then show ?thesis
    proof cases
      case (answer req w s res)
      then show ?thesis
        using assms(2) answer_keeps [OF answer(3,5)] pos [OF answer(2)] by (auto simp: slot_books_def tally_enter stood_at)
    next
      case (suspend req evict s pd)
      then show ?thesis
        using assms(2) suspend_keeps [OF suspend(5)] pos [OF suspend(2)] by (auto simp: slot_books_def tally_enter stood_at)
    next
      case (ask req pd p)
      then show ?thesis using assms(2) start_step_keeps [OF ask(3)] by (simp add: slot_books_def)
    next
      case (named req pd asked ptr)
      then show ?thesis using assms(2) pos [OF named(2)] by (auto simp: slot_books_def tally_enter stood_at)
    next
      case (deadline req pd)
      then show ?thesis using assms(2) pos [OF deadline(2)] by (auto simp: slot_books_def tally_enter stood_at)
    next
      case (give_up_naming req pd)
      then show ?thesis using assms(2) pos [OF give_up_naming(2)] by (auto simp: slot_books_def tally_enter stood_at)
    next
      case (release req res)
      then show ?thesis using assms(2) pos [OF release(2)] by (auto simp: slot_books_def tally_enter stood_at)
    qed (use assms(2) in \<open>simp_all add: slot_books_def tally_enter stood_at\<close>)
  next
    case (resolves r p)
    then show ?thesis using assms(2) accounts_fields(5) [OF call_step_keeps(1) [OF resolves(2)]] by (simp add: slot_books_def)
  next
    case (forgets kept)
    then show ?thesis using assms(2) by (simp add: slot_books_def)
  qed
qed

lemma counter_books_step:
  assumes "service_step lib answers m m'" and "counter_books m" and fin: "finite (dom (stages m))"
  shows "counter_books m'"
  using assms(1)
proof cases
  case (arrives r req)
  then show ?thesis using assms(2,3) by cases (simp_all add: counter_books_def tally_enter stood_at)
next
  case (proceeds r)
  then show ?thesis
  proof cases
    case (answer req w s res)
    then show ?thesis
      using assms(2,3) answer_keeps [OF answer(3,5)] by (simp add: counter_books_def tally_enter stood_at)
  next
    case (suspend req evict s pd)
    then show ?thesis
      using assms(2,3) suspend_keeps [OF suspend(5)] by (simp add: counter_books_def tally_enter stood_at)
  next
    case (ask req pd p)
    then show ?thesis using assms(2) start_step_keeps [OF ask(3)] by (simp add: counter_books_def)
  next
    case (classify req res)
    have "0 < tally counted m" using tally_pos [OF fin, of counted r] classify(2) by (simp add: stood_at)
    then have "tally counted m - 1 + 1 = tally counted m" by simp
    then show ?thesis using classify assms(2,3) by (simp add: counter_books_def tally_enter stood_at)
  qed (use assms(2,3) in \<open>simp_all add: counter_books_def tally_enter stood_at\<close>)
next
  case (resolves r p)
  then show ?thesis using assms(2) accounts_fields [OF call_step_keeps(1) [OF resolves(2)]] by (simp add: counter_books_def)
next
  case (forgets kept)
  then show ?thesis using assms(2) by (simp add: counter_books_def)
qed

lemma limiter_books_step:
  assumes "service_step lib answers m m'" and "limiter_books n m" and fin: "finite (dom (stages m))"
  shows "limiter_books n m'"
  using assms(1)
proof cases
  case (arrives r req)
  have run: "rate_limit (app m) = fst (rate_run (rate_limit_new n) (map snd (limiter_log m)))"
    using assms(2) by (simp add: limiter_books_def)
  note note' = verdicts_note [OF run] rate_run_snoc refusals_append refusals_single
  show ?thesis
    using arrives
  proof cases
    case (over_limit a evict now0 now1 rl secs)
    then show ?thesis
      using assms(2,3) run [symmetric] by (simp add: limiter_books_def note' tally_enter stood_at Let_def split_def)
  next
    case (admitted a evict now0 now1 rl)
    then show ?thesis
      using assms(2,3) run [symmetric] by (simp add: limiter_books_def note' tally_enter stood_at Let_def split_def)
  qed (use assms(2,3) in \<open>simp add: limiter_books_def tally_enter stood_at\<close>)
next
  case (proceeds r)
  then show ?thesis
  proof cases
    case (refuse req secs)
    have "0 < tally being_refused m" using tally_pos [OF fin, of being_refused r] refuse(2) by (simp add: stood_at)
    then have "of_nat (tally being_refused m) = (1 + of_nat (tally being_refused m - 1) :: u64)"
      by (metis Suc_pred' of_nat_Suc)
    then show ?thesis using refuse assms(2,3) by (simp add: limiter_books_def tally_enter stood_at add.assoc)
  next
    case (answer req w s res)
    then show ?thesis
      using assms(2,3) answer_keeps [OF answer(3,5)] by (simp add: limiter_books_def tally_enter stood_at)
  next
    case (suspend req evict s pd)
    then show ?thesis
      using assms(2,3) suspend_keeps [OF suspend(5)] by (simp add: limiter_books_def tally_enter stood_at)
  next
    case (ask req pd p)
    then show ?thesis using assms(2) start_step_keeps [OF ask(3)] by (simp add: limiter_books_def)
  qed (use assms(2,3) in \<open>simp_all add: limiter_books_def tally_enter stood_at return_slot_def take_slot_def\<close>)
next
  case (resolves r p)
  then show ?thesis
    using assms(2) accounts_fields [OF call_step_keeps(1) [OF resolves(2)]] call_step_keeps(2) [OF resolves(2)]
    by (simp add: limiter_books_def)
next
  case (forgets kept)
  then show ?thesis using assms(2) by (simp add: limiter_books_def)
qed

section \<open>What holds in every state\<close>

definition service_books :: "u32 \<Rightarrow> ('r, 'k) service_machine \<Rightarrow> bool" where
  "service_books n m \<longleftrightarrow> slot_books m \<and> counter_books m \<and> limiter_books n m"

definition slot_users :: "('r, 'k) service_machine \<Rightarrow> nat set" where
  "slot_users m = {r. stood holds_slot m r}"

lemma service_books_init: "service_init pool cfg m \<Longrightarrow> service_books (rate_per_minute cfg) m"
  by (simp add: service_init_def service_start_def service_books_def slot_books_def counter_books_def limiter_books_def
      tally_def stood_def app_state_new_def metrics_default_def verdicts_def refusals_def)

interpretation service: permit_pool "service_init pool cfg" "service_step lib answers"
    "service_books (rate_per_minute cfg)" "\<lambda>m. concurrency (app m)" slot_users MAX_CONCURRENCY
  for pool :: "'r geo_pool" and cfg :: "'k config" and lib :: "('r, 'l, 'v, 'k) app_libs" and answers
proof
  show "service_books (rate_per_minute cfg) m" if "service_init pool cfg m" for m
    using that by (rule service_books_init)
  show "service_books (rate_per_minute cfg) m'" if "service_books (rate_per_minute cfg) m" "service_step lib answers m m'" for m m'
    using that slot_books_step counter_books_step limiter_books_step
    unfolding service_books_def by (metis slot_books_def)
  show "finite (slot_users m)" if "service_books (rate_per_minute cfg) m" for m
    using that by (simp add: service_books_def slot_books_def slot_users_def finite_stood)
  show "concurrency (app m) + card (slot_users m) = MAX_CONCURRENCY" if "service_books (rate_per_minute cfg) m" for m
    using that by (simp add: service_books_def slot_books_def slot_users_def tally_def)
qed

text \<open>
  With all requests in flight at most 512 of them, monitoring aside, are anywhere between
  the slot and their answer, at most 16 resolver calls run for them, and nothing is lost: all
  slots are free exactly when no request holds one, whatever was refused, timed out, or given up.
\<close>

theorem service_is_bounded:
  assumes "reachable (service_init pool cfg) (service_step lib answers) m"
  shows "finite (slot_users m) \<and> card (slot_users m) \<le> 512 \<and>
    (concurrency (app m) = 512 \<longleftrightarrow> slot_users m = {}) \<and>
    finite (dom (tasks (lookups m))) \<and> card (dom (tasks (lookups m))) \<le> 16"
proof -
  have "dom (tasks (lookups m)) \<subseteq> holders (lookups m)" by (simp add: holders_def)
  then show ?thesis
    using service.holders_bounded [OF assms order_refl] service.all_free_iff [OF assms]
      rdns.holders_bounded [OF reachable_lookups [OF assms]]
    by (simp add: MAX_CONCURRENCY_def RDNS_MAX_CONCURRENT_def)
qed

text \<open>
  C10. The counters on \<open>/metrics\<close> are exact at every moment and in every interleaving (modulo
  \<open>2 ^ 64\<close>): requests are those whose answer is complete, each once, the classes are those of the
  answers that were sent, and the refused ones are the refusals of the limiter.
\<close>

theorem counters_are_exact:
  assumes "reachable (service_init pool cfg) (service_step lib answers) m"
  shows "requests (metrics (app m)) =
      of_nat (card {r. \<exists>req res. stages m r = Some (Classing req res) \<or> stages m r = Some (Sent req res)}) \<and>
    responses_4xx (metrics (app m)) = of_nat (card {r. \<exists>req res. stages m r = Some (Sent req res) \<and> resp_status res div 100 = 4}) \<and>
    responses_5xx (metrics (app m)) = of_nat (card {r. \<exists>req res. stages m r = Some (Sent req res) \<and> resp_status res div 100 = 5}) \<and>
    rate_limited (metrics (app m)) + of_nat (card {r. \<exists>req secs. stages m r = Some (Over_Limit req secs)}) =
      of_nat (length (filter (\<lambda>v. v \<noteq> None) (snd (rate_run (rate_limit_new (rate_per_minute cfg)) (map snd (limiter_log m))))))"
proof -
  have books: "counter_books m" "limiter_books (rate_per_minute cfg) m"
    using service.reachable_inv [OF assms] by (simp_all add: service_books_def)
  have by_class: "client_error res \<longleftrightarrow> resp_status res div 100 = 4" "server_error res \<longleftrightarrow> resp_status res div 100 = 5" for res
    by (auto simp: client_error_def server_error_def hundreds)
  have set_of: "{r. stood P m r} = {r. \<exists>st. stages m r = Some st \<and> P st}" for P
    by (auto simp: stood_def split: option.splits)
  have "counted st \<longleftrightarrow> (\<exists>req res. st = Classing req res \<or> st = Sent req res)"
    "being_refused st \<longleftrightarrow> (\<exists>req secs. st = Over_Limit req secs)"
    "sent_with P st \<longleftrightarrow> (\<exists>req res. st = Sent req res \<and> P res)" for st P
    by (cases st; simp)+
  then have "tally counted m = card {r. \<exists>req res. stages m r = Some (Classing req res) \<or> stages m r = Some (Sent req res)}"
    "tally being_refused m = card {r. \<exists>req secs. stages m r = Some (Over_Limit req secs)}"
    "tally (sent_with P) m = card {r. \<exists>req res. stages m r = Some (Sent req res) \<and> P res}" for P
    unfolding tally_def set_of by (auto intro!: arg_cong [where f = card])
  then show ?thesis
    using books by (simp add: counter_books_def limiter_books_def by_class verdicts_def refusals_def)
qed

end
