(* ===== verification/Service_Answers.thy ===== *)
theory Service_Answers
  imports Service_Machine
begin

text \<open>
  What the machine of all requests (\<open>Service_Machine\<close>) answers: whatever else is in flight, an
  answer is a refusal of one of the layers or the one the request gets alone from a fresh service
  with the same configuration and databases, up to the counters on \<open>/metrics\<close> and the name the
  resolver gave for its own address.
\<close>

section \<open>Proper answers\<close>

text \<open>A name found for the client address written \<open>t\<close>: none, or an answer of the resolver for it.\<close>

definition genuine :: "(ip_addr \<Rightarrow> ustr option \<Rightarrow> bool) \<Rightarrow> ustr \<Rightarrow> ustr option \<Rightarrow> bool" where
  "genuine answers t ptr \<longleftrightarrow>
     ptr = None \<or> (\<exists>a. map_option to_canonical (parse_ip t) = Some a \<and> is_public_ip a \<and> answers a ptr)"

text \<open>
  The answer of a suspending handler and of any other in a state \<open>s\<close>, nothing else going on.
\<close>

definition answer_alone :: "('r, 'l, 'v, 'k) app_libs \<Rightarrow> ('r, 'k) app_state \<Rightarrow> request \<Rightarrow> ustr option \<Rightarrow> response" where
  "answer_alone lib s req ptr = after_rdns lib s (snd (before_rdns lib id req s)) ptr"

definition answered_at_once :: "('r, 'l, 'v, 'k) app_libs \<Rightarrow> ('r, 'k) app_state \<Rightarrow> request \<Rightarrow> response \<Rightarrow> bool" where
  "answered_at_once lib s req res \<longleftrightarrow>
     (\<exists>c. \<forall>w. (\<forall>x. geo_evict w x \<subseteq>\<^sub>m x) \<longrightarrow> snd (routes lib w req (s\<lparr>metrics := c\<rparr>)) = Ready res)"

definition proper ::
  "('r, 'l, 'v, 'k) app_libs \<Rightarrow> (ip_addr \<Rightarrow> ustr option \<Rightarrow> bool) \<Rightarrow> ('r, 'k) app_state \<Rightarrow> request \<Rightarrow> response \<Rightarrow> bool" where
  "proper lib answers s req res \<longleftrightarrow>
     \<not> is_monitoring (req_path req) \<and>
       (res = service_busy lib \<or> (\<exists>secs. 1 \<le> unat secs \<and> unat secs \<le> 60 \<and> res = too_many_requests lib secs)) \<or>
     suspends lib req \<and>
       (res = request_timeout lib \<or>
        (\<exists>ptr. genuine answers (self_ip s (req_headers req) (req_peer req)) ptr \<and> res = answer_alone lib s req ptr)) \<or>
     \<not> suspends lib req \<and> answered_at_once lib s req res"

section \<open>Invariant\<close>

fun call_addr :: "call_state \<Rightarrow> ip_addr option" where
  "call_addr (Queued a) = Some a"
| "call_addr (Holding a) = Some a"
| "call_addr (Resolving a) = Some a"
| "call_addr (Returned asked res) = asked"
| "call_addr Cancelled = None"

text \<open>What a stage says of its request, given the state of the call of the same name.\<close>

fun stage_ok ::
  "('r, 'l, 'v, 'k) app_libs \<Rightarrow> (ip_addr \<Rightarrow> ustr option \<Rightarrow> bool) \<Rightarrow> ('r, 'k) app_state \<Rightarrow> call_state option \<Rightarrow> stage \<Rightarrow> bool" where
  "stage_ok lib answers s call (Over_Limit req secs) \<longleftrightarrow>
     call = None \<and> \<not> is_monitoring (req_path req) \<and> 1 \<le> unat secs \<and> unat secs \<le> 60"
| "stage_ok lib answers s call (Queueing req) \<longleftrightarrow> call = None \<and> \<not> is_monitoring (req_path req)"
| "stage_ok lib answers s call (Handling req) \<longleftrightarrow> call = None"
| "stage_ok lib answers s call (Naming req pd) \<longleftrightarrow>
     suspends lib req \<and> pd = snd (before_rdns lib id req s) \<and>
     (\<forall>pc a. call = Some pc \<longrightarrow> call_addr pc = Some a \<longrightarrow> map_option to_canonical (parse_ip (pending_me pd)) = Some a)"
| "stage_ok lib answers s call (Releasing req res) \<longleftrightarrow> proper lib answers s req res"
| "stage_ok lib answers s call (Leaving req res) \<longleftrightarrow> proper lib answers s req res"
| "stage_ok lib answers s call (Classing req res) \<longleftrightarrow> proper lib answers s req res"
| "stage_ok lib answers s call (Sent req res) \<longleftrightarrow> (\<exists>inner. proper lib answers s req inner \<and> res = delivered req inner)"
| "stage_ok lib answers s call (Gone req) \<longleftrightarrow> True"

definition stages_ok ::
  "('r, 'l, 'v, 'k) app_libs \<Rightarrow> (ip_addr \<Rightarrow> ustr option \<Rightarrow> bool) \<Rightarrow> ('r, 'k) app_state \<Rightarrow> ('r, 'k) service_machine \<Rightarrow> bool" where
  "stages_ok lib answers s m \<longleftrightarrow>
     (\<forall>r. case stages m r of None \<Rightarrow> calls (lookups m) r = None
          | Some st \<Rightarrow> stage_ok lib answers s (calls (lookups m) r) st)"

definition shared_ok :: "('r, 'l, 'v, 'k) app_libs \<Rightarrow> ('r, 'k) app_state \<Rightarrow> ('r, 'k) service_machine \<Rightarrow> bool" where
  "shared_ok lib s m \<longleftrightarrow> settings (app m) = settings s \<and> geo_coherent lib (app m)"

lemma stages_ok_at: "stages_ok lib answers s m \<Longrightarrow> stages m r = Some st \<Longrightarrow> stage_ok lib answers s (calls (lookups m) r) st"
  by (auto simp: stages_ok_def dest: spec [of _ r])

lemma stages_ok_enter:
  assumes "stages_ok lib answers s m" and "stage_ok lib answers s (calls (lookups m) r) st"
    and "stages m' = (stages m)(r \<mapsto> st)" and "calls (lookups m') = calls (lookups m)"
  shows "stages_ok lib answers s m'"
  unfolding stages_ok_def assms(3,4) using assms(1,2) by (simp add: stages_ok_def)

text \<open>Steps of one call leave the others alone and stay with its address.\<close>

lemma call_step_other:
  assumes "call_step answers c p p'" and "c' \<noteq> c"
  shows "calls p' c' = calls p c'"
  using assms(1) by cases (simp_all add: assms(2))

lemma start_step_other:
  assumes "start_step c ip_text org p p'" and "c' \<noteq> c"
  shows "calls p' c' = calls p c'"
  using assms(1) by cases (simp_all add: assms(2))

lemma call_step_addr:
  assumes "call_step answers c p p'" and "calls p' c = Some pc'"
  shows "\<exists>pc. calls p c = Some pc \<and> (call_addr pc' = None \<or> call_addr pc' = call_addr pc)"
  using assms by cases auto

lemma call_step_none:
  assumes "call_step answers c p p'" and "calls p c = None"
  shows "calls p' c = None"
  using assms by cases auto

lemma start_step_addr:
  assumes "start_step c ip_text org p p'" and "calls p' c = Some pc" and "call_addr pc = Some a"
  shows "map_option to_canonical (parse_ip ip_text) = Some a"
  using assms by cases (auto simp: rdns_target_def split: if_splits option.splits)

lemma stage_ok_call_step:
  assumes "stage_ok lib answers s (calls p c) st" and "call_step answers c p p'"
  shows "stage_ok lib answers s (calls p' c) st"
proof (cases st)
  case (Naming req pd)
  then show ?thesis using assms(1) call_step_addr [OF assms(2)] by (simp, metis option.distinct(1))
qed (use assms(1) call_step_none [OF assms(2)] in auto)

lemma stages_ok_call_step:
  assumes "stages_ok lib answers s m" and "call_step answers r (lookups m) p"
  shows "stages_ok lib answers s (with_lookups p m)"
proof -
  have "case stages m r' of None \<Rightarrow> calls p r' = None | Some st \<Rightarrow> stage_ok lib answers s (calls p r') st" for r'
  proof (cases "r' = r")
    case True
    have "case stages m r of None \<Rightarrow> calls (lookups m) r = None | Some st \<Rightarrow> stage_ok lib answers s (calls (lookups m) r) st"
      using assms(1) by (simp add: stages_ok_def)
    then show ?thesis
      using True call_step_none [OF assms(2)] stage_ok_call_step [OF _ assms(2)] by (cases "stages m r") simp_all
  next
    case False
    show ?thesis
      unfolding call_step_other [OF assms(2) False] using assms(1) by (simp add: stages_ok_def)
  qed
  then show ?thesis by (simp add: stages_ok_def cong: option.case_cong)
qed

lemma stages_ok_ask:
  assumes "stages_ok lib answers s m" and "stages m r = Some (Naming req pd)"
    and "start_step r (pending_me pd) org (lookups m) p"
  shows "stages_ok lib answers s (with_lookups p m)"
proof -
  have "case stages m r' of None \<Rightarrow> calls p r' = None | Some st \<Rightarrow> stage_ok lib answers s (calls p r') st" for r'
  proof (cases "r' = r")
    case True
    then show ?thesis
      using stages_ok_at [OF assms(1,2)] start_step_addr [OF assms(3)] assms(2) by (auto simp del: map_option_eq_Some)
  next
    case False
    show ?thesis
      unfolding start_step_other [OF assms(3) False] using assms(1) by (simp add: stages_ok_def)
  qed
  then show ?thesis by (simp add: stages_ok_def cong: option.case_cong)
qed

lemma pending_me_before: "pending_me (snd (before_rdns lib evict req s)) = self_ip s (req_headers req) (req_peer req)"
  by (simp add: before_rdns_def Let_def split_def)

lemma fresh_coherent: "geo_coherent lib (app_state_new pool cfg)"
  by (simp add: geo_coherent_def app_state_new_def)

text \<open>An answer given at once is the one a fresh service gives.\<close>

lemma answered_at_onceI:
  assumes "\<not> suspends lib req" and "routes lib w req t = (t', Ready res)" and "\<And>x. geo_evict w x \<subseteq>\<^sub>m x"
    and "settings t = settings s" and "geo_coherent lib t" and "geo_coherent lib s"
  shows "answered_at_once lib s req res"
proof -
  have "settings (s\<lparr>metrics := metrics t\<rparr>) = settings s" "geo_coherent lib (s\<lparr>metrics := metrics t\<rparr>)"
    using assms(6) by (simp_all add: settings_def geo_coherent_def)
  then have "snd (routes lib v req (s\<lparr>metrics := metrics t\<rparr>)) = Ready res" if "\<forall>x. geo_evict v x \<subseteq>\<^sub>m x" for v
    using routes_plain_value [OF assms(1), of "s\<lparr>metrics := metrics t\<rparr>" t v w] assms(2-5) that by simp
  then show ?thesis unfolding answered_at_once_def by blast
qed

text \<open>A name that a call returned is genuine for the address the request asked about.\<close>

lemma returned_genuine:
  assumes "rdns_answers_ok answers p" and "calls p r = Some (Returned asked ptr)"
    and "\<And>a. asked = Some a \<Longrightarrow> map_option to_canonical (parse_ip t) = Some a"
  shows "genuine answers t ptr"
proof -
  have "call_ok answers (Returned asked ptr)" using assms(1,2) unfolding rdns_answers_ok_def by blast
  then show ?thesis using assms(3) by (auto simp: genuine_def lookup_address_def)
qed

lemma shared_ok_same:
  assumes "shared_ok lib s m" and "geo_cache (app m') = geo_cache (app m)" and "settings (app m') = settings (app m)"
  shows "shared_ok lib s m'"
  using assms settings_fields(1) [OF assms(3)] by (simp add: shared_ok_def geo_coherent_def)

lemma shared_ok_step:
  assumes "service_step lib answers m m'" and "shared_ok lib s m"
  shows "shared_ok lib s m'"
  using assms(1)
proof cases
  case (arrives r req)
  then show ?thesis by cases (rule shared_ok_same [OF assms(2)]; simp)+
next
  case (proceeds r)
  then show ?thesis
  proof cases
    case (answer req w t res)
    have "geo_coherent lib t"
      using routes_plain_coherent [OF answer(3) _ answer(4), of "app m"] answer(5) assms(2) by (simp add: shared_ok_def)
    then show ?thesis using assms(2) answer answer_keeps [OF answer(3,5)] by (simp add: shared_ok_def)
  next
    case (suspend req evict t pd)
    have "geo_coherent lib t"
      using before_rdns_coherent [OF _ suspend(4), of lib "app m" req] suspend(5) assms(2) by (simp add: shared_ok_def)
    then show ?thesis using assms(2) suspend suspend_keeps [OF suspend(5)] by (simp add: shared_ok_def)
  next
    case (ask req pd p)
    then show ?thesis using assms(2) start_step_keeps [OF ask(3)] by (simp add: shared_ok_def)
  qed (rule shared_ok_same [OF assms(2)]; simp)+
next
  case (resolves r p)
  then show ?thesis using call_step_keeps(3,4) [OF resolves(2)] by (intro shared_ok_same [OF assms(2)]) simp_all
next
  case (forgets kept)
  then show ?thesis by (intro shared_ok_same [OF assms(2)]) simp_all
qed

lemma stages_ok_step:
  assumes step: "service_step lib answers m m'" and ok: "stages_ok lib answers s m"
    and shared: "shared_ok lib s m" and fresh: "geo_coherent lib s"
    and rdns: "rdns_answers_ok answers (lookups m)" and limiter: "rate_ok (rate_limit (app m))"
  shows "stages_ok lib answers s m'"
  using step
proof cases
  case (arrives r req)
  have new: "calls (lookups m) r = None" if "stages m r = None"
    using ok that by (auto simp: stages_ok_def dest: spec [of _ r])
  show ?thesis
    using arrives
  proof cases
    case exempt
    then show ?thesis using ok new by (intro stages_ok_enter [where r = r, OF ok]) auto
  next
    case (over_limit a evict now0 now1 rl secs)
    then have "1 \<le> unat secs \<and> unat secs \<le> 60" using limiter by (intro rate_access_delay) auto
    with over_limit show ?thesis using new by (intro stages_ok_enter [where r = r, OF ok]) auto
  next
    case (admitted a evict now0 now1 rl)
    then show ?thesis using new by (intro stages_ok_enter [where r = r, OF ok]) auto
  qed
next
  case (proceeds r)
  note at = stages_ok_at [OF ok]
  have same: "settings (app m) = settings s" "geo_coherent lib (app m)" using shared by (simp_all add: shared_ok_def)
  show ?thesis
    using proceeds
  proof cases
    case (refuse req secs)
    then show ?thesis using at [OF refuse(2)] by (intro stages_ok_enter [where r = r, OF ok]) (auto simp: proper_def)
  next
    case (busy req)
    then show ?thesis using at [OF busy(2)] by (intro stages_ok_enter [where r = r, OF ok]) (auto simp: proper_def)
  next
    case (answer req w t res)
    have "answered_at_once lib s req res"
      using answer same fresh by (intro answered_at_onceI [where t = "app m"])
    with answer show ?thesis by (intro stages_ok_enter [where r = r, OF ok]) (auto simp: proper_def)
  next
    case (suspend req evict t pd)
    have "pd = snd (before_rdns lib id req s)"
      using before_rdns_value [OF same(2) suspend(4) fresh same(1), of req] suspend(5) by simp
    with suspend show ?thesis
      using at [OF suspend(2)] by (intro stages_ok_enter [where r = r, OF ok]) auto
  next
    case (ask req pd p)
    then show ?thesis using stages_ok_ask [OF ok] by simp
  next
    case (named req pd asked ptr)
    note old = at [OF named(2), unfolded stage_ok.simps]
    have "genuine answers (pending_me pd) ptr"
      by (rule returned_genuine [OF rdns named(3)]) (use old named(3) in auto)
    moreover have "pending_me pd = self_ip s (req_headers req) (req_peer req)"
      using old pending_me_before by blast
    moreover have "after_rdns lib (app m) pd ptr = answer_alone lib s req ptr"
      using old after_rdns_settings [OF same(1), of lib] by (simp add: answer_alone_def)
    ultimately have "proper lib answers s req (after_rdns lib (app m) pd ptr)"
      using old by (auto simp: proper_def)
    with named show ?thesis by (intro stages_ok_enter [where r = r, OF ok]) auto
  next
    case (deadline req pd)
    then show ?thesis using at [OF deadline(2)] by (intro stages_ok_enter [where r = r, OF ok]) (auto simp: proper_def)
  next
    case (release req res)
    then show ?thesis using at [OF release(2)] by (intro stages_ok_enter [where r = r, OF ok]) auto
  next
    case (account req res)
    then show ?thesis using at [OF account(2)] by (intro stages_ok_enter [where r = r, OF ok]) auto
  next
    case (classify req res)
    then show ?thesis using at [OF classify(2)] by (intro stages_ok_enter [where r = r, OF ok]) auto
  next
    case (slot req)
    then show ?thesis using at [OF slot(2)] by (intro stages_ok_enter [where r = r, OF ok]) auto
  next
    case (give_up_queue req)
    then show ?thesis by (intro stages_ok_enter [where r = r, OF ok]) auto
  next
    case (give_up_naming req pd)
    then show ?thesis by (intro stages_ok_enter [where r = r, OF ok]) auto
  qed
next
  case (resolves r p)
  then show ?thesis using stages_ok_call_step [OF ok] by simp
next
  case (forgets kept)
  then show ?thesis using ok by (simp add: stages_ok_def cong: option.case_cong)
qed

lemma reachable_ok:
  assumes "reachable (service_init pool cfg) (service_step lib answers) m"
  shows "shared_ok lib (app_state_new pool cfg) m \<and> stages_ok lib answers (app_state_new pool cfg) m"
  using assms
proof (induction rule: reachable.induct)
  case (reachable_init m)
  then show ?case
    using fresh_coherent by (simp add: service_init_def service_start_def shared_ok_def stages_ok_def)
next
  case (reachable_step m m')
  have rdns: "rdns_answers_ok answers (lookups m)"
    using rdns.reachable_inv [OF reachable_lookups [OF reachable_step.hyps(1)]] by (simp add: rdns_inv_def)
  have "limiter_books (rate_per_minute cfg) m"
    using service.reachable_inv [OF reachable_step.hyps(1)] by (simp add: service_books_def)
  then have limiter: "rate_ok (rate_limit (app m))"
    using rate_run_ok [OF rate_ok_new, of "map snd (limiter_log m)"] by (simp add: limiter_books_def)
  from reachable_step.IH have ok: "shared_ok lib (app_state_new pool cfg) m" "stages_ok lib answers (app_state_new pool cfg) m" by simp_all
  show ?case
    using shared_ok_step [OF reachable_step.hyps(2) ok(1)]
      stages_ok_step [OF reachable_step.hyps(2) ok(2,1) fresh_coherent rdns limiter] by blast
qed

lemma sent_answer:
  assumes "reachable (service_init pool cfg) (service_step lib answers) m"
    and "stages m r = Some (Sent req res)" and "resp_status res \<notin> {429, 503, 504}"
  shows "if suspends lib req
    then \<exists>ptr. genuine answers (self_ip (app_state_new pool cfg) (req_headers req) (req_peer req)) ptr \<and>
      res = delivered req (answer_alone lib (app_state_new pool cfg) req ptr)
    else \<exists>inner. answered_at_once lib (app_state_new pool cfg) req inner \<and> res = delivered req inner"
proof -
  obtain inner where "proper lib answers (app_state_new pool cfg) req inner" and res: "res = delivered req inner"
    using reachable_ok [OF assms(1)] stages_ok_at [OF _ assms(2)] by fastforce
  moreover have "inner \<noteq> service_busy lib" "inner \<noteq> request_timeout lib" "\<And>secs. inner \<noteq> too_many_requests lib secs"
    using assms(3) by (auto simp: res service_busy_def request_timeout_def too_many_requests_def)
  ultimately show ?thesis by (auto simp: proper_def)
qed

text \<open>
  C5. No cross-talk: whatever requests, timeouts, evictions and resolver tasks are interleaved with
  it, every answer that is sent is one of two kinds. Either it is a refusal of a layer, whose text
  is fixed: over the limit (with a delay of 1 to 60 seconds) or no slot free, which only requests
  that are not monitoring get, or the deadline, which only handlers that wait for the resolver get.
  Or it is the answer a fresh service with the same configuration and databases gives to this
  request alone: for the handlers that wait, with a name that the resolver gave for the client
  address of this very request, if with any, and for all others up to the counters.
\<close>

theorem answers_do_not_mix:
  assumes "reachable (service_init pool cfg) (service_step lib answers) m"
    and "stages m r = Some (Sent req res)"
  shows "\<exists>inner. res = delivered req inner \<and>
    (\<not> is_monitoring (req_path req) \<and>
       (inner = service_busy lib \<or> (\<exists>secs. 1 \<le> unat secs \<and> unat secs \<le> 60 \<and> inner = too_many_requests lib secs)) \<or>
     (if suspends lib req
      then inner = request_timeout lib \<or>
        (\<exists>ptr. genuine answers (self_ip (app_state_new pool cfg) (req_headers req) (req_peer req)) ptr \<and>
           inner = answer_alone lib (app_state_new pool cfg) req ptr)
      else answered_at_once lib (app_state_new pool cfg) req inner))"
proof -
  obtain inner where "proper lib answers (app_state_new pool cfg) req inner" "res = delivered req inner"
    using reachable_ok [OF assms(1)] stages_ok_at [OF _ assms(2)] by fastforce
  then show ?thesis unfolding proper_def by auto
qed

section \<open>Every request can be answered\<close>

text \<open>The steps of one request: its own and those of its call of \<open>maybe_rdns\<close>.\<close>

definition own_step ::
  "('r, 'l, 'v, 'k) app_libs \<Rightarrow> (ip_addr \<Rightarrow> ustr option \<Rightarrow> bool) \<Rightarrow> nat \<Rightarrow>
     ('r, 'k) service_machine \<Rightarrow> ('r, 'k) service_machine \<Rightarrow> bool" where
  "own_step lib answers r m m' \<longleftrightarrow>
     progress lib r m m' \<or> (\<exists>p. call_step answers r (lookups m) p \<and> m' = with_lookups p m)"

definition answerable ::
  "('r, 'l, 'v, 'k) app_libs \<Rightarrow> (ip_addr \<Rightarrow> ustr option \<Rightarrow> bool) \<Rightarrow> nat \<Rightarrow> nat \<Rightarrow> ('r, 'k) service_machine \<Rightarrow> bool" where
  "answerable lib answers r n m \<longleftrightarrow>
     (\<exists>k m' req res. k \<le> n \<and> (own_step lib answers r ^^ k) m m' \<and> stages m' r = Some (Sent req res))"

lemma answerable_step:
  assumes "own_step lib answers r m m'" and "answerable lib answers r n m'"
  shows "answerable lib answers r (Suc n) m"
  using assms unfolding answerable_def by (meson Suc_le_mono relpowp_Suc_I2)

lemma answerable_mono: "answerable lib answers r n m \<Longrightarrow> n \<le> n' \<Longrightarrow> answerable lib answers r n' m"
  unfolding answerable_def by (meson order_trans)

lemma answerable_progress:
  "progress lib r m m' \<Longrightarrow> answerable lib answers r n m' \<Longrightarrow> answerable lib answers r (Suc n) m"
  by (rule answerable_step) (simp_all add: own_step_def)

lemma answerable_call:
  "call_step answers r (lookups m) p \<Longrightarrow> answerable lib answers r n (with_lookups p m) \<Longrightarrow> answerable lib answers r (Suc n) m"
  by (rule answerable_step) (auto simp: own_step_def)

lemma answerable_classing:
  assumes "stages m r = Some (Classing req res)"
  shows "answerable lib answers r 1 m"
proof -
  have "answerable lib answers r 0 (enter r (Sent req (delivered req res)) (on_app (count_class res) m))"
    by (simp add: answerable_def)
  then show ?thesis using answerable_progress [OF classify [OF assms]] by (simp add: One_nat_def)
qed

lemma answerable_leaving:
  assumes "stages m r = Some (Leaving req res)"
  shows "answerable lib answers r 2 m"
proof -
  have "answerable lib answers r 1 (enter r (Classing req res) (on_app count_request m))"
    by (rule answerable_classing) simp
  then show ?thesis using answerable_progress [OF account [OF assms]] by (simp add: numeral_2_eq_2)
qed

lemma answerable_releasing:
  assumes "stages m r = Some (Releasing req res)"
  shows "answerable lib answers r 3 m"
proof -
  have "answerable lib answers r 2 (enter r (Leaving req res) (on_app (return_slot req) m))"
    by (rule answerable_leaving) simp
  then show ?thesis using answerable_progress [OF release [OF assms]] by (simp add: numeral_eq_Suc)
qed

lemma answerable_returned:
  assumes "stages m r = Some (Naming req pd)" and "calls (lookups m) r = Some (Returned asked ptr)"
  shows "answerable lib answers r 4 m"
proof -
  have "answerable lib answers r 3 (enter r (Releasing req (after_rdns lib (app m) pd ptr)) m)"
    by (rule answerable_releasing) simp
  then show ?thesis using answerable_progress [OF named [OF assms]] by (simp add: numeral_eq_Suc)
qed

lemma answerable_cancelled:
  assumes "stages m r = Some (Naming req pd)" and "calls (lookups m) r = Some Cancelled"
  shows "answerable lib answers r 4 m"
proof -
  have "answerable lib answers r 3 (enter r (Releasing req (request_timeout lib)) m)"
    by (rule answerable_releasing) simp
  then show ?thesis using answerable_progress [OF deadline [OF assms]] by (simp add: numeral_eq_Suc)
qed

lemma answerable_queued:
  assumes "stages m r = Some (Naming req pd)" and "calls (lookups m) r = Some (Queued a)"
  shows "answerable lib answers r 5 m"
proof -
  let ?p = "set_call r (Returned (Some a) None) (on_shared count_skipped (lookups m))"
  have "answerable lib answers r 4 (with_lookups ?p m)"
    using assms(1) by (intro answerable_returned) simp_all
  then show ?thesis using answerable_call [OF skipped [OF assms(2)]] by (simp add: numeral_eq_Suc)
qed

lemma answerable_resolving:
  assumes "stages m r = Some (Naming req pd)" and "calls (lookups m) r = Some (Resolving a)"
  shows "answerable lib answers r 5 m"
proof -
  let ?p = "set_call r (Returned (Some a) None) (on_shared count_timeout (lookups m))"
  have "answerable lib answers r 4 (with_lookups ?p m)"
    using assms(1) by (intro answerable_returned) simp_all
  then show ?thesis using answerable_call [OF too_slow [OF assms(2)]] by (simp add: numeral_eq_Suc)
qed

lemma answerable_holding:
  assumes "stages m r = Some (Naming req pd)" and "calls (lookups m) r = Some (Holding a)"
  shows "answerable lib answers r 6 m"
proof (cases "ptr_cache (app m) (show_ip a)")
  case (Some hit)
  let ?p = "set_call r (Returned (Some a) hit) (on_shared drop_permit (lookups m))"
  have "answerable lib answers r 4 (with_lookups ?p m)"
    using assms(1) by (intro answerable_returned) simp_all
  then have "answerable lib answers r 5 m"
    using answerable_call [OF late_hit [OF assms(2) Some]] by (simp add: numeral_eq_Suc)
  then show ?thesis by (rule answerable_mono) simp
next
  case None
  let ?p = "set_call r (Resolving a) (on_shared count_lookup ((lookups m)\<lparr>tasks := (tasks (lookups m))(r \<mapsto> a)\<rparr>))"
  have "answerable lib answers r 5 (with_lookups ?p m)"
    using assms(1) by (intro answerable_resolving) simp_all
  then show ?thesis using answerable_call [OF spawned [OF assms(2) None]] by (simp add: numeral_eq_Suc)
qed

lemma start_step_possible:
  assumes "calls p c = None"
  obtains p' pc where "start_step c ip_text org p p'" "calls p' c = Some pc" "\<exists>asked ptr a. pc = Returned asked ptr \<or> pc = Queued a"
proof (cases "rdns_target (shared p) ip_text org")
  case None
  show ?thesis by (rule that [OF start_step.refused [OF assms None]]) auto
next
  case (Some a)
  note target = this
  show ?thesis
  proof (cases "ptr_cache (shared p) (show_ip a)")
    case None
    show ?thesis by (rule that [OF start_step.queued [OF assms target None]]) auto
  next
    case (Some hit)
    show ?thesis by (rule that [OF start_step.cache_hit [OF assms target Some]]) auto
  qed
qed

lemma answerable_naming:
  assumes "stages m r = Some (Naming req pd)"
  shows "answerable lib answers r 6 m"
proof (cases "calls (lookups m) r")
  case None
  obtain p pc where p: "start_step r (pending_me pd) (aso (pending_geo pd)) (lookups m) p" "calls p r = Some pc"
      "\<exists>asked ptr a. pc = Returned asked ptr \<or> pc = Queued a"
    using None by (rule start_step_possible)
  have stage: "stages (with_lookups p m) r = Some (Naming req pd)" using assms by simp
  have "answerable lib answers r 5 (with_lookups p m)"
    using p(2,3) answerable_returned [OF stage, of _ _ lib answers] answerable_queued [OF stage, of _ lib answers]
      answerable_mono [of lib answers r 4 _ 5] by auto
  then show ?thesis using answerable_progress [OF ask [OF assms p(1)]] by (simp add: numeral_eq_Suc)
next
  case (Some pc)
  have "answerable lib answers r 4 m \<or> answerable lib answers r 5 m \<or> answerable lib answers r 6 m"
    using Some answerable_queued [OF assms] answerable_holding [OF assms] answerable_resolving [OF assms]
      answerable_returned [OF assms] answerable_cancelled [OF assms]
    by (cases pc) blast+
  then show ?thesis using answerable_mono [of lib answers r 4 m 6] answerable_mono [of lib answers r 5 m 6] by auto
qed

definition quiet_rdns :: "('r, 'k) rdns_world" where
  "quiet_rdns = \<lparr>ptr_evict = id, while_queued = id, permit_wait = Granted, while_resolving = id, lookup_end = Too_Slow\<rparr>"

definition quiet_world :: "('r, 'k) request_world" where
  "quiet_world = \<lparr>geo_evict = id, rate_evict = id, clock0 = 0, clock1 = 0, while_busy = id, slot_in_time = True, rdns_call = quiet_rdns\<rparr>"

lemma answerable_handling:
  assumes "stages m r = Some (Handling req)"
  shows "answerable lib answers r 7 m"
proof (cases "suspends lib req")
  case True
  obtain s pd where b: "before_rdns lib id req (app m) = (s, pd)" by fastforce
  have "answerable lib answers r 6 (enter r (Naming req pd) (on_app (\<lambda>_. s) m))"
    by (rule answerable_naming) simp
  then show ?thesis using answerable_progress [OF suspend [OF assms True _ b]] by (simp add: numeral_eq_Suc)
next
  case False
  obtain s res where a: "routes lib quiet_world req (app m) = (s, Ready res)" using False by (rule routes_plain)
  have "answerable lib answers r 3 (enter r (Releasing req res) (on_app (\<lambda>_. s) m))"
    by (rule answerable_releasing) simp
  then have "answerable lib answers r 4 m"
    using answerable_progress [OF answer [OF assms False _ a]] by (simp add: numeral_eq_Suc quiet_world_def)
  then show ?thesis by (rule answerable_mono) simp
qed

text \<open>
  C17. No request waits for another one or for the resolver: in every state, with all slots taken,
  all permits held by resolver calls that never end and all other requests stuck, every request
  that has arrived and was not given up is answered within seven steps of its own.
\<close>

theorem every_request_is_answered:
  assumes "stages m r = Some st" and "\<nexists>req. st = Gone req"
  shows "\<exists>k m' req res. k \<le> 7 \<and> (own_step lib answers r ^^ k) m m' \<and> stages m' r = Some (Sent req res)"
proof -
  have sent: "answerable lib answers r 0 m" if "st = Sent req res" for req res
    using assms(1) that by (simp add: answerable_def)
  have busy: "answerable lib answers r 3 m" if "st = Queueing req" for req
  proof -
    have "answerable lib answers r 2 (enter r (Leaving req (service_busy lib)) m)" by (rule answerable_leaving) simp
    then show ?thesis using answerable_progress [OF busy] assms(1) that by (simp add: numeral_eq_Suc)
  qed
  have refused: "answerable lib answers r 3 m" if "st = Over_Limit req secs" for req secs
  proof -
    have "answerable lib answers r 2 (enter r (Leaving req (too_many_requests lib secs)) (on_app count_refused m))"
      by (rule answerable_leaving) simp
    then show ?thesis using answerable_progress [OF refuse] assms(1) that by (simp add: numeral_eq_Suc)
  qed
  have "\<exists>n \<le> 7. answerable lib answers r n m"
  proof (cases st)
    case (Handling req)
    then show ?thesis using answerable_handling [of m r req] assms(1) by blast
  next
    case (Naming req pd)
    then show ?thesis using answerable_naming [of m r req pd] assms(1) by (intro exI [of _ 6]) simp
  next
    case (Releasing req res)
    then show ?thesis using answerable_releasing [of m r req res] assms(1) by (intro exI [of _ 3]) simp
  next
    case (Leaving req res)
    then show ?thesis using answerable_leaving [of m r req res] assms(1) by (intro exI [of _ 2]) simp
  next
    case (Classing req res)
    then show ?thesis using answerable_classing [of m r req res] assms(1) by (intro exI [of _ 1]) simp
  qed (use sent busy refused assms(2) in \<open>auto intro: exI [of _ 3] exI [of _ 0]\<close>)
  then have "answerable lib answers r 7 m" using answerable_mono by blast
  then show ?thesis by (simp add: answerable_def)
qed

end
