(* ===== verification/Judge_Answers.thy ===== *)
theory Judge_Answers
  imports App_Layers
begin

text \<open>
  What a checker can rely on in an answer of \<open>/judge\<close>, from the request through all layers: the
  signature binds nonce, direct address and body, and a direct address that is not an address
  cannot change the verdict. The last section runs the service on example requests, also for the
  properties of the layers.
\<close>

section \<open>From the request to the answer\<close>

text \<open>No other task replaces the signer, which the service never changes.\<close>

definition keeps_signer :: "('r, 'k) request_world \<Rightarrow> bool" where
  "keeps_signer w \<longleftrightarrow>
     (\<forall>s. signer (while_busy w s) = signer s \<and> signer (while_queued (rdns_call w) s) = signer s \<and>
          signer (while_resolving (rdns_call w) s) = signer s)"

lemma signer_maybe_rdns:
  assumes "\<And>s. signer (while_queued rw s) = signer s" and "\<And>s. signer (while_resolving rw s) = signer s"
  shows "signer (fst (maybe_rdns rw s ip_text org)) = signer s"
  by (simp add: maybe_rdns_def rdns_queued_def rdns_granted_def rdns_await_def assms Let_def rdns_effects
      split: option.split lookup_result.split)

lemma signer_geo_cached: "signer (fst (geo_cached lib evict s addr)) = signer s"
  by (simp add: geo_cached_def Let_def split: option.split)

lemma await_Ready:
  assumes "snd (await r f) = Ready y"
  obtains v where "snd r = Ready v" "y = snd (f (fst r) v)"
  using assms by (cases r; cases "snd r") (auto simp: await_def split_def Let_def)

lemma judge_signed:
  assumes "snd (judge lib w s conn hs p) = Ready res" and "keeps_signer w"
  shows "\<exists>body_bytes. res = signed_response lib (signer s) p body_bytes"
proof -
  obtain s' g where geo: "geo_cached (geo_db_lib lib) (geo_evict w) s (self_ip s hs (Some conn)) = (s', g)" by fastforce
  have sg: "signer s' = signer s"
    using signer_geo_cached [of "geo_db_lib lib" "geo_evict w" s] geo by (metis fst_conv)
  have "signer (fst (maybe_rdns (rdns_call w) s' me org)) = signer s" for me org
    using assms(2) sg by (simp add: signer_maybe_rdns keeps_signer_def)
  then show ?thesis
    using assms(1) by (auto simp: judge_def geo Let_def split_def elim!: await_Ready)
qed

text \<open>A 200 answer on \<open>/judge\<close> is a signed one, with the two headers of the response layer added.\<close>

lemma reaches_routes:
  assumes "\<not> is_monitoring (req_path req)"
    and "resp_status (snd (rate_limit_mw lib w (concurrency_mw lib w inner) req s)) = 200"
  obtains rl k where "snd (rate_limit_mw lib w (concurrency_mw lib w inner) req s) =
    snd (inner req ((while_busy w (s\<lparr>rate_limit := rl\<rparr>))\<lparr>concurrency := k\<rparr>))"
proof (cases "rate_check (rate_evict w) (rate_limit s) (self_ip s (req_headers req) (req_peer req)) (clock0 w) (clock1 w)")
  case (Pair rl v)
  let ?s = "while_busy w (s\<lparr>rate_limit := rl\<rparr>)"
  have "v = None" using assms Pair by (cases v) (simp_all add: rate_limit_mw_def)
  moreover from this have "slot_in_time w \<and> 0 < concurrency ?s"
    using assms Pair by (auto simp: rate_limit_mw_def concurrency_mw_def Let_def split: if_splits)
  ultimately have "snd (rate_limit_mw lib w (concurrency_mw lib w inner) req s) =
      snd (inner req (?s\<lparr>concurrency := concurrency ?s - 1\<rparr>))"
    using assms Pair by (simp add: rate_limit_mw_def concurrency_mw_def Let_def split_def)
  then show ?thesis by (rule that)
qed

lemma judge_answer:
  assumes "req_method req = lit ''GET''" and "req_path req = lit ''/judge''"
    and "req_peer req = Some conn" and "parse_query lib (req_query req) = Inr p" and "keeps_signer w"
    and "resp_status (snd (build_app lib w req s)) = 200"
  obtains body_bytes where "resp_body (snd (build_app lib w req s)) = body_bytes"
    "\<And>n. n \<noteq> lit ''x-content-type-options'' \<Longrightarrow> n \<noteq> lit ''cache-control'' \<Longrightarrow>
       header_values (resp_headers (snd (build_app lib w req s))) n =
       header_values (resp_headers (signed_response lib (signer s) p body_bytes)) n"
proof -
  let ?limited = "rate_limit_mw lib w (concurrency_mw lib w (timeout_mw lib (routes lib w)))"
  have path: "\<not> is_monitoring (req_path req)" by (simp add: assms(2) is_monitoring_def)
  have ok: "resp_status (snd (?limited req s)) = 200" using assms(6) by (simp add: build_app_def split_def Let_def)
  obtain rl k where inner: "snd (?limited req s) =
      snd (timeout_mw lib (routes lib w) req ((while_busy w (s\<lparr>rate_limit := rl\<rparr>))\<lparr>concurrency := k\<rparr>))"
    by (rule reaches_routes [OF path ok])
  let ?t = "(while_busy w (s\<lparr>rate_limit := rl\<rparr>))\<lparr>concurrency := k\<rparr>"
  have routed: "routes lib w req ?t = judge lib w ?t conn (req_headers req) p"
    using assms(1-4) by (simp add: routes_def handle_def with_peer_def)
  have "snd (judge lib w ?t conn (req_headers req) p) = Ready (snd (?limited req s))"
    using ok unfolding inner
    by (auto simp: timeout_mw_def routed split: prod.splits awaited.splits)
  moreover have "signer ?t = signer s" using assms(5) by (simp add: keeps_signer_def)
  ultimately obtain body_bytes where res: "snd (?limited req s) = signed_response lib (signer s) p body_bytes"
    using judge_signed [OF _ assms(5), of lib ?t conn "req_headers req" p] by metis
  show ?thesis
    by (rule that [of body_bytes])
      (simp_all add: build_app_def split_def assms(1) other_headers_kept res, simp add: signed_response_def Let_def)
qed

section \<open>The signature\<close>

text \<open>
  Documented behaviour of the libraries: visible ASCII texts are legal header values, base64
  output is one, and a query parameter is a Unicode text.
\<close>

definition visible_ascii :: "ustr \<Rightarrow> bool" where
  "visible_ascii t \<longleftrightarrow> list_all (\<lambda>c. 32 \<le> c \<and> c < 127) t"

definition libs_ok :: "('r, 'l, 'v, 'k) app_libs \<Rightarrow> bool" where
  "libs_ok lib \<longleftrightarrow>
     (\<forall>t. visible_ascii t \<longrightarrow> header_value_ok lib t) \<and>
     (\<forall>x. visible_ascii (b64_encode (signing_lib lib) x)) \<and>
     (\<forall>q p. parse_query lib q = Inr p \<longrightarrow> valid_str (text_of (nonce p)) \<and> valid_str (text_of (direct_ip p)))"

lemma key_id_visible: "visible_ascii (key_id (from_seed lib seed e))"
proof -
  have "32 \<le> c \<and> c < 127" if "c \<in> set (hex_lower bs)" for c bs
    using hex_lower_chars [OF that] by (auto simp: is_ascii_digit_def)
  then show ?thesis
    by (simp add: from_seed_def Let_def visible_ascii_def list_all_iff hex_lower_def)
qed

text \<open>What a signed response carries, and that it names one combination of fields only.\<close>

definition names_one :: "judge_params \<Rightarrow> u8 list \<Rightarrow> bool" where
  "names_one p body_bytes \<longleftrightarrow>
     (\<forall>n d b. valid_str n \<and> 10 \<notin> set n \<and> valid_str d \<and> 10 \<notin> set d \<longrightarrow>
       (message n d b = message (challenge_of p) (text_of (without_lf (direct_ip p))) body_bytes \<longleftrightarrow>
        n = challenge_of p \<and> d = text_of (without_lf (direct_ip p)) \<and> b = body_bytes))"

lemma signed_fields:
  assumes "parse_query lib q = Inr p" and "libs_ok lib" and "sg = from_seed (signing_lib lib) seed e"
  shows "header_values (resp_headers (signed_response lib sg p body_bytes)) (lit ''x-judge-signature'') =
      [as_bytes (b64_encode (signing_lib lib) (key_sign (signing_lib lib) (key sg)
        (message (challenge_of p) (text_of (without_lf (direct_ip p))) body_bytes)))]"
    and "header_values (resp_headers (signed_response lib sg p body_bytes)) (lit ''x-judge-key-id'') = [as_bytes (key_id sg)]"
    and "names_one p body_bytes"
proof -
  have ok: "header_value_ok lib (sign (signing_lib lib) sg n d b)" "header_value_ok lib (key_id sg)" for n d b
    using assms(2) key_id_visible [of "signing_lib lib" seed e] by (simp_all add: libs_ok_def sign_def assms(3))
  have params: "valid_str (text_of (nonce p))" "valid_str (text_of (direct_ip p))"
    using assms(1,2) by (auto simp: libs_ok_def)
  have n: "valid_str (challenge_of p)" "10 \<notin> set (challenge_of p)"
    using params(1) valid_nonce_no_lf by (auto simp: challenge_of_def text_of_def valid_str_def split: option.splits)
  have d: "valid_str (text_of (without_lf (direct_ip p)))" "10 \<notin> set (text_of (without_lf (direct_ip p)))"
    using params(2) by (auto simp: without_lf_def text_of_def valid_str_def split: option.splits)
  show "header_values (resp_headers (signed_response lib sg p body_bytes)) (lit ''x-judge-signature'') =
      [as_bytes (b64_encode (signing_lib lib) (key_sign (signing_lib lib) (key sg)
        (message (challenge_of p) (text_of (without_lf (direct_ip p))) body_bytes)))]"
    "header_values (resp_headers (signed_response lib sg p body_bytes)) (lit ''x-judge-key-id'') = [as_bytes (key_id sg)]"
    by (simp_all add: signed_response_def Let_def ok [unfolded sign_def] header_values_insert sign_def text_of_def [symmetric])
  show "names_one p body_bytes" using message_injective n d by (simp add: names_one_def)
qed

text \<open>
  C4. An answer of \<open>/judge\<close> cannot be passed off for another: every 200 answer carries the
  signature, by the service's key, of exactly one combination of nonce, direct address and body,
  and these are the nonce and direct address of the request (empty when absent or unusable) and
  the body that is sent; the key is named beside it.
\<close>

theorem judge_answers_are_bound:
  assumes "req_method req = lit ''GET''" and "req_path req = lit ''/judge''"
    and "req_peer req = Some conn" and "parse_query lib (req_query req) = Inr p" and "keeps_signer w"
    and "resp_status (snd (build_app lib w req s)) = 200"
    and "libs_ok lib" and "signer s = from_seed (signing_lib lib) seed e"
  shows "header_values (resp_headers (snd (build_app lib w req s))) (lit ''x-judge-signature'') =
      [as_bytes (b64_encode (signing_lib lib) (key_sign (signing_lib lib) (key (signer s))
        (message (challenge_of p) (text_of (without_lf (direct_ip p))) (resp_body (snd (build_app lib w req s))))))] \<and>
    header_values (resp_headers (snd (build_app lib w req s))) (lit ''x-judge-key-id'') = [as_bytes (key_id (signer s))] \<and>
    (\<forall>n d b. valid_str n \<and> 10 \<notin> set n \<and> valid_str d \<and> 10 \<notin> set d \<longrightarrow>
       (message n d b = message (challenge_of p) (text_of (without_lf (direct_ip p))) (resp_body (snd (build_app lib w req s))) \<longleftrightarrow>
        n = challenge_of p \<and> d = text_of (without_lf (direct_ip p)) \<and> b = resp_body (snd (build_app lib w req s))))"
proof -
  obtain body_bytes where answer: "resp_body (snd (build_app lib w req s)) = body_bytes"
    "\<And>n. n \<noteq> lit ''x-content-type-options'' \<Longrightarrow> n \<noteq> lit ''cache-control'' \<Longrightarrow>
       header_values (resp_headers (snd (build_app lib w req s))) n =
       header_values (resp_headers (signed_response lib (signer s) p body_bytes)) n"
    using assms(1-6) by (rule judge_answer) blast
  show ?thesis
    using signed_fields [OF assms(4,7,8), of body_bytes] unfolding names_one_def by (simp add: answer)
qed

section \<open>Unusable direct addresses\<close>

lemma signed_response_body [simp]: "resp_body (signed_response lib sg p body_bytes) = body_bytes"
  by (simp add: signed_response_def Let_def)

lemma map_await:
  "map_prod id (map_awaited g) (await r f) = await r (\<lambda>s v. map_prod id g (f s v))"
  by (cases r; cases "snd r") (auto simp: await_def split_def Let_def)

text \<open>
  Garbage in \<open>direct_ip\<close> is as good as nothing: if the parameter is not the text of an
  address, or holds a line feed, the body of the answer, verdict included, and the effects on the
  state are those of the request without the parameter.
\<close>

theorem judge_ignores_unusable_direct:
  assumes "Option.bind (without_lf (direct_ip p)) normalize_host = None"
  shows "map_prod id (map_awaited resp_body) (judge lib w s conn hs p) =
    map_prod id (map_awaited resp_body) (judge lib w s conn hs (p\<lparr>direct_ip := None\<rparr>))"
  using assms
  by (simp add: judge_def Let_def split_def map_await without_lf_def split: option.splits)

section \<open>Requests to run the service on\<close>

text \<open>The query is the direct address itself.\<close>

definition unquery :: "ustr option \<Rightarrow> ustr option" where
  "unquery q = (case q of Some d \<Rightarrow> if valid_str d then Some d else None | None \<Rightarrow> None)"

definition demo_libs :: "(ustr + demo_json, demo_json, demo_json, u8 list) app_libs" where
  "demo_libs =
     \<lparr>geo_db_lib = demo_geo_lib,
      signing_lib = demo_crypto\<lparr>b64_encode := hex_lower\<rparr>,
      unicode_alnum = (\<lambda>_. False),
      json_text = (\<lambda>j. case j of J_Obj fs \<Rightarrow> as_bytes (concat (map fst fs)) | _ \<Rightarrow> []),
      parse_query = (\<lambda>q. Inr \<lparr>direct_ip = unquery q, nonce = Some (lit ''nonce-123'')\<rparr>),
      header_value_ok = (\<lambda>_. True),
      header_to_str = (\<lambda>v. Some (map unat (filter (\<lambda>b. b < 128) v))),
      no_connect_info = \<lparr>resp_status = 500, resp_headers = [], resp_body = []\<rparr>,
      unrouted = (\<lambda>_. \<lparr>resp_status = 404, resp_headers = [], resp_body = []\<rparr>)\<rparr>"

definition demo_world :: "(ustr + demo_json, u8 list) request_world" where
  "demo_world = \<lparr>geo_evict = id, rate_evict = id, clock0 = 0, clock1 = 0, while_busy = id,
     slot_in_time = True, rdns_call = demo_rdns\<rparr>"

definition demo_request :: "string \<Rightarrow> request" where
  "demo_request path = \<lparr>req_method = lit ''GET'', req_path = lit path, req_query = Some (lit ''5.6.7.8''),
     req_headers = hiding_request, req_peer = Some (V4 (Ipv4Addr 10 0 0 2), 40000)\<rparr>"

definition open_state :: "(ustr + demo_json, u8 list) app_state" where
  "open_state = demo_state\<lparr>rate_limit := rate_limit_new 0,
     signer := from_seed (signing_lib demo_libs) (replicate 32 1) True\<rparr>"

lemma demo_rdns_ready: "\<exists>v. snd (maybe_rdns demo_rdns s ip_text org) = Ready v"
  by (simp add: maybe_rdns_def rdns_queued_def rdns_granted_def rdns_await_def demo_rdns_def Let_def split: option.split)

lemma await_ready:
  assumes "\<exists>v. snd r = Ready v" and "\<And>s v. P (snd (f s v))"
  shows "\<exists>res. snd (await r f) = Ready res \<and> P res"
  using assms by (cases r) (auto simp: await_def split_def Let_def)

lemma demo_judge_ready:
  "\<exists>res. snd (judge lib demo_world s conn hs p) = Ready res \<and> resp_status res = 200"
  unfolding judge_def Let_def split_def
  by (rule await_ready) (simp_all add: demo_world_def demo_rdns_ready signed_response_def Let_def)

lemma timeout_Ready: "snd (inner req s) = Ready res \<Longrightarrow> snd (timeout_mw lib inner req s) = res"
  by (cases "inner req s") (simp add: timeout_mw_def)

lemma demo_judge_ok: "resp_status (snd (build_app demo_libs demo_world (demo_request ''/judge'') open_state)) = 200"
proof -
  let ?s = "open_state\<lparr>concurrency := concurrency open_state - 1\<rparr>"
  have slot: "0 < concurrency open_state"
    by (simp add: open_state_def demo_state_def app_state_new_def MAX_CONCURRENCY_def)
  have free: "rate_check ev (rate_limit open_state) c t0 t1 = (rate_limit open_state, None)" for ev c t0 t1
    by (simp add: rate_check_def open_state_def rate_limit_new_def)
  let ?p = "\<lparr>direct_ip = Some (lit ''5.6.7.8''), nonce = Some (lit ''nonce-123'')\<rparr>"
  obtain res where res: "snd (judge demo_libs demo_world ?s (V4 (Ipv4Addr 10 0 0 2), 40000) hiding_request ?p) = Ready res"
      "resp_status res = 200"
    using demo_judge_ready by blast
  have routed: "routes demo_libs demo_world (demo_request ''/judge'') ?s =
      judge demo_libs demo_world ?s (V4 (Ipv4Addr 10 0 0 2), 40000) hiding_request ?p"
    by (simp add: routes_def handle_def demo_request_def with_peer_def demo_libs_def unquery_def)
  have "snd (timeout_mw demo_libs (routes demo_libs demo_world) (demo_request ''/judge'') ?s) = res"
    using res(1) by (intro timeout_Ready) (simp only: routed)
  moreover have "\<not> is_monitoring (req_path (demo_request ''/judge''))" by (simp add: is_monitoring_def demo_request_def)
  ultimately show ?thesis
    using res(2) slot free
    by (simp add: build_app_def rate_limit_mw_def concurrency_mw_def Let_def split_def demo_world_def)
qed

lemma demo_libs_ok: "libs_ok demo_libs"
proof -
  have "visible_ascii (hex_lower x)" for x
    using hex_lower_chars [of _ x] by (fastforce simp: visible_ascii_def list_all_iff is_ascii_digit_def)
  moreover have "valid_str (text_of (unquery q))" for q
    by (simp add: unquery_def text_of_def valid_str_def split: option.split)
  ultimately show ?thesis by (simp add: libs_ok_def demo_libs_def text_of_def)
qed

theorem judge_answers_are_bound_witness:
  "header_values (resp_headers (snd (build_app demo_libs demo_world (demo_request ''/judge'') open_state)))
     (lit ''x-judge-key-id'') = [as_bytes (lit ''07070707'')]"
proof -
  have s: "signer open_state = from_seed (signing_lib demo_libs) (replicate 32 1) True"
    by (simp add: open_state_def)
  have w: "keeps_signer demo_world" by (simp add: keeps_signer_def demo_world_def demo_rdns_def)
  have "hex_02 7 = [48, 55]" by (simp add: hex_02_digits digit_char_def)
  moreover have "replicate 4 x = [x, x, x, x]" for x :: ustr by (simp add: eval_nat_numeral)
  ultimately have "key_id (signer open_state) = lit ''07070707''"
    by (simp add: open_state_def from_seed_def demo_libs_def demo_crypto_def str_eval Let_def)
  then show ?thesis
    using judge_answers_are_bound [OF _ _ _ _ w demo_judge_ok demo_libs_ok s]
    by (simp add: demo_request_def demo_libs_def)
qed

theorem judge_ignores_unusable_direct_witness:
  "map_prod id (map_awaited resp_body) (judge demo_libs demo_world open_state (V4 (Ipv4Addr 10 0 0 2), 40000)
      hiding_request \<lparr>direct_ip = Some (lit ''not an address''), nonce = None\<rparr>) =
   map_prod id (map_awaited resp_body) (judge demo_libs demo_world open_state (V4 (Ipv4Addr 10 0 0 2), 40000)
      hiding_request \<lparr>direct_ip = None, nonce = None\<rparr>)"
proof -
  have "Option.bind (without_lf (direct_ip \<lparr>direct_ip = Some (lit ''not an address''), nonce = None\<rparr>)) normalize_host = None"
    by (simp add: without_lf_def host_eval addr_eval str_eval)
  then show ?thesis by (subst judge_ignores_unusable_direct) simp_all
qed

text \<open>Witnesses for the layers.\<close>

definition metrics_request :: "string \<Rightarrow> request" where
  "metrics_request token = (demo_request ''/metrics'')\<lparr>req_headers := [header_line (''authorization'', token)]\<rparr>"

theorem metrics_need_the_token_witness:
  "resp_status (snd (build_app demo_libs demo_world (metrics_request ''Bearer secret'')
      (open_state\<lparr>metrics_token := Some (lit ''secret'')\<rparr>))) = 200 \<and>
   resp_status (snd (build_app demo_libs demo_world (metrics_request ''Bearer secre'')
      (open_state\<lparr>metrics_token := Some (lit ''secret'')\<rparr>))) = 401"
proof -
  have v: "valid_str t" if "header_to_str demo_libs v = Some t" for v t
  proof -
    have "c < 128" if "c \<in> set (map unat (filter (\<lambda>b. b < 128) v))" for c
      using that by (auto simp: word_less_nat_alt)
    then show ?thesis
      using that by (fastforce simp: demo_libs_def valid_str_def is_scalar_def list_all_iff)
  qed
  have hv: "header_values (req_headers (metrics_request n)) (lit ''authorization'') = [as_bytes (lit n)]" for n
    by (simp add: metrics_request_def header_values_def header_line_def)
  have shown: "header_to_str demo_libs (as_bytes (lit ''Bearer secret'')) = Some (lit ''Bearer '' @ lit ''secret'')"
    "header_to_str demo_libs (as_bytes (lit ''Bearer secre'')) = Some (lit ''Bearer '' @ lit ''secre'')"
    by (simp_all add: demo_libs_def as_bytes_ascii str_eval)
  have path: "req_method (metrics_request n) = lit ''GET''" "req_path (metrics_request n) = lit ''/metrics''" for n
    by (simp_all add: metrics_request_def demo_request_def)
  let ?s = "open_state\<lparr>metrics_token := Some (lit ''secret'')\<rparr>"
  have token: "metrics_token ?s = Some (lit ''secret'')" by simp
  have claim: "(if \<exists>u us. header_values (req_headers (metrics_request n)) (lit ''authorization'') = u # us \<and>
        header_to_str demo_libs u = Some (lit ''Bearer '' @ lit ''secret'')
      then resp_status (snd (build_app demo_libs demo_world (metrics_request n) ?s)) = 200
      else resp_status (snd (build_app demo_libs demo_world (metrics_request n) ?s)) = 401 \<and>
        resp_body (snd (build_app demo_libs demo_world (metrics_request n) ?s)) = json_text demo_libs (error_body ''unauthorized''))" for n
    using token valid_lit v path by (rule metrics_need_the_token)
  have "(lit ''secre'' :: ustr) \<noteq> lit ''secret''" by (simp add: str_eval)
  then show ?thesis
    using claim [of "''Bearer secret''"] claim [of "''Bearer secre''"] by (simp add: hv shown)
qed

definition limited_state :: "(ustr + demo_json, u8 list) app_state" where
  "limited_state = open_state\<lparr>rate_limit := \<lparr>per_minute = 60, hits = [lit ''5.5.5.5'' \<mapsto> \<lparr>tokens = 0, updated = 0\<rparr>]\<rparr>\<rparr>"

lemma demo_client: "self_ip limited_state hiding_request conn = lit ''5.5.5.5''"
  by (simp add: self_ip_def Let_def limited_state_def open_state_def hiding_request_header client_ip_def host_eval addr_eval str_eval)

theorem refused_requests_do_no_work_witness:
  "resp_status (snd (build_app demo_libs demo_world (demo_request ''/judge'') limited_state)) = 429 \<and>
   header_values (resp_headers (snd (build_app demo_libs demo_world (demo_request ''/judge'') limited_state)))
     (lit ''retry-after'') = [as_bytes (lit ''1'')]"
proof -
  have "snd (rate_check (rate_evict demo_world) (rate_limit limited_state) (lit ''5.5.5.5'') (clock0 demo_world) (clock1 demo_world)) = Some 1"
    by (simp add: rate_check_def limited_state_def demo_world_def bucket_key_def addr_eval str_eval check_limit_def
        f64_from_u32_def as_secs_f64_def f64_as_u64_def Let_def)
  then show ?thesis
    using refused_requests_do_no_work [of "demo_request ''/judge''" demo_world limited_state 1 demo_libs]
    by (simp add: demo_client is_monitoring_def demo_request_def show_nat_def show_radix.simps digit_char_def str_eval)
qed

theorem each_request_is_counted_witness:
  "requests (metrics (fst (build_app demo_libs demo_world (demo_request ''/judge'') limited_state))) = 1 \<and>
   concurrency (fst (build_app demo_libs demo_world (demo_request ''/judge'') limited_state)) = 512"
proof -
  have "undisturbed demo_world" by (simp add: undisturbed_def demo_world_def demo_rdns_def)
  moreover have "requests (metrics limited_state) = 0" "concurrency limited_state = 512"
    by (simp_all add: limited_state_def open_state_def demo_state_def app_state_new_def MAX_CONCURRENCY_def metrics_default_def)
  ultimately show ?thesis
    using each_request_is_counted [of demo_world demo_libs "demo_request ''/judge''" limited_state]
    by (simp add: split_def Let_def)
qed

end
