(* ===== verification/Service_Runs.thy ===== *)
theory Service_Runs
  imports Service_Answers Judge_Answers
begin

text \<open>
  The two views of a request agree: an execution of \<open>build_app\<close> as a function, with what other
  tasks do to the shared state while it is suspended, is a run of the machine of all requests
  that ends in the same shared state with the same response. The last section runs the machine
  on examples, also for the properties of the other theories.
\<close>

section \<open>The machine runs calls of \<open>maybe_rdns\<close>\<close>

definition asks_for :: "ustr \<Rightarrow> ustr option \<Rightarrow> stage option \<Rightarrow> bool" where
  "asks_for ip_text org st \<longleftrightarrow>
     (\<exists>req pd. st = Some (Naming req pd) \<and> ip_text = pending_me pd \<and> org = aso (pending_geo pd))"

interpretation host: rdns_host answers "service_step lib answers" lookups with_lookups "\<lambda>r m. stages m r" asks_for
  for answers and lib :: "('r, 'l, 'v, 'k) app_libs"
proof
  show "service_step lib answers m (with_lookups p m)"
    if "asks_for ip_text org (stages m r)" "start_step r ip_text org (lookups m) p" for ip_text org r m p
    using that by (auto simp: asks_for_def intro: proceeds ask)
  show "service_step lib answers m (with_lookups p m)" if "call_step answers r (lookups m) p" for r m p
    using that by (rule resolves)
  show "service_step lib answers m (with_lookups (expire kept (lookups m)) m)" if "kept \<subseteq>\<^sub>m ptr_cache (app m)" for kept m
    using that by (rule forgets)
qed simp_all

text \<open>
  What the other requests and the resolver tasks may do while request \<open>r\<close> is suspended, and the
  three await points of a request with the states of the machine it is suspended in there: in
  \<open>maybe_rdns\<close>, which only the suspending handlers call, and before it in the queue for a slot.
  What the world of the request says of the others has to be something they can do from the very
  state of an await point that is reached; at the ones that are not, nothing is asked.
\<close>

abbreviation others_do ::
  "('r, 'l, 'v, 'k) app_libs \<Rightarrow> (ip_addr \<Rightarrow> ustr option \<Rightarrow> bool) \<Rightarrow> nat \<Rightarrow> (('r, 'k) app_state \<Rightarrow> ('r, 'k) app_state) \<Rightarrow>
     ('r, 'k) service_machine \<Rightarrow> ('r, 'k) service_machine \<Rightarrow> bool" where
  "others_do lib answers r f \<equiv> meanwhile (service_step lib answers) lookups (\<lambda>r m. stages m r) r f"

definition naming_ok ::
  "('r, 'l, 'v, 'k) app_libs \<Rightarrow> (ip_addr \<Rightarrow> ustr option \<Rightarrow> bool) \<Rightarrow> ('r, 'k) request_world \<Rightarrow> nat \<Rightarrow> request \<Rightarrow>
     ('r, 'k) service_machine \<Rightarrow> bool" where
  "naming_ok lib answers w r req m \<longleftrightarrow>
     (suspends lib req \<longrightarrow>
       (let (s, pd) = before_rdns lib (geo_evict w) req (app m);
            m = enter r (Naming req pd) (on_app (\<lambda>_. s) m)
        in \<forall>a. rdns_target s (pending_me pd) (aso (pending_geo pd)) = Some a \<longrightarrow>
             while_queued_ok (service_step lib answers) lookups with_lookups (\<lambda>r m. stages m r) r (rdns_call w) a m))"

definition queueing_ok ::
  "('r, 'l, 'v, 'k) app_libs \<Rightarrow> (ip_addr \<Rightarrow> ustr option \<Rightarrow> bool) \<Rightarrow> ('r, 'k) request_world \<Rightarrow> nat \<Rightarrow> request \<Rightarrow>
     ('r, 'k) service_machine \<Rightarrow> bool" where
  "queueing_ok lib answers w r req m \<longleftrightarrow>
     (\<exists>m'. others_do lib answers r (while_busy w) m m' \<and>
        (slot_in_time w \<and> 0 < concurrency (app m') \<longrightarrow>
           naming_ok lib answers w r req (enter r (Handling req) (on_app take_slot m'))))"

definition interleaves ::
  "('r, 'l, 'v, 'k) app_libs \<Rightarrow> (ip_addr \<Rightarrow> ustr option \<Rightarrow> bool) \<Rightarrow> ('r, 'k) request_world \<Rightarrow> nat \<Rightarrow> request \<Rightarrow>
     ('r, 'k) service_machine \<Rightarrow> bool" where
  "interleaves lib answers w r req m \<longleftrightarrow>
     (if is_monitoring (req_path req) then naming_ok lib answers w r req (enter r (Handling req) m)
      else
        (let a = (rate_evict w, self_ip (app m) (req_headers req) (req_peer req), clock0 w, clock1 w);
             (rl, verdict) = rate_access (rate_limit (app m)) a
         in verdict = None \<longrightarrow>
              queueing_ok lib answers w r req
                (enter r (Queueing req) (note_access r a (on_app (\<lambda>s. s\<lparr>rate_limit := rl\<rparr>) m)))))"

text \<open>Nothing in the machine changes the settings.\<close>

lemma settings_step:
  assumes "service_step lib answers m m'"
  shows "settings (app m') = settings (app m)"
  using assms
proof cases
  case (arrives r req)
  then show ?thesis by cases simp_all
next
  case (proceeds r)
  then show ?thesis
  proof cases
    case (answer req w t res)
    then show ?thesis using answer_keeps [OF answer(3,5)] by simp
  next
    case (suspend req evict t pd)
    then show ?thesis using suspend_keeps [OF suspend(5)] by simp
  next
    case (ask req pd p)
    then show ?thesis using start_step_keeps [OF ask(3)] by simp
  qed simp_all
next
  case (resolves r p)
  then show ?thesis using call_step_keeps(4) [OF resolves(2)] by simp
next
  case (forgets kept)
  then show ?thesis by simp
qed

lemma settings_run: "(service_step lib answers)\<^sup>*\<^sup>* m m' \<Longrightarrow> settings (app m') = settings (app m)"
  by (induction rule: rtranclp_induct) (simp_all add: settings_step)

section \<open>From the handler outwards\<close>

text \<open>
  \<open>reaches r st f\<close>: from \<open>m\<close> a run leads to stage \<open>st\<close> of request \<open>r\<close> with shared state \<open>s\<close>.
\<close>

definition reaches ::
  "('r, 'l, 'v, 'k) app_libs \<Rightarrow> (ip_addr \<Rightarrow> ustr option \<Rightarrow> bool) \<Rightarrow> nat \<Rightarrow> ('r, 'k) service_machine \<Rightarrow>
     stage \<Rightarrow> ('r, 'k) app_state \<Rightarrow> bool" where
  "reaches lib answers r m st s \<longleftrightarrow>
     (\<exists>m'. (service_step lib answers)\<^sup>*\<^sup>* m m' \<and> stages m' r = Some st \<and> app m' = s)"

lemma reachesI: "(service_step lib answers)\<^sup>*\<^sup>* m m' \<Longrightarrow> stages m' r = Some st \<Longrightarrow> app m' = s \<Longrightarrow> reaches lib answers r m st s"
  by (auto simp: reaches_def)

lemma reaches_after:
  "(service_step lib answers)\<^sup>*\<^sup>* m m' \<Longrightarrow> reaches lib answers r m' st s \<Longrightarrow> reaches lib answers r m st s"
  unfolding reaches_def using rtranclp_trans by metis

lemma reaches_step:
  "service_step lib answers m m' \<Longrightarrow> reaches lib answers r m' st s \<Longrightarrow> reaches lib answers r m st s"
  by (rule reaches_after) auto

lemma run_out:
  assumes "stages m r = Some (Leaving req res)"
  shows "reaches lib answers r m (Sent req (delivered req res)) (count_class res (count_request (app m)))"
proof -
  let ?m1 = "enter r (Classing req res) (on_app count_request m)"
  let ?m2 = "enter r (Sent req (delivered req res)) (on_app (count_class res) ?m1)"
  have "service_step lib answers m ?m1" by (rule proceeds, rule account, rule assms)
  moreover have "service_step lib answers ?m1 ?m2" by (rule proceeds, rule classify) simp
  ultimately show ?thesis by (intro reachesI [of _ _ _ ?m2]) auto
qed

lemma run_release:
  assumes "stages m r = Some (Releasing req res)"
  shows "reaches lib answers r m (Sent req (delivered req res)) (count_class res (count_request (return_slot req (app m))))"
proof -
  let ?m1 = "enter r (Leaving req res) (on_app (return_slot req) m)"
  have "service_step lib answers m ?m1" by (rule proceeds, rule release, rule assms)
  moreover have "reaches lib answers r ?m1 (Sent req (delivered req res)) (count_class res (count_request (app ?m1)))"
    by (rule run_out) simp
  ultimately show ?thesis using reaches_step by fastforce
qed

lemma run_handler:
  assumes "stages m r = Some (Handling req)" and "calls (lookups m) r = None"
    and "\<And>x. geo_evict w x \<subseteq>\<^sub>m x" and "\<And>x. ptr_evict (rdns_call w) x \<subseteq>\<^sub>m x"
    and "naming_ok lib answers w r req m"
    and "\<And>a res. map_option to_canonical (parse_ip (self_ip (app m) (req_headers req) (req_peer req))) = Some a \<Longrightarrow>
      lookup_end (rdns_call w) = Answered res \<Longrightarrow> answers a res"
    and "timeout_mw lib (routes lib w) req (app m) = (s, res)"
  shows "reaches lib answers r m (Releasing req res) s"
proof (cases "suspends lib req")
  case False
  obtain s' res' where a: "routes lib w req (app m) = (s', Ready res')" using False by (rule routes_plain)
  then have "s' = s" "res' = res" using assms(7) by (simp_all add: timeout_mw_def)
  then have "service_step lib answers m (enter r (Releasing req res) (on_app (\<lambda>_. s) m))"
    using a answer [OF assms(1) False assms(3)] by (intro proceeds) simp
  then show ?thesis by (intro reachesI [of _ _ _ "enter r (Releasing req res) (on_app (\<lambda>_. s) m)"]) auto
next
  case True
  obtain s0 pd where b: "before_rdns lib (geo_evict w) req (app m) = (s0, pd)" by fastforce
  let ?m1 = "enter r (Naming req pd) (on_app (\<lambda>_. s0) m)"
  have first: "service_step lib answers m ?m1" by (rule proceeds, rule suspend [OF assms(1) True assms(3) b])
  have me: "pending_me pd = self_ip (app m) (req_headers req) (req_peer req)"
    using pending_me_before [of lib "geo_evict w" req "app m"] b by simp
  obtain ptr s1 where call: "maybe_rdns (rdns_call w) s0 (pending_me pd) (aso (pending_geo pd)) = (s1, ptr)" by fastforce
  have target: "answers a v"
    if "rdns_target (app ?m1) (pending_me pd) (aso (pending_geo pd)) = Some a" "lookup_end (rdns_call w) = Answered v" for a v
    using that assms(6) [of a v] by (auto simp: rdns_target_def me split: if_splits option.splits)
  have asks: "asks_for (pending_me pd) (aso (pending_geo pd)) (stages ?m1 r)" by (simp add: asks_for_def)
  have "calls (lookups ?m1) r = None" using assms(2) by simp
  moreover have "while_queued_ok (service_step lib answers) lookups with_lookups (\<lambda>r m. stages m r) r (rdns_call w) a ?m1"
    if "rdns_target (app ?m1) (pending_me pd) (aso (pending_geo pd)) = Some a" for a
    using assms(5) True b that by (simp add: naming_ok_def Let_def)
  ultimately have "\<exists>asked s'. (service_step lib answers)\<^sup>*\<^sup>* ?m1 s' \<and>
      app s' = fst (maybe_rdns (rdns_call w) (app ?m1) (pending_me pd) (aso (pending_geo pd))) \<and> stages s' r = stages ?m1 r \<and>
      calls (lookups s') r = Some (call_result asked (snd (maybe_rdns (rdns_call w) (app ?m1) (pending_me pd) (aso (pending_geo pd)))))"
    using asks assms(4) target by (intro host.call_run)
  then
  obtain asked m2 where m2: "(service_step lib answers)\<^sup>*\<^sup>* ?m1 m2" "app m2 = s1" "stages m2 r = Some (Naming req pd)"
      "calls (lookups m2) r = Some (call_result asked ptr)"
    by (auto simp: call)
  have out: "timeout_mw lib (routes lib w) req (app m) =
      (s1, case ptr of Ready v \<Rightarrow> after_rdns lib s1 pd v | Dropped \<Rightarrow> request_timeout lib)"
    by (simp add: timeout_mw_def routes_suspending [OF True] b call await_def request_timeout_def split: awaited.split)
  have "service_step lib answers m2 (enter r (Releasing req res) m2)"
  proof (cases ptr)
    case (Ready v)
    then show ?thesis using named [OF m2(3), of asked v lib] m2(2,4) out assms(7) by (intro proceeds) simp
  next
    case Dropped
    then show ?thesis using deadline [OF m2(3), of lib] m2(4) out assms(7) by (intro proceeds) simp
  qed
  moreover have "s = s1" using out assms(7) by simp
  ultimately have "reaches lib answers r m2 (Releasing req res) s"
    by (intro reachesI [of _ _ _ "enter r (Releasing req res) m2"]) (simp_all add: m2(2))
  then show ?thesis using reaches_step [OF first reaches_after [OF m2(1)]] by simp
qed

text \<open>The layers outside the slot, as functions of what the inner service returns.\<close>

lemma response_headers_mw_hardened:
  "response_headers_mw inner req s = (fst (inner req s), hardened req (snd (inner req s)))"
  by (simp add: response_headers_mw_def hardened_def Let_def split_def)

lemma metrics_mw_counts:
  "metrics_mw inner req s = (count_class (snd (inner req s)) (count_request (fst (inner req s))), snd (inner req s))"
  by (simp add: metrics_mw_def count_class_def count_request_def client_error_def server_error_def Let_def split_def)

lemma count_class_hardened: "count_class (hardened req res) = count_class res"
  by (rule ext) (simp add: count_class_def)

lemma build_app_outer:
  "build_app lib w req s =
     (let (t, res) = rate_limit_mw lib w (concurrency_mw lib w (timeout_mw lib (routes lib w))) req s
      in (count_class res (count_request t), delivered req res))"
  unfolding build_app_def metrics_mw_counts response_headers_mw_hardened
  by (simp add: count_class_hardened delivered_def split_def Let_def)

lemma run_through:
  assumes "reaches lib answers r m (Releasing req res) s"
  shows "reaches lib answers r m (Sent req (delivered req res)) (count_class res (count_request (return_slot req s)))"
proof -
  obtain m' where m': "(service_step lib answers)\<^sup>*\<^sup>* m m'" "stages m' r = Some (Releasing req res)" "app m' = s"
    using assms unfolding reaches_def by blast
  show ?thesis using reaches_after [OF m'(1) run_release [OF m'(2)]] by (simp only: m'(3))
qed

lemma run_slot:
  assumes "stages m r = Some (Queueing req)" and "calls (lookups m) r = None" and "\<not> is_monitoring (req_path req)"
    and "\<And>x. geo_evict w x \<subseteq>\<^sub>m x" and "\<And>x. ptr_evict (rdns_call w) x \<subseteq>\<^sub>m x"
    and "queueing_ok lib answers w r req m"
    and "\<And>a res. map_option to_canonical (parse_ip (self_ip (app m) (req_headers req) (req_peer req))) = Some a \<Longrightarrow>
      lookup_end (rdns_call w) = Answered res \<Longrightarrow> answers a res"
    and "concurrency_mw lib w (timeout_mw lib (routes lib w)) req (app m) = (s, res)"
  shows "reaches lib answers r m (Sent req (delivered req res)) (count_class res (count_request s))"
proof -
  obtain m2 where others: "others_do lib answers r (while_busy w) m m2"
    and next': "slot_in_time w \<and> 0 < concurrency (app m2) \<longrightarrow>
      naming_ok lib answers w r req (enter r (Handling req) (on_app take_slot m2))"
    using assms(6) unfolding queueing_ok_def by blast
  from others have m2: "(service_step lib answers)\<^sup>*\<^sup>* m m2" "app m2 = while_busy w (app m)"
      "calls (lookups m2) r = None" "stages m2 r = Some (Queueing req)"
    using assms(1,2) by (auto elim: meanwhileE)
  have "reaches lib answers r m2 (Sent req (delivered req res)) (count_class res (count_request s))"
  proof (cases "slot_in_time w \<and> 0 < concurrency (app m2)")
    case False
    then have out: "s = app m2" "res = service_busy lib"
      using assms(3,8) by (simp_all add: concurrency_mw_def Let_def service_busy_def m2(2))
    have "service_step lib answers m2 (enter r (Leaving req (service_busy lib)) m2)"
      by (rule proceeds, rule busy, rule m2(4))
    then show ?thesis
      using run_out [of "enter r (Leaving req (service_busy lib)) m2" r req "service_busy lib" lib answers] out
      by (simp add: reaches_step)
  next
    case True
    let ?m3 = "enter r (Handling req) (on_app take_slot m2)"
    have step: "service_step lib answers m2 ?m3" by (rule proceeds, rule slot) (use m2(4) True in simp_all)
    obtain t where inner: "timeout_mw lib (routes lib w) req (app ?m3) = (t, res)" and s: "s = return_slot req t"
      using True assms(3,8) m2(2)
      by (auto simp: concurrency_mw_def Let_def split_def take_slot_def return_slot_def intro: prod.collapse [symmetric])
    have "settings (app ?m3) = settings (app m)" using settings_run [OF m2(1)] by simp
    note me = self_ip_settings [OF this]
    have "reaches lib answers r ?m3 (Releasing req res) t"
      using m2(3) assms(4,5,7) inner next' True by (intro run_handler [where w = w]) (simp_all add: me [simplified])
    then show ?thesis unfolding s by (rule reaches_step [OF step run_through])
  qed
  then show ?thesis by (rule reaches_after [OF m2(1)])
qed

lemma build_app_reaches:
  assumes "stages m r = None" and "calls (lookups m) r = None"
    and "\<And>x. geo_evict w x \<subseteq>\<^sub>m x" and "\<And>x. rate_evict w x \<subseteq>\<^sub>m x" and "\<And>x. ptr_evict (rdns_call w) x \<subseteq>\<^sub>m x"
    and "interleaves lib answers w r req m"
    and "\<And>a res. map_option to_canonical (parse_ip (self_ip (app m) (req_headers req) (req_peer req))) = Some a \<Longrightarrow>
      lookup_end (rdns_call w) = Answered res \<Longrightarrow> answers a res"
  shows "reaches lib answers r m (Sent req (snd (build_app lib w req (app m)))) (fst (build_app lib w req (app m)))"
proof -
  let ?inner = "timeout_mw lib (routes lib w)"
  let ?limited = "rate_limit_mw lib w (concurrency_mw lib w ?inner)"
  obtain s res where out: "?limited req (app m) = (s, res)" by fastforce
  have "reaches lib answers r m (Sent req (delivered req res)) (count_class res (count_request s))"
  proof (cases "is_monitoring (req_path req)")
    case True
    let ?m1 = "enter r (Handling req) m"
    have step: "service_step lib answers m ?m1" by (rule arrives, rule exempt) (use assms(1) True in simp_all)
    have "timeout_mw lib (routes lib w) req (app ?m1) = (s, res)"
      using out True by (simp add: rate_limit_mw_def concurrency_mw_def)
    then have "reaches lib answers r ?m1 (Releasing req res) s"
      using assms(2,3,5-7) True by (intro run_handler [where w = w]) (simp_all add: interleaves_def)
    from run_through [OF this] show ?thesis using True by (intro reaches_step [OF step]) (simp add: return_slot_def)
  next
    case False
    define a where "a = (rate_evict w, self_ip (app m) (req_headers req) (req_peer req), clock0 w, clock1 w)"
    have a: "only_evicts a" using assms(4) by (simp add: a_def only_evicts_def)
    obtain rl v where rl: "rate_access (rate_limit (app m)) a = (rl, v)" by fastforce
    then have check: "rate_check (rate_evict w) (rate_limit (app m)) (self_ip (app m) (req_headers req) (req_peer req))
        (clock0 w) (clock1 w) = (rl, v)"
      by (simp add: rate_access_def a_def)
    let ?m0 = "note_access r a (on_app (\<lambda>s. s\<lparr>rate_limit := rl\<rparr>) m)"
    show ?thesis
    proof (cases v)
      case (Some secs)
      let ?m1 = "enter r (Over_Limit req secs) ?m0"
      let ?m2 = "enter r (Leaving req (too_many_requests lib secs)) (on_app count_refused ?m1)"
      have "service_step lib answers m ?m1"
        by (rule arrives, rule over_limit [OF assms(1) False a_def a]) (use rl Some in simp)
      moreover have "service_step lib answers ?m1 ?m2" by (rule proceeds, rule refuse) simp
      moreover have "s = app ?m2" "res = too_many_requests lib secs"
        using out False check Some by (simp_all add: rate_limit_mw_def Let_def count_refused_def too_many_requests_def)
      ultimately show ?thesis using run_out [of ?m2 r req res lib answers] by (simp add: reaches_step)
    next
      case None
      let ?m1 = "enter r (Queueing req) ?m0"
      have step: "service_step lib answers m ?m1"
        by (rule arrives, rule admitted [OF assms(1) False a_def a]) (use rl None in simp)
      have "concurrency_mw lib w ?inner req (app ?m1) = (s, res)"
        using out False check None by (simp add: rate_limit_mw_def Let_def)
      moreover have "self_ip (app ?m1) hs conn = self_ip (app m) hs conn" for hs conn
        by (rule self_ip_settings) simp
      moreover have "queueing_ok lib answers w r req ?m1"
        using assms(6) False rl None unfolding interleaves_def Let_def a_def [symmetric] by simp
      ultimately have "reaches lib answers r ?m1 (Sent req (delivered req res)) (count_class res (count_request s))"
        using assms(2,3,5,7) False by (intro run_slot [where w = w]) simp_all
      then show ?thesis by (rule reaches_step [OF step])
    qed
  qed
  then show ?thesis by (simp add: build_app_outer out)
qed

text \<open>
  C9. An execution of \<open>build_app\<close> is a run of the machine: if the housekeeping of the caches only
  drops entries, the resolver gives one of its answers, and at each await point that is reached
  the other requests and the resolver tasks do something the machine allows them from there, then
  from any state, whatever else is in flight, the machine gets to the state and the response the
  function returns.
\<close>

theorem build_app_is_a_run:
  assumes "stages m r = None" and "calls (lookups m) r = None"
    and "\<And>x. geo_evict w x \<subseteq>\<^sub>m x" and "\<And>x. rate_evict w x \<subseteq>\<^sub>m x" and "\<And>x. ptr_evict (rdns_call w) x \<subseteq>\<^sub>m x"
    and "interleaves lib answers w r req m"
    and "\<And>a res. map_option to_canonical (parse_ip (self_ip (app m) (req_headers req) (req_peer req))) = Some a \<Longrightarrow>
      lookup_end (rdns_call w) = Answered res \<Longrightarrow> answers a res"
  shows "\<exists>m'. (service_step lib answers)\<^sup>*\<^sup>* m m' \<and> app m' = fst (build_app lib w req (app m)) \<and>
    stages m' r = Some (Sent req (snd (build_app lib w req (app m))))"
  using build_app_reaches [OF assms] unfolding reaches_def by blast

section \<open>Runs of the machine\<close>

text \<open>A service without a rate limit, and a resolver that gives one name.\<close>

definition open_config :: "u8 list config" where
  "open_config =
     (config_literal (demo_env demo_vars) True False [lit ''x-real-ip''] None (V4 (Ipv4Addr 0 0 0 0))
        None None None None (from_seed demo_crypto (replicate 32 1) True))
       \<lparr>rate_per_minute := 0, config_signer := from_seed (signing_lib demo_libs) (replicate 32 1) True\<rparr>"

lemma open_state_new: "app_state_new demo_pool open_config = open_state"
  by (simp add: open_config_def open_state_def demo_state_def app_state_new_def)

definition one_name :: "ip_addr \<Rightarrow> ustr option \<Rightarrow> bool" where
  "one_name a res \<longleftrightarrow> res = Some (lit ''dns.google'')"

abbreviation demo_run :: "(ustr + demo_json, u8 list) service_machine \<Rightarrow> bool" where
  "demo_run \<equiv> reachable (service_init demo_pool open_config) (service_step demo_libs one_name)"

lemma open_service_start: "demo_run (service_start open_state)"
  by (rule reachable_init) (simp add: service_init_def open_state_new)

lemma nobody_interleaves:
  assumes "while_busy w = id" and "while_queued (rdns_call w) = id" and "while_resolving (rdns_call w) = id"
  shows "interleaves lib answers w r req m"
proof -
  have naming: "naming_ok lib answers w r req m" for m
    using assms(2,3) by (simp add: naming_ok_def nobody_else split_def Let_def)
  have "queueing_ok lib answers w r req m" for m
    unfolding queueing_ok_def assms(1) by (rule exI [of _ m]) (simp add: naming)
  then show ?thesis using naming by (simp add: interleaves_def split_def Let_def)
qed

lemma demo_reaches: "\<exists>m. demo_run m \<and> stages m 0 = Some (Sent req (snd (build_app demo_libs demo_world req open_state))) \<and>
  app m = fst (build_app demo_libs demo_world req open_state)"
proof -
  have "reaches demo_libs one_name 0 (service_start open_state)
      (Sent req (snd (build_app demo_libs demo_world req open_state))) (fst (build_app demo_libs demo_world req open_state))"
    using build_app_reaches [of "service_start open_state" 0 demo_world demo_libs one_name req]
    by (simp add: service_start_def demo_world_def demo_rdns_def one_name_def nobody_interleaves)
  then obtain m where m: "(service_step demo_libs one_name)\<^sup>*\<^sup>* (service_start open_state) m"
      "stages m 0 = Some (Sent req (snd (build_app demo_libs demo_world req open_state)))"
      "app m = fst (build_app demo_libs demo_world req open_state)"
    unfolding reaches_def by blast
  show ?thesis using reachable_run [OF m(1) open_service_start] m(2,3) by blast
qed

lemma demo_suspends: "suspends demo_libs (demo_request ''/judge'')"
  by (simp add: suspends_def routed_def demo_request_def demo_libs_def)

text \<open>
  Two things that other requests do: request \<open>v\<close> for \<open>/healthz\<close> is served from its arrival to its
  answer, and request \<open>v\<close> for \<open>/judge\<close> arrives and takes a slot, which it keeps.
\<close>

lemma another_is_served:
  assumes "stages m v = None" and "v \<noteq> r"
  shows "\<exists>m'. others_do demo_libs answers r count_request m m' \<and> (\<forall>u. u \<noteq> v \<longrightarrow> stages m' u = stages m u)"
proof -
  let ?q = "demo_request ''/healthz''" and ?w = "demo_world :: (ustr + demo_json, u8 list) request_world"
  let ?res = "healthz demo_libs"
  have q: "is_monitoring (req_path ?q)" "\<not> suspends demo_libs ?q"
    by (simp_all add: is_monitoring_def suspends_def demo_request_def)
  have served: "routes demo_libs ?w ?q s = (s, Ready ?res)" for s
    by (simp add: routes_def handle_def demo_request_def)
  have fine: "count_class ?res s = s" for s :: "(ustr + demo_json, u8 list) app_state"
    by (simp add: count_class_def client_error_def server_error_def healthz_def)
  have kept: "return_slot ?q s = s" for s :: "(ustr + demo_json, u8 list) app_state"
    using q(1) by (simp add: return_slot_def)
  define m1 where "m1 = enter v (Handling ?q) m"
  define m2 where "m2 = enter v (Releasing ?q ?res) (on_app (\<lambda>_. app m1) m1)"
  define m3 where "m3 = enter v (Leaving ?q ?res) (on_app (return_slot ?q) m2)"
  define m4 where "m4 = enter v (Classing ?q ?res) (on_app count_request m3)"
  define m5 where "m5 = enter v (Sent ?q (delivered ?q ?res)) (on_app (count_class ?res) m4)"
  have s1: "service_step demo_libs answers m m1"
    unfolding m1_def by (rule arrives, rule exempt [OF assms(1) q(1)])
  have s2: "service_step demo_libs answers m1 m2"
    unfolding m2_def by (rule proceeds, rule answer [OF _ q(2) _ served]) (simp_all add: m1_def demo_world_def)
  have s3: "service_step demo_libs answers m2 m3"
    unfolding m3_def by (rule proceeds, rule release) (simp add: m2_def)
  have s4: "service_step demo_libs answers m3 m4"
    unfolding m4_def by (rule proceeds, rule account) (simp add: m3_def)
  have s5: "service_step demo_libs answers m4 m5"
    unfolding m5_def by (rule proceeds, rule classify) (simp add: m4_def)
  from s1 have "(service_step demo_libs answers)\<^sup>*\<^sup>* m m1" by (rule r_into_rtranclp)
  note then_step [OF then_step [OF then_step [OF then_step [OF this s2] s3] s4] s5]
  then have "others_do demo_libs answers r count_request m m5"
    using assms(2) by (simp add: meanwhile_def m5_def m4_def m3_def m2_def m1_def fine kept)
  then show ?thesis by (auto simp: m5_def m4_def m3_def m2_def m1_def)
qed

lemma another_takes_a_slot:
  assumes "stages m v = None" and "v \<noteq> r" and "per_minute (rate_limit (app m)) = 0" and "0 < concurrency (app m)"
  shows "\<exists>m'. others_do demo_libs answers r take_slot m m'"
proof -
  let ?q = "demo_request ''/judge''"
  let ?a = "(id, self_ip (app m) (req_headers ?q) (req_peer ?q), 0, 0)"
  define m1 where "m1 = enter v (Queueing ?q) (note_access v ?a (on_app (\<lambda>s. s\<lparr>rate_limit := rate_limit (app m)\<rparr>) m))"
  define m2 where "m2 = enter v (Handling ?q) (on_app take_slot m1)"
  have same: "s\<lparr>rate_limit := rate_limit s\<rparr> = s" for s :: "(ustr + demo_json, u8 list) app_state" by simp
  have "arrival v ?q m m1"
    unfolding m1_def
    by (rule admitted [OF assms(1) _ refl _ rate_access_disabled [OF assms(3)]])
      (simp_all add: is_monitoring_def demo_request_def only_evicts_def)
  then have "service_step demo_libs answers m m1" by (rule arrives)
  moreover have "service_step demo_libs answers m1 m2"
    unfolding m2_def by (rule proceeds, rule slot) (use assms(4) in \<open>simp_all add: m1_def\<close>)
  ultimately have "(service_step demo_libs answers)\<^sup>*\<^sup>* m m2" by (blast intro: then_step)
  then show ?thesis using assms(2) by (intro exI [of _ m2]) (simp add: meanwhile_def m2_def m1_def same)
qed

text \<open>
  A service without databases, so that the resolver is asked. While request 0 waits for its slot,
  request 1 is served, and while the resolver works for it, request 2 takes a slot.
\<close>

definition bare_state :: "(ustr + demo_json, u8 list) app_state" where
  "bare_state = open_state\<lparr>geo := \<lparr>city_db = None, country_db = None, asn_db = None, sources = []\<rparr>\<rparr>"

definition shared_world :: "(ustr + demo_json, u8 list) request_world" where
  "shared_world = demo_world\<lparr>while_busy := count_request, rdns_call := demo_rdns\<lparr>while_resolving := take_slot\<rparr>\<rparr>"

lemma bare_fields:
  "rate_limit bare_state = rate_limit_new 0" "concurrency bare_state = 512" "per_minute (rate_limit_new 0) = 0"
  by (simp_all add: bare_state_def open_state_def demo_state_def app_state_new_def MAX_CONCURRENCY_def rate_limit_new_def)

lemma shared_interleaves:
  "interleaves demo_libs one_name shared_world 0 (demo_request ''/judge'') (service_start bare_state)"
proof -
  let ?req = "demo_request ''/judge''"
  let ?a = "(id, self_ip bare_state hiding_request (Some (V4 (Ipv4Addr 10 0 0 2), 40000)), 0, 0)"
  let ?m1 = "enter 0 (Queueing ?req) (note_access 0 ?a (on_app (\<lambda>s. s\<lparr>rate_limit := rate_limit_new 0\<rparr>) (service_start bare_state)))"
  have plain: "\<not> is_monitoring (req_path ?req)" by (simp add: is_monitoring_def demo_request_def)
  have free: "stages ?m1 1 = None" by (simp add: service_start_def)
  obtain m2 where m2: "others_do demo_libs one_name 0 count_request ?m1 m2" "\<forall>u. u \<noteq> 1 \<longrightarrow> stages m2 u = stages ?m1 u"
    using another_is_served [OF free, of 0 one_name] by auto
  have app2: "rate_limit (app m2) = rate_limit_new 0" "concurrency (app m2) = 512" "stages m2 2 = None"
    using m2 by (auto elim!: meanwhileE simp: service_start_def bare_fields)
  obtain s0 pd where before: "before_rdns demo_libs (geo_evict shared_world) ?req (take_slot (app m2)) = (s0, pd)" by fastforce
  have b: "rate_limit s0 = rate_limit_new 0" "concurrency s0 = 511"
    using suspend_keeps [OF before] app2 by simp_all
  let ?m3 = "enter 0 (Naming ?req pd) (on_app (\<lambda>_. s0) (enter 0 (Handling ?req) (on_app take_slot m2)))"
  have "while_queued_ok (service_step demo_libs one_name) lookups with_lookups (\<lambda>r m. stages m r) 0 (rdns_call shared_world) a ?m3"
    for a
  proof -
    let ?step = "service_step demo_libs one_name" and ?own = "\<lambda>r m. stages m r" and ?w = "rdns_call shared_world"
    have idle: "while_queued ?w = id" "while_resolving ?w = take_slot"
      by (simp_all add: shared_world_def demo_rdns_def)
    let ?s = "drop_cached lookups with_lookups ?w ?m3"
    let ?s' = "with_lookups (set_call 0 (Queued a) (lookups ?s)) ?s"
    let ?t = "drop_cached lookups with_lookups ?w
      (with_lookups (set_call 0 (Holding a) (on_shared take_permit (lookups ?s'))) ?s')"
    have "stages (suspended_resolving lookups with_lookups 0 a ?t) 2 = None"
      by (simp add: suspended_resolving_def drop_cached_def app2)
    moreover have "rate_limit (app (suspended_resolving lookups with_lookups 0 a ?t)) = rate_limit_new 0"
      "concurrency (app (suspended_resolving lookups with_lookups 0 a ?t)) = 511"
      by (simp_all add: host.suspended_resolving_simps host.drop_cached_simps rdns_effects b)
    ultimately have "\<exists>t'. others_do demo_libs one_name 0 take_slot (suspended_resolving lookups with_lookups 0 a ?t) t'"
      by (intro another_takes_a_slot [of _ 2]) (simp_all add: bare_fields)
    then have "while_resolving_ok ?step lookups with_lookups ?own 0 ?w a ?s'"
      unfolding while_resolving_ok_def Let_def idle by blast
    then show ?thesis
      unfolding while_queued_ok_def Let_def idle by (intro impI, intro exI [of _ ?s'] conjI meanwhile_refl impI)
  qed
  then have "naming_ok demo_libs one_name shared_world 0 ?req (enter 0 (Handling ?req) (on_app take_slot m2))"
    by (simp add: naming_ok_def before)
  moreover have "while_busy shared_world = count_request" by (simp add: shared_world_def)
  ultimately have "queueing_ok demo_libs one_name shared_world 0 ?req ?m1"
    using m2(1) unfolding queueing_ok_def by metis
  then show ?thesis
    using plain rate_access_disabled [of "rate_limit_new 0" ?a]
    by (simp add: interleaves_def service_start_def bare_fields shared_world_def demo_world_def demo_request_def split_def Let_def)
qed

theorem build_app_is_a_run_witness:
  "\<exists>m. (service_step demo_libs one_name)\<^sup>*\<^sup>* (service_start bare_state) m \<and>
     app m = fst (build_app demo_libs shared_world (demo_request ''/judge'') bare_state) \<and>
     stages m 0 = Some (Sent (demo_request ''/judge'') (snd (build_app demo_libs shared_world (demo_request ''/judge'') bare_state)))"
  using build_app_is_a_run [of "service_start bare_state" 0 shared_world demo_libs one_name "demo_request ''/judge''"] shared_interleaves
  by (simp add: service_start_def shared_world_def demo_world_def demo_rdns_def one_name_def)

theorem answers_do_not_mix_witness:
  "\<exists>inner. snd (build_app demo_libs demo_world (demo_request ''/judge'') open_state) = delivered (demo_request ''/judge'') inner \<and>
     (inner = service_busy demo_libs \<or> (\<exists>secs. inner = too_many_requests demo_libs secs) \<or> inner = request_timeout demo_libs \<or>
      (\<exists>ptr. genuine one_name (self_ip open_state hiding_request (Some (V4 (Ipv4Addr 10 0 0 2), 40000))) ptr \<and>
         inner = answer_alone demo_libs open_state (demo_request ''/judge'') ptr))"
proof -
  obtain m where m: "demo_run m"
    "stages m 0 = Some (Sent (demo_request ''/judge'') (snd (build_app demo_libs demo_world (demo_request ''/judge'') open_state)))"
    using demo_reaches by blast
  have req: "req_headers (demo_request ''/judge'') = hiding_request"
    "req_peer (demo_request ''/judge'') = Some (V4 (Ipv4Addr 10 0 0 2), 40000)"
    by (simp_all add: demo_request_def)
  from answers_do_not_mix [OF m] demo_suspends show ?thesis unfolding open_state_new req by auto
qed

theorem counters_are_exact_witness:
  "\<exists>m. demo_run m \<and> requests (metrics (app m)) = 1 \<and>
     (1 :: u64) = of_nat (card {r. \<exists>req res. stages m r = Some (Classing req res) \<or> stages m r = Some (Sent req res)})"
proof -
  obtain m where m: "demo_run m" "app m = fst (build_app demo_libs demo_world (demo_request ''/healthz'') open_state)"
    using demo_reaches by blast
  have "requests (metrics (app m)) = 1"
    unfolding m(2) build_app_outer
    by (simp add: rate_limit_mw_def concurrency_mw_def is_monitoring_def demo_request_def timeout_mw_def routes_def handle_def
        open_state_def demo_state_def app_state_new_def metrics_default_def)
  then show ?thesis using counters_are_exact [OF m(1)] m(1) by auto
qed

text \<open>A request that holds its slot.\<close>

definition demo_busy :: "(ustr + demo_json, u8 list) service_machine" where
  "demo_busy = enter 0 (Handling (demo_request ''/judge'')) (on_app take_slot (enter 0 (Queueing (demo_request ''/judge''))
     (note_access 0 (id, self_ip open_state hiding_request (Some (V4 (Ipv4Addr 10 0 0 2), 40000)), 0, 0)
        (on_app (\<lambda>s. s\<lparr>rate_limit := rate_limit open_state\<rparr>) (service_start open_state)))))"

lemma demo_busy_reachable: "demo_run demo_busy"
proof -
  let ?req = "demo_request ''/judge''"
  let ?a = "(id, self_ip open_state hiding_request (Some (V4 (Ipv4Addr 10 0 0 2), 40000)), 0, 0)"
  let ?m1 = "enter 0 (Queueing ?req) (note_access 0 ?a (on_app (\<lambda>s. s\<lparr>rate_limit := rate_limit open_state\<rparr>) (service_start open_state)))"
  have "rate_access (rate_limit open_state) ?a = (rate_limit open_state, None)"
    by (rule rate_access_disabled) (simp add: open_state_def rate_limit_new_def)
  then have "arrival 0 ?req (service_start open_state) ?m1"
    by (intro admitted) (simp_all add: service_start_def is_monitoring_def demo_request_def only_evicts_def)
  then have "demo_run ?m1" by (rule reachable_step [OF open_service_start arrives])
  moreover have "service_step demo_libs one_name ?m1 demo_busy"
    unfolding demo_busy_def
    by (rule proceeds, rule slot) (simp_all add: service_start_def open_state_def demo_state_def app_state_new_def MAX_CONCURRENCY_def)
  ultimately show ?thesis by (rule reachable_step)
qed

theorem service_is_bounded_witness:
  "slot_users demo_busy = {0} \<and> card (slot_users demo_busy) \<le> 512 \<and> concurrency (app demo_busy) \<noteq> 512"
proof -
  have "slot_users demo_busy = {0}"
    by (auto simp: slot_users_def demo_busy_def stood_def service_start_def is_monitoring_def demo_request_def split: if_splits)
  then show ?thesis using service_is_bounded [OF demo_busy_reachable] by simp
qed

theorem every_request_is_answered_witness:
  "\<exists>k m' req res. k \<le> 7 \<and> (own_step demo_libs one_name 0 ^^ k) demo_busy m' \<and> stages m' 0 = Some (Sent req res)"
  by (rule every_request_is_answered [of _ _ "Handling (demo_request ''/judge'')"]) (simp_all add: demo_busy_def)

end
