(* ===== verification/Serve_Loop.thy ===== *)
theory Serve_Loop
  imports Step_Machine Ip_Addr
begin

text \<open>
  The accept loop of \<open>src/server.rs\<close>: a permit per open connection, accepting, backing off on
  errors of the listening socket, and the graceful shutdown. Sockets, hyper and the signal are
  the environment: they decide which step comes next.
\<close>

section \<open>Limits and accept errors\<close>

text \<open>Durations are nanoseconds.\<close>

record limits =
  header_read_timeout :: nat
  max_connections :: nat
  shutdown_grace :: nat

datatype io_error_kind = Connection_Refused | Connection_Aborted | Connection_Reset | Other_Kind

text \<open>How many lines \<open>accept_error\<close> logs, and how long it suspends the loop.\<close>

definition accept_error :: "io_error_kind \<Rightarrow> nat \<times> nat" where
  "accept_error kind =
     (if kind \<in> {Connection_Refused, Connection_Aborted, Connection_Reset} then (0, 0) else (1, 10 ^ 9))"

section \<open>The loop\<close>

text \<open>
  Where the loop stands: waiting for a permit, waiting for a connection with the permit in hand,
  in \<open>accept_error\<close> (still with the permit), waiting for the open connections
  after the shutdown, or returned.
\<close>

datatype loop_state = Wait_Permit | Accepting | Backing_Off | Draining | Stopped

text \<open>
  The state of \<open>serve\<close>: the free permits, the open connections with their peers (each in a task
  that holds a permit), whether the shutdown future is ready, whether the listener is open, and
  the time spent suspended after accept errors with the number of errors logged.
\<close>

record server =
  loop :: loop_state
  permits :: nat
  conns :: "nat \<rightharpoonup> ip_addr \<times> u16"
  signalled :: bool
  listening :: bool
  slept :: nat
  logged :: nat

definition serve_init :: "limits \<Rightarrow> server \<Rightarrow> bool" where
  "serve_init lim s \<longleftrightarrow>
     s = \<lparr>loop = Wait_Permit, permits = max_connections lim, conns = Map.empty, signalled = False,
          listening = True, slept = 0, logged = 0\<rparr>"

text \<open>Leaving the loop drops the listener, and the permit if one is in hand.\<close>

definition leave_loop :: "server \<Rightarrow> server" where
  "leave_loop s = s\<lparr>loop := Draining, listening := False\<rparr>"

definition give_back :: "server \<Rightarrow> server" where
  "give_back s = s\<lparr>permits := permits s + 1\<rparr>"

inductive serve_step :: "server \<Rightarrow> server \<Rightarrow> bool" where
  permit: "loop s = Wait_Permit \<Longrightarrow> 0 < permits s \<Longrightarrow>
    serve_step s (s\<lparr>loop := Accepting, permits := permits s - 1\<rparr>)"
| stop_waiting: "loop s = Wait_Permit \<Longrightarrow> signalled s \<Longrightarrow> serve_step s (leave_loop s)"
| accept: "loop s = Accepting \<Longrightarrow> conns s c = None \<Longrightarrow>
    serve_step s (s\<lparr>loop := Wait_Permit, conns := (conns s)(c \<mapsto> peer)\<rparr>)"
| failed: "loop s = Accepting \<Longrightarrow> accept_error kind = (lines, pause) \<Longrightarrow>
    serve_step s (s\<lparr>loop := Backing_Off, slept := slept s + pause, logged := logged s + lines\<rparr>)"
| backed_off: "loop s = Backing_Off \<Longrightarrow> serve_step s (give_back (s\<lparr>loop := Wait_Permit\<rparr>))"
| stop_accepting: "loop s = Accepting \<Longrightarrow> signalled s \<Longrightarrow> serve_step s (give_back (leave_loop s))"
| closed: "conns s c = Some peer \<Longrightarrow> serve_step s (give_back (s\<lparr>conns := (conns s)(c := None)\<rparr>))"
| signal: "serve_step s (s\<lparr>signalled := True\<rparr>)"
| drained: "loop s = Draining \<Longrightarrow> conns s = Map.empty \<Longrightarrow> serve_step s (s\<lparr>loop := Stopped\<rparr>)"
| grace_over: "loop s = Draining \<Longrightarrow> serve_step s (s\<lparr>loop := Stopped\<rparr>)"

section \<open>Invariant\<close>

text \<open>A permit is held by every open connection and, with name \<open>None\<close>, by the loop itself.\<close>

definition permit_holders :: "server \<Rightarrow> nat option set" where
  "permit_holders s = Some ` dom (conns s) \<union> (if loop s \<in> {Accepting, Backing_Off} then {None} else {})"

definition serve_inv :: "limits \<Rightarrow> server \<Rightarrow> bool" where
  "serve_inv lim s \<longleftrightarrow>
     finite (dom (conns s)) \<and>
     permits s + card (permit_holders s) = max_connections lim \<and>
     (listening s \<longleftrightarrow> loop s \<in> {Wait_Permit, Accepting, Backing_Off}) \<and>
     (\<not> listening s \<longrightarrow> signalled s) \<and>
     slept s = 10 ^ 9 * logged s"

lemma finite_permit_holders: "finite (dom (conns s)) \<Longrightarrow> finite (permit_holders s)"
  by (simp add: permit_holders_def)

lemma card_permit_holders:
  "finite (dom (conns s)) \<Longrightarrow>
     card (permit_holders s) = card (dom (conns s)) + (if loop s \<in> {Accepting, Backing_Off} then 1 else 0)"
  by (simp add: permit_holders_def card_image inj_on_def card_insert_if image_iff)

lemma serve_inv_iff:
  "serve_inv lim s \<longleftrightarrow>
     finite (dom (conns s)) \<and>
     permits s + card (dom (conns s)) + (if loop s \<in> {Accepting, Backing_Off} then 1 else 0) = max_connections lim \<and>
     (listening s \<longleftrightarrow> loop s \<in> {Wait_Permit, Accepting, Backing_Off}) \<and>
     (\<not> listening s \<longrightarrow> signalled s) \<and>
     slept s = 10 ^ 9 * logged s"
  by (auto simp: serve_inv_def card_permit_holders)

lemma serve_inv_step:
  assumes "serve_inv lim s" and "serve_step s s'"
  shows "serve_inv lim s'"
  using assms(2)
proof cases
  case (accept c peer)
  then have "c \<notin> dom (conns s)" by auto
  with accept assms(1) show ?thesis by (simp add: serve_inv_iff)
next
  case (closed c peer)
  then have c: "c \<in> dom (conns s)" by auto
  have fin: "finite (dom (conns s))" using assms(1) by (simp add: serve_inv_iff)
  have "dom ((conns s)(c := None)) = dom (conns s) - {c}" by simp
  moreover have "Suc (card (dom (conns s) - {c})) = card (dom (conns s))" using fin c by (rule card_Suc_Diff1)
  ultimately show ?thesis
    using assms(1) unfolding closed(1) by (simp add: serve_inv_iff give_back_def del: dom_fun_upd)
next
  case (failed kind lines pause)
  then have "pause = 10 ^ 9 * lines" by (auto simp: accept_error_def split: if_splits)
  with failed assms(1) show ?thesis by (simp add: serve_inv_iff)
qed (use assms(1) in \<open>auto simp: serve_inv_iff give_back_def leave_loop_def\<close>)

interpretation serve: permit_pool "serve_init lim" serve_step "serve_inv lim" permits permit_holders
    "max_connections lim"
  for lim
proof
  show "serve_inv lim s" if "serve_init lim s" for s
    using that by (simp add: serve_init_def serve_inv_iff)
  show "serve_inv lim s'" if "serve_inv lim s" "serve_step s s'" for s s'
    using that by (rule serve_inv_step)
qed (simp_all add: serve_inv_def finite_permit_holders)

text \<open>
  C19. The number of open connections never exceeds the limit, whatever connects, fails or
  closes, and no permit is lost by an accept error or a closed connection: with nothing open and
  the loop waiting for a permit, all of them are free. The loop cannot spin on a failing socket:
  every logged error costs a second of suspension.
\<close>

theorem connections_are_bounded:
  assumes "reachable (serve_init lim) serve_step s"
  shows "finite (dom (conns s)) \<and> card (dom (conns s)) \<le> max_connections lim \<and>
    (permits s = max_connections lim \<longleftrightarrow> conns s = Map.empty \<and> loop s \<notin> {Accepting, Backing_Off}) \<and>
    logged s * 10 ^ 9 \<le> slept s"
proof -
  have "serve_inv lim s" using assms by (rule serve.reachable_inv)
  moreover have "card (dom (conns s)) = card (Some ` dom (conns s))" by (simp add: card_image inj_on_def)
  moreover have "Some ` dom (conns s) \<subseteq> permit_holders s" by (simp add: permit_holders_def)
  ultimately show ?thesis
    using serve.holders_bounded [OF assms, of "Some ` dom (conns s)"] serve.all_free_iff [OF assms]
    by (auto simp: serve_inv_def permit_holders_def)
qed

section \<open>Shutdown\<close>

inductive_cases serve_stepE: "serve_step s s'"

lemma draining_step:
  assumes "serve_step s s'" and "loop s \<in> {Draining, Stopped}"
  shows "loop s' \<in> {Draining, Stopped} \<and> listening s' = listening s \<and> conns s' \<subseteq>\<^sub>m conns s \<and> slept s' = slept s"
  using assms by (auto simp: give_back_def map_le_def elim!: serve_stepE split: if_splits)

lemma draining_run:
  assumes "serve_step\<^sup>*\<^sup>* s s'" and "loop s \<in> {Draining, Stopped}"
  shows "loop s' \<in> {Draining, Stopped} \<and> listening s' = listening s \<and> conns s' \<subseteq>\<^sub>m conns s"
  using assms
proof (induction rule: rtranclp_induct)
  case (step t u)
  then have "loop u \<in> {Draining, Stopped} \<and> listening u = listening t \<and> conns u \<subseteq>\<^sub>m conns t"
    using draining_step [of t u] by blast
  with step show ?case using map_le_trans [of "conns u" "conns t" "conns s"] by simp
qed simp

text \<open>
  C36. The loop leaves only on the shutdown signal, and once it drains, the listener is closed for
  good and no connection is ever added: whatever happens afterwards, the open connections are
  among those that were open then.
\<close>

theorem shutdown_stops_accepting:
  assumes "reachable (serve_init lim) serve_step s" and "loop s = Draining" and "serve_step\<^sup>*\<^sup>* s s'"
  shows "signalled s \<and> \<not> listening s' \<and> conns s' \<subseteq>\<^sub>m conns s \<and> loop s' \<in> {Draining, Stopped}"
proof -
  have "serve_inv lim s" using assms(1) by (rule serve.reachable_inv)
  then show ?thesis using draining_run [OF assms(3)] assms(2) by (auto simp: serve_inv_def)
qed

text \<open>
  The shutdown never waits for a client: after the signal the loop can return within three
  of its own steps from every reachable state, with no permit free, every connection stuck and
  nothing to accept.
\<close>

theorem shutdown_can_always_finish:
  assumes "reachable (serve_init lim) serve_step s" and "signalled s"
  shows "\<exists>n s'. n \<le> 3 \<and> (serve_step ^^ n) s s' \<and> loop s' = Stopped \<and> conns s' = conns s"
proof -
  have stop: "serve_step t (t\<lparr>loop := Stopped\<rparr>)" if "loop t = Draining" for t
    using that by (rule grace_over)
  have one: "(serve_step ^^ 2) t ((leave_loop t)\<lparr>loop := Stopped\<rparr>)" if "loop t = Wait_Permit" "signalled t" for t
    using stop_waiting [OF that] stop [of "leave_loop t"] by (auto simp: eval_nat_numeral leave_loop_def)
  have finish: ?thesis if "(serve_step ^^ n) s s'" "n \<le> 3" "loop s' = Stopped" "conns s' = conns s" for n s'
    using that by blast
  show ?thesis
  proof (cases "loop s")
    case Wait_Permit
    show ?thesis by (rule finish [OF one [OF Wait_Permit assms(2)]]) (simp_all add: leave_loop_def)
  next
    case Accepting
    have "(serve_step ^^ 2) s ((give_back (leave_loop s))\<lparr>loop := Stopped\<rparr>)"
      using stop_accepting [OF Accepting assms(2)] stop [of "give_back (leave_loop s)"]
      by (auto simp: eval_nat_numeral leave_loop_def give_back_def)
    then show ?thesis by (rule finish) (simp_all add: leave_loop_def give_back_def)
  next
    case Backing_Off
    let ?t = "give_back (s\<lparr>loop := Wait_Permit\<rparr>)"
    have "serve_step s ?t" using Backing_Off by (rule backed_off)
    moreover have "(serve_step ^^ 2) ?t ((leave_loop ?t)\<lparr>loop := Stopped\<rparr>)"
      using assms(2) by (intro one) (simp_all add: give_back_def)
    ultimately have "(serve_step ^^ Suc 2) s ((leave_loop ?t)\<lparr>loop := Stopped\<rparr>)" by (rule relpowp_Suc_I2)
    then show ?thesis by (rule finish) (simp_all add: leave_loop_def give_back_def)
  next
    case Draining
    have "(serve_step ^^ 1) s (s\<lparr>loop := Stopped\<rparr>)" using stop [OF Draining] by (simp only: relpowp_1)
    then show ?thesis by (rule finish) simp_all
  next
    case Stopped
    then show ?thesis by (intro finish [of 0]) auto
  qed
qed

section \<open>A run\<close>

definition demo_limits :: limits where
  "demo_limits = \<lparr>header_read_timeout = 10 * 10 ^ 9, max_connections = 1, shutdown_grace = 25 * 10 ^ 9\<rparr>"

definition demo_server :: "loop_state \<Rightarrow> bool \<Rightarrow> server" where
  "demo_server l sig = \<lparr>loop = l, permits = 0, conns = [0 \<mapsto> (V4 (Ipv4Addr 1 2 3 4), 5000)],
     signalled = sig, listening = (l = Wait_Permit), slept = 0, logged = 0\<rparr>"

lemma demo_server_reachable: "reachable (serve_init demo_limits) serve_step (demo_server Wait_Permit sig)"
proof -
  let ?s = "\<lparr>loop = Wait_Permit, permits = 1, conns = Map.empty, signalled = False, listening = True, slept = 0, logged = 0\<rparr>"
  have "reachable (serve_init demo_limits) serve_step ?s"
    by (rule reachable_init) (simp add: serve_init_def demo_limits_def)
  then have "reachable (serve_init demo_limits) serve_step (?s\<lparr>loop := Accepting, permits := permits ?s - 1\<rparr>)"
    by (rule reachable_step) (rule permit; simp)
  then have "reachable (serve_init demo_limits) serve_step
      (?s\<lparr>loop := Wait_Permit, permits := 0, conns := [0 \<mapsto> (V4 (Ipv4Addr 1 2 3 4), 5000)]\<rparr>)"
    by (rule reachable_step) (use accept [of "?s\<lparr>loop := Accepting, permits := 0\<rparr>" 0] in simp)
  then have waiting: "reachable (serve_init demo_limits) serve_step (demo_server Wait_Permit False)"
    by (simp add: demo_server_def)
  moreover have "serve_step (demo_server Wait_Permit False) (demo_server Wait_Permit True)"
    using signal [of "demo_server Wait_Permit False"] by (simp add: demo_server_def)
  ultimately show ?thesis by (cases sig) (auto intro: reachable_step)
qed

theorem connections_are_bounded_witness:
  "card (dom (conns (demo_server Wait_Permit False))) = max_connections demo_limits \<and>
   card (dom (conns (demo_server Wait_Permit False))) \<le> max_connections demo_limits"
  using connections_are_bounded [OF demo_server_reachable [of False]]
  by (simp add: demo_server_def demo_limits_def)

lemma demo_draining: "serve_step (demo_server Wait_Permit True) (demo_server Draining True)"
  using stop_waiting [of "demo_server Wait_Permit True"] by (simp add: demo_server_def leave_loop_def)

theorem shutdown_stops_accepting_witness:
  "\<not> listening (demo_server Stopped True) \<and>
   conns (demo_server Stopped True) \<subseteq>\<^sub>m conns (demo_server Draining True)"
proof -
  have "serve_step (demo_server Draining True) (demo_server Stopped True)"
    using grace_over [of "demo_server Draining True"] by (simp add: demo_server_def)
  then show ?thesis
    using shutdown_stops_accepting [OF reachable_step [OF demo_server_reachable [of True] demo_draining]]
    by (auto simp: demo_server_def)
qed

theorem shutdown_can_always_finish_witness:
  "\<exists>n s'. n \<le> 3 \<and> (serve_step ^^ n) (demo_server Wait_Permit True) s' \<and> loop s' = Stopped \<and>
     conns s' = [0 \<mapsto> (V4 (Ipv4Addr 1 2 3 4), 5000)]"
  using shutdown_can_always_finish [OF demo_server_reachable [of True]] by (simp add: demo_server_def)

end
