(* ===== verification/Program_Main.thy ===== *)
theory Program_Main
  imports App_Layers Serve_Loop
begin

text \<open>
  The program around the service (\<open>src/main.rs\<close>): the probe behind \<open>--healthcheck\<close>, which reads
  the status line of the running service, and what \<open>main\<close> does with its arguments and its
  environment.
\<close>

section \<open>The probe\<close>

fun has_crlf :: "u8 list \<Rightarrow> bool" where
  "has_crlf (a # b # r) \<longleftrightarrow> a = 13 \<and> b = 10 \<or> has_crlf (b # r)"
| "has_crlf _ \<longleftrightarrow> False"

text \<open>
  \<open>chunk i\<close> is what the \<open>i\<close>-th read delivers, empty at the end of the stream, on an error and on a
  timeout.
\<close>

function read_head :: "(nat \<Rightarrow> u8 list) \<Rightarrow> nat \<Rightarrow> u8 list \<Rightarrow> u8 list" where
  "read_head chunk i resp =
     (if length resp < 1024 then
        (if chunk i = [] then resp
         else if has_crlf (resp @ chunk i) then resp @ chunk i
         else read_head chunk (Suc i) (resp @ chunk i))
      else resp)"
  by pat_completeness auto

termination
proof (relation "measure (\<lambda>(chunk, i, resp). 1024 - length resp)")
  fix chunk :: "nat \<Rightarrow> u8 list" and i and resp :: "u8 list"
  assume "length resp < 1024" "chunk i \<noteq> []"
  then have "length resp < length (resp @ chunk i)" by simp
  with \<open>length resp < 1024\<close>
  show "((chunk, Suc i, resp @ chunk i), chunk, i, resp) \<in> measure (\<lambda>(chunk, i, resp). 1024 - length resp)"
    unfolding in_measure by (simp only: prod.case)
qed (rule wf_measure)

declare read_head.simps [simp del]

text \<open>\<open>str::lines().next()\<close> and \<open>split_whitespace\<close>.\<close>

definition first_line :: "ustr \<Rightarrow> ustr option" where
  "first_line t =
     (if t = [] then None
      else (let l = takeWhile (\<lambda>c. c \<noteq> 10) t
            in Some (if 10 \<in> set t \<and> l \<noteq> [] \<and> last l = 13 then butlast l else l)))"

definition split_whitespace :: "ustr \<Rightarrow> ustr list" where
  "split_whitespace t = filter (\<lambda>w. w \<noteq> []) (split_on is_whitespace t)"

definition nth_word :: "nat \<Rightarrow> ustr \<Rightarrow> ustr option" where
  "nth_word n t = (let ws = split_whitespace t in if n < length ws then Some (ws ! n) else None)"

definition healthcheck :: "bool \<Rightarrow> bool \<Rightarrow> (nat \<Rightarrow> u8 list) \<Rightarrow> bool" where
  "healthcheck opened written chunk =
     (if \<not> opened then False
      else if \<not> written then False
      else Option.bind (first_line (from_utf8_lossy (read_head chunk 0 []))) (nth_word 1) = Some (lit ''200''))"

section \<open>The read loop\<close>

lemma read_head_length:
  "(\<And>i. length (chunk i) \<le> 256) \<Longrightarrow> length resp < 1280 \<Longrightarrow> length (read_head chunk i resp) < 1280"
proof (induction chunk i resp rule: read_head.induct)
  case (1 chunk i resp)
  have "length resp < 1024 \<Longrightarrow> length (resp @ chunk i) < 1280"
    using "1.prems"(1) [of i] by simp
  with 1 show ?case by (auto simp: read_head.simps [of chunk i resp])
qed

lemma read_head_cong:
  "(\<And>j. i \<le> j \<Longrightarrow> j < i + (1024 - length resp) \<Longrightarrow> chunk j = chunk' j) \<Longrightarrow>
     read_head chunk i resp = read_head chunk' i resp"
proof (induction chunk i resp rule: read_head.induct)
  case (1 chunk i resp)
  show ?case
  proof (cases "length resp < 1024")
    case True
    then have now: "chunk i = chunk' i" using "1.prems" [of i] by simp
    have "read_head chunk (Suc i) (resp @ chunk i) = read_head chunk' (Suc i) (resp @ chunk i)"
      if go_on: "chunk i \<noteq> []" "\<not> has_crlf (resp @ chunk i)"
    proof (rule "1.IH" [OF True go_on])
      fix j assume j: "Suc i \<le> j" "j < Suc i + (1024 - length (resp @ chunk i))"
      obtain k where "length (chunk i) = Suc k" using go_on(1) by (cases "chunk i") auto
      then have "Suc i + (1024 - length (resp @ chunk i)) \<le> i + (1024 - length resp)" using True by simp
      then show "chunk j = chunk' j" using j by (intro "1.prems") linarith+
    qed
    with now show ?thesis by (simp add: read_head.simps [of _ i resp])
  next
    case False
    then show ?thesis by (simp add: read_head.simps [of _ i resp])
  qed
qed

text \<open>
  C34. The probe comes to an end whatever the peer sends: what it keeps, less than 1280 bytes, is
  decided by the first 1024 reads at the latest.
\<close>

theorem probe_reads_are_bounded:
  assumes "\<And>i. length (chunk i) \<le> 256" and "\<And>i. i < 1024 \<Longrightarrow> chunk' i = chunk i"
  shows "length (read_head chunk 0 []) < 1280 \<and> read_head chunk' 0 [] = read_head chunk 0 []"
  using read_head_length [of chunk "[]" 0] read_head_cong [of 0 "[]" chunk' chunk] assms by simp

text \<open>
  The bound is reached: each read has a timeout of its own, and a peer that sends one byte at a
  time makes the probe wait for 1024 of them.
\<close>

lemma no_crlf_replicate: "\<not> has_crlf (replicate n 65)"
  by (induction n rule: induct_nat_012) simp_all

lemma slow_peer_prolongs_probe_from:
  "n \<le> 1024 \<Longrightarrow> read_head (\<lambda>i. if i < k then [65] else []) i (replicate n 65) =
     replicate (min 1024 (n + (k - i))) 65"
proof (induction "1024 - n" arbitrary: n i)
  case 0
  then show ?case by (simp add: read_head.simps)
next
  case (Suc m)
  then have IH: "read_head (\<lambda>i. if i < k then [65] else []) (Suc i) (replicate (Suc n) 65) =
      replicate (min 1024 (Suc n + (k - Suc i))) 65"
    by (intro Suc.hyps) simp_all
  show ?case
  proof (cases "i < k")
    case True
    have "n < 1024" using Suc.hyps(2) by simp
    then have "read_head (\<lambda>i. if i < k then [65] else []) i (replicate n 65) =
        read_head (\<lambda>i. if i < k then [65] else []) (Suc i) (replicate (Suc n) 65)"
      using True no_crlf_replicate [of "Suc n"]
      by (simp add: read_head.simps [of _ i "replicate n 65"] replicate_append_same)
    also have "\<dots> = replicate (min 1024 (Suc n + (k - Suc i))) 65" by (rule IH)
    also have "Suc n + (k - Suc i) = n + (k - i)" using True by simp
    finally show ?thesis .
  next
    case False
    then show ?thesis using Suc.hyps(2) by (simp add: read_head.simps [of _ i "replicate n 65"])
  qed
qed

lemma slow_peer_prolongs_probe:
  "read_head (\<lambda>i. if i < k then [65] else []) 0 [] = replicate (min 1024 k) 65"
  using slow_peer_prolongs_probe_from [of 0 k 0] by simp

section \<open>The status line\<close>

lemma has_crlf_prefix:
  "13 \<notin> set line \<Longrightarrow> q @ post = line @ 13 # 10 # rest \<Longrightarrow> has_crlf q \<Longrightarrow> \<exists>r. q = line @ 13 # 10 # r"
proof (induction line arbitrary: q)
  case Nil
  then obtain a b r where "q = a # b # r" by (cases q rule: has_crlf.cases) auto
  with Nil show ?case by simp
next
  case (Cons x line)
  then obtain b r where q: "q = x # b # r" by (cases q rule: has_crlf.cases) auto
  then have "has_crlf (b # r)" using Cons.prems by auto
  then have "\<exists>s. b # r = line @ 13 # 10 # s" using Cons.prems q by (intro Cons.IH) auto
  with q show ?case by simp
qed

lemma has_crlf_line: "has_crlf (line @ 13 # 10 # r)"
proof (induction line)
  case (Cons x line)
  then show ?case by (cases line) auto
qed simp

lemma read_head_line:
  assumes "13 \<notin> set line" and "length line + 2 \<le> 1024" and "\<And>i. i < n \<Longrightarrow> chunk i \<noteq> []"
    and "concat (map chunk [0..<n]) = line @ 13 # 10 # rest"
  shows "i \<le> n \<Longrightarrow> resp = concat (map chunk [0..<i]) \<Longrightarrow> \<not> has_crlf resp \<Longrightarrow>
    \<exists>r. read_head chunk i resp = line @ 13 # 10 # r"
proof (induction "n - i" arbitrary: i resp)
  case 0
  then have "resp = line @ 13 # 10 # rest" using assms(4) by simp
  then show ?case using 0 has_crlf_line by simp
next
  case (Suc k)
  have split: "concat (map chunk [0..<j]) @ concat (map chunk [j..<n]) = line @ 13 # 10 # rest" if "j \<le> n" for j
    using assms(4) upt_add_eq_append [of 0 j "n - j"] that by (simp flip: concat_append map_append)
  have next_resp: "resp @ chunk i = concat (map chunk [0..<Suc i])" using Suc.prems by simp
  have "length resp < 1024"
  proof (rule ccontr)
    assume "\<not> length resp < 1024"
    then have "length line + 2 \<le> length resp" using assms(2) by simp
    then have "take (length line + 2) resp = take (length line + 2) (resp @ concat (map chunk [i..<n]))" by simp
    also have "\<dots> = line @ [13, 10]" using split [of i] Suc.prems by simp
    finally have "take (length line + 2) resp = line @ [13, 10]" .
    then have "resp = line @ 13 # 10 # drop (length line + 2) resp"
      using append_take_drop_id [of "length line + 2" resp] by simp
    then show False using Suc.prems has_crlf_line by metis
  qed
  moreover have "chunk i \<noteq> []" using Suc.hyps assms(3) by simp
  ultimately have unfold: "read_head chunk i resp =
      (if has_crlf (resp @ chunk i) then resp @ chunk i else read_head chunk (Suc i) (resp @ chunk i))"
    by (simp add: read_head.simps [of chunk i resp])
  show ?case
  proof (cases "has_crlf (resp @ chunk i)")
    case True
    then show ?thesis
      using has_crlf_prefix [OF assms(1), of "resp @ chunk i"] split [of "Suc i"] next_resp Suc.hyps unfold by fastforce
  next
    case False
    have "k = n - Suc i" "Suc i \<le> n" using Suc.hyps(2) by simp_all
    then show ?thesis
      using Suc.hyps(1) [of "Suc i" "resp @ chunk i"] next_resp False unfold by simp
  qed
qed

lemma lossy_ascii:
  "list_all (\<lambda>b. b < 128) line \<Longrightarrow> from_utf8_lossy (line @ bs) = map unat line @ from_utf8_lossy bs"
  by (induction line) (simp_all add: from_utf8_lossy_def word_less_nat_alt utf8_lossy.simps(2))

lemma lossy_crlf: "from_utf8_lossy (13 # 10 # bs) = 13 # 10 # from_utf8_lossy bs"
  by (simp add: from_utf8_lossy_def utf8_lossy.simps(2))

lemma first_line_crlf: "10 \<notin> set l \<Longrightarrow> first_line (l @ 13 # 10 # r) = Some l"
proof -
  assume "10 \<notin> set l"
  then have "takeWhile (\<lambda>c. c \<noteq> 10) (l @ 13 # 10 # r) = l @ [13]"
    by (subst takeWhile_all_append) auto
  then show ?thesis by (simp add: first_line_def Let_def)
qed

text \<open>
  C33. The probe judges the status line and nothing else: however the peer's answer is cut into
  reads, with a first line of ASCII text within the first 1024 bytes, the service counts as
  healthy exactly when the second word of that line is 200, whatever follows it.
\<close>

theorem probe_reads_the_status_line:
  assumes "concat (map chunk [0..<n]) = line @ 13 # 10 # rest" and "\<And>i. i < n \<Longrightarrow> chunk i \<noteq> []"
    and "list_all (\<lambda>b. b < 128 \<and> b \<noteq> 10 \<and> b \<noteq> 13) line" and "length line + 2 \<le> 1024"
  shows "healthcheck True True chunk \<longleftrightarrow> nth_word 1 (map unat line) = Some (lit ''200'')"
proof -
  have ascii: "list_all (\<lambda>b. b < 128) line" and cr: "13 \<notin> set line" and lf: "10 \<notin> set (map unat line)"
    using assms(3) by (auto simp: list_all_iff word_unat_eq_iff)
  obtain r where "read_head chunk 0 [] = line @ 13 # 10 # r"
    using read_head_line [OF cr assms(4,2,1), of 0 "[]"] by auto
  then have "first_line (from_utf8_lossy (read_head chunk 0 [])) = Some (map unat line)"
    by (simp add: lossy_ascii [OF ascii] lossy_crlf first_line_crlf [OF lf])
  then show ?thesis by (simp add: healthcheck_def)
qed

section \<open>The program\<close>

text \<open>The service of one connection: the peer is attached to every request.\<close>

definition connection_service ::
  "('r, 'l, 'v, 'k) app_libs \<Rightarrow> ('r, 'k) request_world \<Rightarrow> socket_addr \<Rightarrow> ('r, 'k) service" where
  "connection_service lib w peer_addr req s = build_app lib w (req\<lparr>req_peer := Some peer_addr\<rparr>) s"

lemma served_requests_have_a_peer [simp]: "with_peer lib (req\<lparr>req_peer := Some a\<rparr>) s f = f a"
  by (simp add: with_peer_def)

definition HEADER_READ_TIMEOUT :: nat where
  "HEADER_READ_TIMEOUT = 10 * 10 ^ 9"

definition MAX_CONNECTIONS :: nat where
  "MAX_CONNECTIONS = 4096"

definition REQUEST_TIMEOUT :: nat where
  "REQUEST_TIMEOUT = 20 * 10 ^ 9"

text \<open>
  The operating system: arguments, environment, directories, what a connection to an address
  meets (whether it opens, whether the request can be written, what the reads deliver), and
  whether an address can be bound.
\<close>

record ('r, 'k) os =
  args :: "ustr list"
  environment :: "'k config_env"
  directory :: "ustr \<Rightarrow> 'r geo_fs"
  peer :: "socket_addr \<Rightarrow> bool \<times> bool \<times> (nat \<Rightarrow> u8 list)"
  can_bind :: "socket_addr \<Rightarrow> bool"

datatype ('r, 'k) outcome = Exit nat | Serving "('r, 'k) app_state" socket_addr limits

text \<open>\<open>env::var(name).ok()\<close>.\<close>

definition env_var :: "('r, 'k) os \<Rightarrow> string \<Rightarrow> ustr option" where
  "env_var os name = (case lookup (environment os) (lit name) of Var_Ok v \<Rightarrow> Some v | _ \<Rightarrow> None)"

definition main_limits :: limits where
  "main_limits = \<lparr>header_read_timeout = HEADER_READ_TIMEOUT, max_connections = MAX_CONNECTIONS,
     shutdown_grace = REQUEST_TIMEOUT + 5 * 10 ^ 9\<rparr>"

definition main :: "('r, 'l, 'v) geo_lib \<Rightarrow> ('r, 'k) os \<Rightarrow> ('r, 'k) outcome" where
  "main lib os =
     (if lit ''--healthcheck'' \<in> set (args os) then
        (let healthy = (case probe_addr (env_var os ''BIND_ADDR'') (env_var os ''PORT'') of
                          None \<Rightarrow> False
                        | Some addr \<Rightarrow> (case peer os addr of (opened, written, chunk) \<Rightarrow> healthcheck opened written chunk))
         in Exit (if \<not> healthy then 1 else 0))
      else if lit ''--check-geo'' \<in> set (args os) then
        (let dir = (case env_var os ''GEO_DIR'' of None \<Rightarrow> lit ''/app/geo'' | Some d \<Rightarrow> d)
         in case verify_pool lib (open_pool lib (directory os dir)) of
              Inr _ \<Rightarrow> Exit 0
            | Inl _ \<Rightarrow> Exit 1)
      else
        (case from_lookup (environment os) of
           Inl _ \<Rightarrow> Exit 1
         | Inr cfg \<Rightarrow>
             (let state = app_state_new (open_pool lib (directory os (geo_dir cfg))) cfg;
                  addr = (bind cfg, port cfg)
              in if \<not> can_bind os addr then Exit 1 else Serving state addr main_limits)))"

lemma trust_cf_needs_proxy:
  assumes "from_lookup env = Inr cfg" and "config.trust_cf cfg"
  shows "config.trust_proxy cfg"
  using assms by (auto simp: from_lookup_def config_literal_def Let_def split: if_splits elim!: result_bindE)

section \<open>The checks and the service\<close>

text \<open>An accepted configuration comes from readable variables, which the checks read again.\<close>

lemma env_var_read: "get_var (environment os) name = Inr v \<Longrightarrow> env_var os name = v"
  by (auto simp: get_var_def parse_var_def env_var_def split: var_result.splits)

lemma accepted_variables:
  assumes "from_lookup (environment os) = Inr cfg"
  shows "parse_bind (env_var os ''BIND_ADDR'') = Inr (bind cfg) \<and> parse_port (env_var os ''PORT'') = port cfg \<and>
    (case env_var os ''GEO_DIR'' of None \<Rightarrow> lit ''/app/geo'' | Some d \<Rightarrow> d) = geo_dir cfg"
  using assms
  by (auto simp: from_lookup_def Let_def config_literal_def dest!: env_var_read split: if_splits elim!: result_bindE)

text \<open>Where a service that listens on an address is reached from its own host.\<close>

definition reached_at :: "socket_addr \<Rightarrow> socket_addr" where
  "reached_at addr =
     (if fst addr = V4 (Ipv4Addr 0 0 0 0) then V4 (Ipv4Addr 127 0 0 1)
      else if fst addr = V6 (Ipv6Addr 0 0 0 0 0 0 0 0) then V6 (Ipv6Addr 0 0 0 0 0 0 0 1)
      else fst addr, snd addr)"

lemma probe_reaches:
  assumes "parse_bind b = Inr a"
  shows "probe_addr b p = Some (reached_at (a, parse_port p))"
proof (cases a)
  case (V4 v)
  then show ?thesis using assms by (cases v) (auto simp: probe_addr_def reached_at_def)
next
  case (V6 v)
  then show ?thesis using assms by (cases v) (auto simp: probe_addr_def reached_at_def v6_is_unspecified_def)
qed

lemma verify_pool_ok:
  "verify_pool lib pool = Inr u \<longleftrightarrow>
     (\<forall>r \<in> set (List.map_filter id [city_db pool, country_db pool, asn_db pool]). \<not> isl (reader_verify lib r)) \<and>
     List.map_filter id [city_db pool, country_db pool, asn_db pool] \<noteq> []"
  by (cases "city_db pool"; cases "country_db pool"; cases "asn_db pool")
    (auto simp: verify_pool_def result_bind_def List.map_filter_def split: sum.splits)

text \<open>The pool of a directory records a source for every database it has loaded.\<close>

lemma sources_loaded:
  "sources (open_pool lib fs) = [] \<longleftrightarrow>
     List.map_filter id [city_db (open_pool lib fs), country_db (open_pool lib fs), asn_db (open_pool lib fs)] = []"
proof -
  have chosen: "Option.bind (chosen_file lib fs names) (open_readfile fs) = None \<longleftrightarrow> chosen_file lib fs names = None" for names
  proof (cases "chosen_file lib fs names")
    case (Some f)
    then have "usable lib fs (db_pattern names) f" by (auto simp: chosen_file_def find_Some_iff)
    then show ?thesis using Some by (simp add: usable_def split: option.splits)
  qed simp
  show ?thesis
    by (auto simp: open_pool_def open_first_chosen Let_def List.map_filter_def map_insert_def chosen split: option.splits)
qed


section \<open>A start\<close>

definition demo_os :: "(ustr + demo_json, u8 list) os" where
  "demo_os = \<lparr>args = [lit ''proxpulse-judge''], environment = demo_env demo_vars,
     directory = (\<lambda>_. \<lparr>file_exists = (\<lambda>_. False), dir_entries = None, open_readfile = (\<lambda>_. None)\<rparr>),
     peer = (\<lambda>_. (False, False, \<lambda>_. [])), can_bind = (\<lambda>_. True)\<rparr>"

lemma demo_serves:
  "\<exists>state lims. main demo_geo_lib demo_os = Serving state (V4 (Ipv4Addr 0 0 0 0), 8000) lims \<and> sources (geo state) = []"
  by (simp add: main_def demo_os_def demo_start str_eval Let_def config_literal_def parse_port_def app_state_new_def
      open_pool_def open_first_def db_candidates_def)


definition demo_chunks :: "nat \<Rightarrow> u8 list" where
  "demo_chunks i = map (of_nat \<circ> of_char)
     (if i = 0 then ''HTTP/1.0 20'' else if i = 1 then ''0 OK'' @ [CHR 0x0D] else if i = 2 then CHR 0x0A # ''x: 500'' else [])"

theorem probe_reads_the_status_line_witness: "healthcheck True True demo_chunks"
proof -
  let ?line = "map (of_nat \<circ> of_char) ''HTTP/1.0 200 OK'' :: u8 list"
  have "healthcheck True True demo_chunks \<longleftrightarrow> nth_word 1 (map unat ?line) = Some (lit ''200'')"
  proof (rule probe_reads_the_status_line [of demo_chunks 3 _ "map (of_nat \<circ> of_char) ''x: 500''"])
    show "concat (map demo_chunks [0..<3]) = ?line @ 13 # 10 # map (of_nat \<circ> of_char) ''x: 500''"
      by (simp add: demo_chunks_def eval_nat_numeral)
  qed (auto simp: demo_chunks_def)
  also have "nth_word 1 (map unat ?line) = Some (lit ''200'')"
    by (simp add: nth_word_def split_whitespace_def is_whitespace_def str_eval)
  finally show ?thesis by simp
qed

theorem probe_reads_are_bounded_witness:
  "length (read_head (\<lambda>i. replicate 256 65) 0 []) < 1280 \<and>
   read_head (\<lambda>i. if i < 1024 then replicate 256 65 else []) 0 [] = read_head (\<lambda>i. replicate 256 65) 0 []"
  by (rule probe_reads_are_bounded) simp_all

end
