(* ===== verification/Whole_Program.thy ===== *)
theory Whole_Program
  imports Service_Runs Serve_Loop Program_Main
begin

text \<open>
  The running program: the accept loop that \<open>main\<close> starts (\<open>Serve_Loop\<close>) beside the service with all
  its requests (\<open>Service_Machine\<close>). A request reaches the service over an open connection, whose
  peer address \<open>serve\<close> puts into its extensions.
\<close>

section \<open>The two parts together\<close>

record ('r, 'k) system =
  acceptor :: server
  service :: "('r, 'k) service_machine"
  peer_of :: "nat \<rightharpoonup> socket_addr"

definition system_init :: "limits \<Rightarrow> ('r, 'k) app_state \<Rightarrow> ('r, 'k) system \<Rightarrow> bool" where
  "system_init lims s sys \<longleftrightarrow>
     serve_init lims (acceptor sys) \<and> service sys = service_start s \<and> peer_of sys = Map.empty"

text \<open>
  When \<open>serve\<close> has returned, \<open>main\<close> returns and the runtime drops the requests; a resolver call that
  runs on its own thread may still end.
\<close>

inductive system_step ::
  "('r, 'l, 'v, 'k) app_libs \<Rightarrow> (ip_addr \<Rightarrow> ustr option \<Rightarrow> bool) \<Rightarrow> ('r, 'k) system \<Rightarrow> ('r, 'k) system \<Rightarrow> bool"
  for lib :: "('r, 'l, 'v, 'k) app_libs" and answers :: "ip_addr \<Rightarrow> ustr option \<Rightarrow> bool" where
  serving: "serve_step (acceptor sys) a \<Longrightarrow> system_step lib answers sys (sys\<lparr>acceptor := a\<rparr>)"
| requested: "loop (acceptor sys) \<noteq> Stopped \<Longrightarrow> conns (acceptor sys) c = Some client \<Longrightarrow>
    arrival r (req\<lparr>req_peer := Some client\<rparr>) (service sys) m \<Longrightarrow>
    system_step lib answers sys (sys\<lparr>service := m, peer_of := (peer_of sys)(r \<mapsto> client)\<rparr>)"
| proceeding: "loop (acceptor sys) \<noteq> Stopped \<Longrightarrow> progress lib r (service sys) m \<Longrightarrow>
    system_step lib answers sys (sys\<lparr>service := m\<rparr>)"
| resolving: "call_step answers r (lookups (service sys)) p \<Longrightarrow>
    system_step lib answers sys (sys\<lparr>service := with_lookups p (service sys)\<rparr>)"
| forgetting: "kept \<subseteq>\<^sub>m ptr_cache (app (service sys)) \<Longrightarrow>
    system_step lib answers sys (sys\<lparr>service := with_lookups (expire kept (lookups (service sys))) (service sys)\<rparr>)"

text \<open>Each part by itself is a run of its own machine.\<close>

lemma acceptor_step: "system_step lib answers sys sys' \<Longrightarrow> serve_step\<^sup>*\<^sup>* (acceptor sys) (acceptor sys')"
  by (auto elim: system_step.cases)

lemma service_part_step:
  assumes "system_step lib answers sys sys'"
  shows "(service_step lib answers)\<^sup>*\<^sup>* (service sys) (service sys')"
  using assms by cases (auto intro!: r_into_rtranclp intro: arrives proceeds resolves forgets)

lemma reachable_parts:
  assumes "reachable (system_init lims (app_state_new pool cfg)) (system_step lib answers) sys"
  shows "reachable (serve_init lims) serve_step (acceptor sys) \<and>
    reachable (service_init pool cfg) (service_step lib answers) (service sys)"
  using assms
proof (induction rule: reachable.induct)
  case (reachable_init sys)
  then show ?case by (auto simp: system_init_def service_init_def intro: reachable.reachable_init)
next
  case (reachable_step sys sys')
  then show ?case
    using reachable_run [OF acceptor_step [OF reachable_step.hyps(2)]]
      reachable_run [OF service_part_step [OF reachable_step.hyps(2)]] by blast
qed

lemma started_state:
  assumes "main glib os = Serving s addr lims"
  obtains cfg where "from_lookup (environment os) = Inr cfg"
    "s = app_state_new (open_pool glib (directory os (geo_dir cfg))) cfg" "lims = main_limits"
  using assms by (auto simp: main_def Let_def split: if_splits option.splits sum.splits)

text \<open>
  C6. The program as \<open>main\<close> starts it holds all its bounds at once: in every state it can get to at
  most 4096 connections are open, at most 512 requests are past the slot, and at most 16 resolver
  calls run. No permit is ever lost: of the 4096 permits for connections those that are not free
  are with an open connection or with the loop, which has one while it accepts or backs off from an
  error, and likewise for the 512 slots and the 16 permits for resolver calls.
\<close>

theorem program_is_bounded:
  assumes "main glib os = Serving s addr lims"
    and "reachable (system_init lims s) (system_step lib answers) sys"
  shows "finite (dom (conns (acceptor sys))) \<and> card (dom (conns (acceptor sys))) \<le> 4096 \<and>
    permits (acceptor sys) + card (dom (conns (acceptor sys))) +
      (if loop (acceptor sys) \<in> {Accepting, Backing_Off} then 1 else 0) = 4096 \<and>
    finite (slot_users (service sys)) \<and> card (slot_users (service sys)) \<le> 512 \<and>
    concurrency (app (service sys)) + card (slot_users (service sys)) = 512 \<and>
    rdns_sem (app (service sys)) + card (holders (lookups (service sys))) = 16 \<and>
    finite (dom (tasks (lookups (service sys)))) \<and> card (dom (tasks (lookups (service sys)))) \<le> 16"
proof -
  obtain cfg where s: "s = app_state_new (open_pool glib (directory os (geo_dir cfg))) cfg" "lims = main_limits"
    using assms(1) by (rule started_state)
  have parts: "reachable (serve_init lims) serve_step (acceptor sys)"
    "reachable (service_init (open_pool glib (directory os (geo_dir cfg))) cfg) (service_step lib answers) (service sys)"
    using reachable_parts assms(2) unfolding s(1) by blast+
  have "serve_inv lims (acceptor sys)" using parts(1) by (rule serve.reachable_inv)
  then have conns: "finite (dom (conns (acceptor sys)))" "card (dom (conns (acceptor sys))) \<le> 4096"
    "permits (acceptor sys) + card (dom (conns (acceptor sys))) +
      (if loop (acceptor sys) \<in> {Accepting, Backing_Off} then 1 else 0) = 4096"
    by (simp_all add: serve_inv_iff s(2) main_limits_def MAX_CONNECTIONS_def)
  have "service_books (rate_per_minute cfg) (service sys)" using parts(2) by (rule service.reachable_inv)
  then have slots: "concurrency (app (service sys)) + card (slot_users (service sys)) = 512"
    by (simp add: service_books_def slot_books_def slot_users_def tally_def MAX_CONCURRENCY_def)
  have tasks: "dom (tasks (lookups (service sys))) \<subseteq> holders (lookups (service sys))" by (simp add: holders_def)
  show ?thesis
    using conns slots service.holders_bounded [OF parts(2) order_refl]
      rdns.conserved [OF rdns.reachable_inv [OF reachable_lookups [OF parts(2)]]]
      rdns.holders_bounded [OF reachable_lookups [OF parts(2)] tasks]
    by (simp add: RDNS_MAX_CONCURRENT_def)
qed

section \<open>Where requests come from\<close>

text \<open>Every request has the peer of a connection, and the limiter was asked about that client.\<close>

definition peers_ok :: "('r, 'k) app_state \<Rightarrow> ('r, 'k) system \<Rightarrow> bool" where
  "peers_ok s sys \<longleftrightarrow>
     settings (app (service sys)) = settings s \<and>
     (\<forall>r st. stages (service sys) r = Some st \<longrightarrow>
        (\<exists>client. peer_of sys r = Some client \<and> req_peer (stage_request st) = Some client)) \<and>
     (\<forall>(r, a) \<in> set (limiter_log (service sys)).
        \<exists>st. stages (service sys) r = Some st \<and>
          access_key a = bucket_key (self_ip s (req_headers (stage_request st)) (req_peer (stage_request st))))"

text \<open>The stage of a request changes, the request does not.\<close>

lemma progress_request:
  assumes "progress lib r m m'"
  shows "limiter_log m' = limiter_log m" "stages m' r' = None \<longleftrightarrow> stages m r' = None"
    "stages m r' = Some st \<Longrightarrow> \<exists>st'. stages m' r' = Some st' \<and> stage_request st' = stage_request st"
  using assms by (cases; auto)+

lemma arrival_request:
  assumes "arrival r req m m'" and "settings (app m) = settings s"
  shows "stages m r = None \<and> (\<exists>st. stages m' = (stages m)(r \<mapsto> st) \<and> stage_request st = req) \<and>
    (limiter_log m' = limiter_log m \<or>
     (\<exists>a. limiter_log m' = limiter_log m @ [(r, a)] \<and> access_key a = bucket_key (self_ip s (req_headers req) (req_peer req))))"
  using assms(1) by cases (auto simp: access_key_def self_ip_settings [OF assms(2)])

lemma peers_ok_kept:
  assumes "peers_ok s sys" and "settings (app m) = settings (app (service sys))"
    and "limiter_log m = limiter_log (service sys)"
    and "\<And>r. stages m r = None \<longleftrightarrow> stages (service sys) r = None"
    and "\<And>r st. stages (service sys) r = Some st \<Longrightarrow> \<exists>st'. stages m r = Some st' \<and> stage_request st' = stage_request st"
  shows "peers_ok s (sys\<lparr>service := m\<rparr>)"
proof -
  have earlier: "\<exists>st'. stages (service sys) r = Some st' \<and> stage_request st' = stage_request st" if st: "stages m r = Some st" for r st
  proof -
    obtain st' where "stages (service sys) r = Some st'"
      using assms(4) [of r] st by (cases "stages (service sys) r") auto
    with assms(5) [OF this] st show ?thesis by auto
  qed
  show ?thesis
    unfolding peers_ok_def
  proof (intro conjI allI impI ballI)
    show "settings (app (service (sys\<lparr>service := m\<rparr>))) = settings s" using assms(1,2) by (simp add: peers_ok_def)
    show "\<exists>client. peer_of (sys\<lparr>service := m\<rparr>) r = Some client \<and> req_peer (stage_request st) = Some client"
      if "stages (service (sys\<lparr>service := m\<rparr>)) r = Some st" for r st
      using earlier [of r st] that assms(1) unfolding peers_ok_def by (metis select_convs(2,3) surjective update_convs(2))
    show "case e of (r, a) \<Rightarrow> \<exists>st. stages (service (sys\<lparr>service := m\<rparr>)) r = Some st \<and>
        access_key a = bucket_key (self_ip s (req_headers (stage_request st)) (req_peer (stage_request st)))"
      if e: "e \<in> set (limiter_log (service (sys\<lparr>service := m\<rparr>)))" for e
    proof -
      obtain r a where Pair: "e = (r, a)" by (rule prod.exhaust)
      with e assms(1,3) obtain st where "stages (service sys) r = Some st"
          "access_key a = bucket_key (self_ip s (req_headers (stage_request st)) (req_peer (stage_request st)))"
        by (auto simp: peers_ok_def)
      with assms(5) Pair show ?thesis by fastforce
    qed
  qed
qed

lemma peers_ok_step:
  assumes "system_step lib answers sys sys'" and "peers_ok s sys"
  shows "peers_ok s sys'"
  using assms(1)
proof cases
  case (serving a)
  then show ?thesis using assms(2) by (simp add: peers_ok_def)
next
  case (requested c client r req m)
  have same: "settings (app (service sys)) = settings s" using assms(2) by (simp add: peers_ok_def)
  note new = arrival_request [OF requested(4) same]
  then obtain st where st: "stages m = (stages (service sys))(r \<mapsto> st)" "req_peer (stage_request st) = Some client"
      "stage_request st = req\<lparr>req_peer := Some client\<rparr>"
    by auto
  have "settings (app m) = settings s" using settings_step [OF arrives [OF requested(4)]] same by simp
  moreover have "\<exists>client'. ((peer_of sys)(r \<mapsto> client)) r' = Some client' \<and> req_peer (stage_request st') = Some client'"
    if "stages m r' = Some st'" for r' st'
    using that st assms(2) by (auto simp: peers_ok_def split: if_splits)
  moreover have "\<exists>st'. stages m r' = Some st' \<and>
      access_key a = bucket_key (self_ip s (req_headers (stage_request st')) (req_peer (stage_request st')))"
    if "(r', a) \<in> set (limiter_log m)" for r' a
  proof (cases "(r', a) \<in> set (limiter_log (service sys))")
    case True
    then obtain st' where st': "stages (service sys) r' = Some st'"
      "access_key a = bucket_key (self_ip s (req_headers (stage_request st')) (req_peer (stage_request st')))"
      using assms(2) by (auto simp: peers_ok_def)
    then have "r' \<noteq> r" using new by auto
    with st' st show ?thesis by simp
  next
    case False
    with that new st(3) have "r' = r" "access_key a = bucket_key (self_ip s (req_headers (stage_request st)) (req_peer (stage_request st)))"
      by auto
    with st show ?thesis by simp
  qed
  ultimately show ?thesis unfolding requested(1) by (auto simp: peers_ok_def)
next
  case (proceeding r m)
  show ?thesis
    unfolding proceeding(1)
    by (rule peers_ok_kept [OF assms(2) settings_step [OF proceeds [OF proceeding(3)]]])
      (use progress_request [OF proceeding(3)] in auto)
next
  case (resolving r p)
  show ?thesis
    unfolding resolving(1)
    by (rule peers_ok_kept [OF assms(2) settings_step [OF resolves [OF resolving(2)]]]) auto
next
  case (forgetting kept)
  show ?thesis
    unfolding forgetting(1)
    by (rule peers_ok_kept [OF assms(2) settings_step [OF forgets [OF forgetting(2)]]]) auto
qed

interpretation peers: machine_invariant "system_init lims s" "system_step lib answers" "peers_ok s"
  for lims and s :: "('r, 'k) app_state" and lib :: "('r, 'l, 'v, 'k) app_libs" and answers
proof
  show "peers_ok s sys" if "system_init lims s sys" for sys
    using that by (simp add: system_init_def peers_ok_def service_start_def)
qed (rule peers_ok_step)

text \<open>
  C16. Clients cannot choose who they are: in a deployment that trusts no proxy, every request the
  service has was received from the peer of an accepted connection, and whatever its headers say,
  its client address is the canonical text of that peer's address, and the bucket the limiter
  charged for it is that client's.
\<close>

theorem direct_clients_cannot_pose:
  assumes "reachable (system_init lims s) (system_step lib answers) sys" and "\<not> trust_proxy s" and "\<not> trust_cf s"
    and "stages (service sys) r = Some st"
  shows "\<exists>client. peer_of sys r = Some client \<and>
    self_ip (app (service sys)) (req_headers (stage_request st)) (req_peer (stage_request st)) = show_ip (to_canonical (fst client)) \<and>
    (\<forall>a. (r, a) \<in> set (limiter_log (service sys)) \<longrightarrow> access_key a = bucket_key (show_ip (to_canonical (fst client))))"
proof -
  have ok: "peers_ok s sys" using assms(1) by (rule peers.reachable_inv)
  then obtain client where client: "peer_of sys r = Some client" "req_peer (stage_request st) = Some client"
    using assms(4) unfolding peers_ok_def by blast
  have me: "self_ip s hs (Some client) = show_ip (to_canonical (fst client))" for hs
    using assms(2,3) by (simp add: self_ip_def Let_def client_ip_socket normalize_host_show)
  have "settings (app (service sys)) = settings s" using ok by (simp add: peers_ok_def)
  from self_ip_settings [OF this] show ?thesis
    using ok client me assms(4) by (fastforce simp: peers_ok_def)
qed

section \<open>A start and a request\<close>

text \<open>A connection is accepted, and a request that comes over it takes a slot.\<close>

lemma first_connection:
  assumes "0 < max_connections lims" and "stage = Handling (demo_request ''/judge''\<lparr>req_peer := Some client\<rparr>)"
  shows "\<exists>sys. reachable (system_init lims (app_state_new pool cfg)) (system_step demo_libs one_name) sys \<and>
    conns (acceptor sys) = [0 \<mapsto> client] \<and> loop (acceptor sys) = Wait_Permit \<and> stages (service sys) = [0 \<mapsto> stage]"
proof -
  let ?reach = "reachable (system_init lims (app_state_new pool cfg)) (system_step demo_libs one_name)"
  let ?req = "demo_request ''/judge''\<lparr>req_peer := Some client\<rparr>"
  define a0 where "a0 = \<lparr>loop = Wait_Permit, permits = max_connections lims, conns = Map.empty, signalled = False,
    listening = True, slept = 0, logged = 0\<rparr>"
  define a1 where "a1 = a0\<lparr>loop := Accepting, permits := permits a0 - 1\<rparr>"
  define a2 where "a2 = a1\<lparr>loop := Wait_Permit, conns := [0 \<mapsto> client]\<rparr>"
  define m0 where "m0 = service_start (app_state_new pool cfg)"
  define a where "a = (id :: (ustr \<rightharpoonup> token_bucket) \<Rightarrow> (ustr \<rightharpoonup> token_bucket), self_ip (app m0) (req_headers ?req) (req_peer ?req), 0 :: nat, 0 :: nat)"
  obtain rl v where rl: "rate_access (rate_limit (app m0)) a = (rl, v)" by fastforce
  have "snd (rate_access (rate_limit_new n) a) = None" for n
    by (cases "n = 0") (simp_all add: rate_access_disabled rate_access_eq entry_of_def a_def check_new_bucket rate_limit_new_def
        Let_def split_def)
  then have v: "v = None" using rl by (simp add: m0_def service_start_def app_state_new_def prod_eq_iff)
  define m1 where "m1 = enter 0 (Queueing ?req) (note_access 0 a (on_app (\<lambda>s. s\<lparr>rate_limit := rl\<rparr>) m0))"
  define m2 where "m2 = enter 0 stage (on_app take_slot m1)"
  have "?reach \<lparr>acceptor = a0, service = m0, peer_of = Map.empty\<rparr>"
    by (rule reachable_init) (simp add: system_init_def serve_init_def a0_def m0_def)
  moreover have "serve_step a0 a1" unfolding a1_def by (rule permit) (use assms(1) in \<open>simp_all add: a0_def\<close>)
  then have "system_step demo_libs one_name \<lparr>acceptor = a0, service = m0, peer_of = Map.empty\<rparr>
      \<lparr>acceptor = a1, service = m0, peer_of = Map.empty\<rparr>"
    using serving [of "\<lparr>acceptor = a0, service = m0, peer_of = Map.empty\<rparr>" a1] by simp
  ultimately have r1: "?reach \<lparr>acceptor = a1, service = m0, peer_of = Map.empty\<rparr>" by (rule reachable_step)
  have "serve_step a1 a2"
    using accept [of a1 0 client] by (simp add: a2_def a1_def a0_def)
  then have "system_step demo_libs one_name \<lparr>acceptor = a1, service = m0, peer_of = Map.empty\<rparr>
      \<lparr>acceptor = a2, service = m0, peer_of = Map.empty\<rparr>"
    using serving [of "\<lparr>acceptor = a1, service = m0, peer_of = Map.empty\<rparr>" a2] by simp
  with r1 have r2: "?reach \<lparr>acceptor = a2, service = m0, peer_of = Map.empty\<rparr>" by (rule reachable_step)
  have "arrival 0 ?req m0 m1"
    unfolding m1_def
    by (rule admitted [OF _ _ a_def])
      (use rl v in \<open>simp_all add: m0_def service_start_def is_monitoring_def demo_request_def only_evicts_def a_def\<close>)
  then have "system_step demo_libs one_name \<lparr>acceptor = a2, service = m0, peer_of = Map.empty\<rparr>
      \<lparr>acceptor = a2, service = m1, peer_of = [0 \<mapsto> client]\<rparr>"
    using requested [of "\<lparr>acceptor = a2, service = m0, peer_of = Map.empty\<rparr>" 0 client 0 "demo_request ''/judge''" m1]
    by (simp add: a2_def)
  with r2 have r3: "?reach \<lparr>acceptor = a2, service = m1, peer_of = [0 \<mapsto> client]\<rparr>" by (rule reachable_step)
  have "progress demo_libs 0 m1 m2"
    unfolding m2_def assms(2)
    by (rule slot) (simp_all add: m1_def m0_def service_start_def app_state_new_def MAX_CONCURRENCY_def)
  then have "system_step demo_libs one_name \<lparr>acceptor = a2, service = m1, peer_of = [0 \<mapsto> client]\<rparr>
      \<lparr>acceptor = a2, service = m2, peer_of = [0 \<mapsto> client]\<rparr>"
    using proceeding [of "\<lparr>acceptor = a2, service = m1, peer_of = [0 \<mapsto> client]\<rparr>" demo_libs 0 m2] by (simp add: a2_def)
  with r3 have "?reach \<lparr>acceptor = a2, service = m2, peer_of = [0 \<mapsto> client]\<rparr>" by (rule reachable_step)
  then show ?thesis
    by (intro exI [of _ "\<lparr>acceptor = a2, service = m2, peer_of = [0 \<mapsto> client]\<rparr>"])
      (simp add: a2_def m2_def m1_def m0_def service_start_def)
qed

theorem program_is_bounded_witness:
  "\<exists>s addr lims. main demo_geo_lib demo_os = Serving s addr lims \<and>
     (\<exists>sys. reachable (system_init lims s) (system_step demo_libs one_name) sys \<and>
        card (dom (conns (acceptor sys))) = 1 \<and> permits (acceptor sys) = 4095 \<and>
        card (slot_users (service sys)) = 1 \<and> concurrency (app (service sys)) = 511)"
proof -
  obtain s addr lims where s: "main demo_geo_lib demo_os = Serving s addr lims"
    by (simp add: main_def demo_os_def demo_start str_eval Let_def)
  then obtain cfg where cfg: "s = app_state_new (open_pool demo_geo_lib (directory demo_os (geo_dir cfg))) cfg" "lims = main_limits"
    by (rule started_state)
  let ?client = "(V4 (Ipv4Addr 1 2 3 4), 5000)"
  have "0 < max_connections lims" by (simp add: cfg(2) main_limits_def MAX_CONNECTIONS_def)
  from first_connection [OF this refl, where client = ?client]
  obtain sys where sys: "reachable (system_init lims s) (system_step demo_libs one_name) sys"
      "conns (acceptor sys) = [0 \<mapsto> ?client]" "loop (acceptor sys) = Wait_Permit"
      "stages (service sys) = [0 \<mapsto> Handling (demo_request ''/judge''\<lparr>req_peer := Some ?client\<rparr>)]"
    unfolding cfg(1) by blast
  have "slot_users (service sys) = {0}"
    by (auto simp: slot_users_def stood_def sys(4) is_monitoring_def demo_request_def split: if_splits)
  moreover from this have "permits (acceptor sys) = 4095" "concurrency (app (service sys)) = 511"
    using program_is_bounded [OF s sys(1)] by (simp_all add: sys(2,3))
  ultimately show ?thesis using s sys(1,2) by (intro exI conjI) auto
qed

text \<open>A client that claims to be someone else, connected without a proxy.\<close>

definition direct_state :: "(ustr + demo_json, u8 list) app_state" where
  "direct_state = open_state\<lparr>trust_proxy := False\<rparr>"

definition posing_request :: request where
  "posing_request = demo_request ''/healthz''"

definition direct_system :: "nat \<Rightarrow> (ustr + demo_json, u8 list) system" where
  "direct_system n =
     (let a0 = \<lparr>loop = Wait_Permit, permits = 1, conns = Map.empty, signalled = False, listening = True, slept = 0, logged = 0\<rparr>;
          a1 = a0\<lparr>loop := Accepting, permits := 0\<rparr>;
          client = (V4 (Ipv4Addr 1 2 3 4), 5000);
          a2 = a1\<lparr>loop := Wait_Permit, conns := [0 \<mapsto> client]\<rparr>;
          m0 = service_start direct_state
      in if n = 0 then \<lparr>acceptor = a0, service = m0, peer_of = Map.empty\<rparr>
         else if n = 1 then \<lparr>acceptor = a1, service = m0, peer_of = Map.empty\<rparr>
         else if n = 2 then \<lparr>acceptor = a2, service = m0, peer_of = Map.empty\<rparr>
         else \<lparr>acceptor = a2, service = enter 0 (Handling (posing_request\<lparr>req_peer := Some client\<rparr>)) m0,
                peer_of = [0 \<mapsto> client]\<rparr>)"

lemma direct_system_reachable:
  "reachable (system_init demo_limits direct_state) (system_step demo_libs one_name) (direct_system 3)"
proof -
  let ?reach = "reachable (system_init demo_limits direct_state) (system_step demo_libs one_name)"
  have "?reach (direct_system 0)"
    by (rule reachable_init) (simp add: direct_system_def system_init_def serve_init_def demo_limits_def Let_def)
  moreover have "system_step demo_libs one_name (direct_system 0) (direct_system 1)"
    using serving [OF permit, of "direct_system 0" demo_libs one_name] by (simp add: direct_system_def Let_def)
  moreover have "system_step demo_libs one_name (direct_system 1) (direct_system 2)"
    using serving [OF accept, of "direct_system 1" 0 demo_libs one_name "(V4 (Ipv4Addr 1 2 3 4), 5000)"]
    by (simp add: direct_system_def Let_def)
  moreover have "system_step demo_libs one_name (direct_system 2) (direct_system 3)"
  proof -
    let ?client = "(V4 (Ipv4Addr 1 2 3 4), 5000)"
    have "arrival 0 (posing_request\<lparr>req_peer := Some ?client\<rparr>) (service (direct_system 2))
        (enter 0 (Handling (posing_request\<lparr>req_peer := Some ?client\<rparr>)) (service (direct_system 2)))"
      by (rule exempt)
        (simp_all add: direct_system_def Let_def service_start_def posing_request_def demo_request_def is_monitoring_def)
    then show ?thesis
      using requested [of "direct_system 2" 0 ?client 0 posing_request _ demo_libs one_name]
      by (simp add: direct_system_def Let_def)
  qed
  ultimately show ?thesis by (blast intro: reachable_step)
qed

theorem direct_clients_cannot_pose_witness:
  "joined_header (req_headers posing_request) (lit ''x-forwarded-for'') = Some (lit ''5.5.5.5'') \<and>
   self_ip (app (service (direct_system 3))) (req_headers posing_request) (Some (V4 (Ipv4Addr 1 2 3 4), 5000)) =
     show_ip (to_canonical (V4 (Ipv4Addr 1 2 3 4)))"
proof -
  have stage: "stages (service (direct_system 3)) 0 =
      Some (Handling (posing_request\<lparr>req_peer := Some (V4 (Ipv4Addr 1 2 3 4), 5000)\<rparr>))"
    and client: "peer_of (direct_system 3) 0 = Some (V4 (Ipv4Addr 1 2 3 4), 5000)"
    by (simp_all add: direct_system_def Let_def)
  have trust: "\<not> trust_proxy direct_state" "\<not> trust_cf direct_state"
    by (simp_all add: direct_state_def open_state_def)
  show ?thesis
    using direct_clients_cannot_pose [OF direct_system_reachable trust stage] client
    by (simp add: posing_request_def demo_request_def hiding_request_header)
qed

end
