(* ===== verification/Service_Promises.thy ===== *)
theory Service_Promises
  imports Service_Runs
begin

text \<open>
  What clients are promised, with all requests in flight: every answer of \<open>/judge\<close> is signed over
  exactly what it says, and no client gets more requests past the limiter than configured.
\<close>

section \<open>Signed answers\<close>

lemma other_headers_hardened:
  assumes "name \<noteq> lit ''x-content-type-options''" and "name \<noteq> lit ''cache-control''"
  shows "header_values (resp_headers (hardened req res)) name = header_values (resp_headers res) name"
  using assms by (simp add: hardened_def header_values_insert Let_def)

lemma hardened_body [simp]: "resp_body (hardened req res) = resp_body res"
  by (simp add: hardened_def Let_def)

lemma judge_alone:
  assumes "req_method req = lit ''GET''" and "req_path req = lit ''/judge''" and "parse_query lib (req_query req) = Inr p"
  shows "\<exists>body_bytes. answer_alone lib s req ptr = signed_response lib (signer s) p body_bytes"
  using assms by (auto simp: answer_alone_def before_rdns_def Let_def split_def)

text \<open>
  C7. Signatures hold up under load: whatever is interleaved with it, an answer of \<open>/judge\<close> with
  status 200 is signed with the configured key over the nonce and direct address of its own request
  and the body that was sent, and over no other combination of the three.
\<close>

theorem every_judge_answer_is_signed:
  assumes "reachable (service_init pool cfg) (service_step lib answers) m"
    and "stages m r = Some (Sent req res)" and "resp_status res = 200"
    and "req_method req = lit ''GET''" and "req_path req = lit ''/judge''" and "req_peer req = Some conn"
    and "parse_query lib (req_query req) = Inr p" and "libs_ok lib"
    and "config_signer cfg = from_seed (signing_lib lib) seed e"
  shows "header_values (resp_headers res) (lit ''x-judge-signature'') =
      [as_bytes (b64_encode (signing_lib lib) (key_sign (signing_lib lib) (key (config_signer cfg))
        (message (challenge_of p) (text_of (without_lf (direct_ip p))) (resp_body res))))] \<and>
    header_values (resp_headers res) (lit ''x-judge-key-id'') = [as_bytes (key_id (config_signer cfg))] \<and>
    names_one p (resp_body res)"
proof -
  have "suspends lib req" using assms(4-7) by (simp add: suspends_def routed_def)
  then obtain ptr where res: "res = delivered req (answer_alone lib (app_state_new pool cfg) req ptr)"
    using sent_answer [OF assms(1,2)] assms(3) by auto
  obtain body_bytes where alone: "answer_alone lib (app_state_new pool cfg) req ptr =
      signed_response lib (signer (app_state_new pool cfg)) p body_bytes"
    using judge_alone [OF assms(4,5,7)] by blast
  have "signer (app_state_new pool cfg) = config_signer cfg" by (simp add: app_state_new_def)
  with signed_fields [OF assms(7-9), of body_bytes] show ?thesis
    by (simp add: res alone other_headers_hardened assms(4))
qed

section \<open>The limiter under load\<close>

text \<open>A request the limiter let through, wherever it stands now.\<close>

fun past_limiter :: "stage \<Rightarrow> bool" where
  "past_limiter (Over_Limit req secs) \<longleftrightarrow> False"
| "past_limiter (Leaving req res) \<longleftrightarrow> resp_status res \<noteq> 429"
| "past_limiter (Classing req res) \<longleftrightarrow> resp_status res \<noteq> 429"
| "past_limiter (Sent req res) \<longleftrightarrow> resp_status res \<noteq> 429"
| "past_limiter _ \<longleftrightarrow> True"

definition client_key :: "('r, 'k) app_state \<Rightarrow> stage \<Rightarrow> ustr" where
  "client_key s st = bucket_key (self_ip s (req_headers (stage_request st)) (req_peer (stage_request st)))"

definition let_through :: "stage \<Rightarrow> bool" where
  "let_through st \<longleftrightarrow> past_limiter st \<and> \<not> is_monitoring (req_path (stage_request st))"

text \<open>Each of them is in the history with an admission under the key of its client.\<close>

definition admissions :: "u32 \<Rightarrow> ('r, 'k) service_machine \<Rightarrow> (nat \<times> access) set" where
  "admissions n m = {e. (e, None) \<in> set (zip (limiter_log m) (verdicts n m))}"

definition admissions_ok :: "('r, 'k) app_state \<Rightarrow> u32 \<Rightarrow> ('r, 'k) service_machine \<Rightarrow> bool" where
  "admissions_ok s n m \<longleftrightarrow>
     settings (app m) = settings s \<and>
     (\<forall>r st. stages m r = Some st \<longrightarrow> let_through st \<longrightarrow>
        (\<exists>a. (r, a) \<in> admissions n m \<and> access_key a = client_key s st))"

lemma progress_let_through:
  assumes "progress lib r m m'" and "stages m' r' = Some st'" and "let_through st'"
  shows "\<exists>st. stages m r' = Some st \<and> let_through st \<and> stage_request st = stage_request st'"
  using assms by (cases; auto simp: let_through_def too_many_requests_def hardened_def Let_def split: if_splits)

lemma rate_run_length [simp]: "length (snd (rate_run rl as)) = length as"
  by (induction as arbitrary: rl) simp_all

lemma admissions_simps [simp]:
  "admissions n (enter r st m) = admissions n m" "admissions n (on_app f m) = admissions n m"
  "admissions n (with_lookups p m) = admissions n m"
  by (simp_all add: admissions_def)

lemma admissions_note:
  assumes "limiter_books n m"
  shows "admissions n (note_access r a (on_app f m)) =
    admissions n m \<union> (if snd (rate_access (rate_limit (app m)) a) = None then {(r, a)} else {})"
  using assms by (auto simp: admissions_def limiter_books_def verdicts_note verdicts_def [of n m])

lemma admissions_kept:
  assumes "admissions_ok s n m" and "settings (app m') = settings (app m)" and "admissions n m \<subseteq> admissions n m'"
    and "\<And>r st. stages m' r = Some st \<Longrightarrow> let_through st \<Longrightarrow>
      (\<exists>st0. stages m r = Some st0 \<and> let_through st0 \<and> stage_request st0 = stage_request st) \<or>
      (\<exists>a. (r, a) \<in> admissions n m' \<and> access_key a = client_key s st)"
  shows "admissions_ok s n m'"
proof -
  have "\<exists>a. (r, a) \<in> admissions n m' \<and> access_key a = client_key s st"
    if st: "stages m' r = Some st" "let_through st" for r st
    using assms(4) [OF st]
  proof (elim disjE exE conjE)
    fix st0 assume "stages m r = Some st0" "let_through st0" and same: "stage_request st0 = stage_request st"
    then obtain a where "(r, a) \<in> admissions n m" "access_key a = client_key s st0"
      using assms(1) unfolding admissions_ok_def by blast
    moreover from this same have "access_key a = client_key s st" by (simp add: client_key_def)
    ultimately show ?thesis using assms(3) by blast
  qed blast
  then show ?thesis using assms(1,2) by (simp add: admissions_ok_def)
qed

lemma admissions_step:
  assumes "service_step lib answers m m'" and "admissions_ok s n m" and "limiter_books n m"
  shows "admissions_ok s n m'"
proof (rule admissions_kept [OF assms(2) settings_step [OF assms(1)]])
  have same: "settings (app m) = settings s" using assms(2) by (simp add: admissions_ok_def)
  note note' = admissions_note [OF assms(3)]
  show "admissions n m \<subseteq> admissions n m'"
    using assms(1)
  proof cases
    case (arrives r req)
    then show ?thesis by cases (auto simp: note')
  next
    case (proceeds r)
    then show ?thesis by cases simp_all
  qed simp_all
  fix r st
  assume st: "stages m' r = Some st" "let_through st"
  show "(\<exists>st0. stages m r = Some st0 \<and> let_through st0 \<and> stage_request st0 = stage_request st) \<or>
      (\<exists>a. (r, a) \<in> admissions n m' \<and> access_key a = client_key s st)"
    using assms(1)
  proof cases
    case (arrives r' req)
    then show ?thesis
    proof cases
      case exempt
      then show ?thesis using st by (auto simp: let_through_def split: if_splits)
    next
      case (over_limit a evict now0 now1 rl secs)
      then show ?thesis using st by (auto simp: let_through_def split: if_splits)
    next
      case (admitted a evict now0 now1 rl)
      have "(r', a) \<in> admissions n m'" using admitted(1,6) by (simp add: note')
      moreover have "access_key a = client_key s (Queueing req)"
        by (simp add: admitted(4) access_key_def client_key_def self_ip_settings [OF same])
      moreover have "stages m r = Some st \<or> r = r' \<and> st = Queueing req"
        using st(1) admitted(1) by (simp split: if_splits)
      ultimately show ?thesis using st(2) by blast
    qed
  next
    case (proceeds r')
    then show ?thesis using progress_let_through [OF _ st] by blast
  qed (use st in auto)
qed

text \<open>The accesses of one client, and how many of them were admissions.\<close>

definition client_checks :: "ustr \<Rightarrow> ('r, 'k) service_machine \<Rightarrow> access list" where
  "client_checks k m = filter (\<lambda>a. access_key a = k) (map snd (limiter_log m))"

definition client_visits :: "ustr \<Rightarrow> u32 \<Rightarrow> ('r, 'k) service_machine \<Rightarrow> (bool \<times> access) list" where
  "client_visits k n m = visits k False (rate_limit_new n) (map snd (limiter_log m))"

lemma client_visits_accesses: "map snd (client_visits k n m) = client_checks k m"
  by (simp add: client_visits_def client_checks_def visits_accesses)

lemma admissions_count:
  assumes "\<forall>a \<in> set (map snd (limiter_log m)). only_evicts a" and "\<forall>r \<in> R. \<exists>a. (r, a) \<in> admissions n m \<and> access_key a = k"
  shows "card R \<le> length (filter (\<lambda>v. v = None) (snd (rate_run (rate_limit_new n) (alone (client_visits k n m)))))"
proof -
  let ?mine = "filter (\<lambda>(e, v). access_key (snd e) = k) (zip (limiter_log m) (verdicts n m))"
  let ?let = "filter (\<lambda>(e, v). v = None) ?mine"
  have "R \<subseteq> (fst \<circ> fst) ` set ?let"
  proof
    fix r assume "r \<in> R"
    then obtain a where "((r, a), None) \<in> set (zip (limiter_log m) (verdicts n m))" "access_key a = k"
      using assms(2) by (auto simp: admissions_def)
    then have "((r, a), None) \<in> set ?let" by simp
    then show "r \<in> (fst \<circ> fst) ` set ?let" by (rule rev_image_eqI) simp
  qed
  then have "card R \<le> card ((fst \<circ> fst) ` set ?let)" by (intro card_mono) simp_all
  also have "\<dots> \<le> card (set ?let)" by (rule card_image_le) simp
  also have "\<dots> \<le> length ?let" by (rule card_length)
  also have "length ?let = length (filter (\<lambda>v. v = None) (map snd ?mine))"
    by (simp add: filter_map comp_def case_prod_unfold)
  also have "map snd ?mine = map snd (filter (\<lambda>(a, v). access_key a = k) (zip (map snd (limiter_log m)) (verdicts n m)))"
    by (simp add: zip_map1 filter_map comp_def case_prod_unfold)
  also have "\<dots> = snd (rate_run (rate_limit_new n) (alone (client_visits k n m)))"
    unfolding verdicts_def client_visits_def by (rule isolated_verdicts [OF assms(1)])
  finally show ?thesis .
qed

lemma admissions_reachable:
  assumes "reachable (service_init pool cfg) (service_step lib answers) m"
  shows "admissions_ok (app_state_new pool cfg) (rate_per_minute cfg) m"
  using assms
proof (induction rule: reachable.induct)
  case (reachable_init m)
  then show ?case by (simp add: service_init_def service_start_def admissions_ok_def)
next
  case (reachable_step m m')
  have "service_books (rate_per_minute cfg) m" using reachable_step.hyps(1) by (rule service.reachable_inv)
  then show ?case using admissions_step [OF reachable_step.hyps(2) reachable_step.IH] by (simp add: service_books_def)
qed

text \<open>
  C11. The configured rate holds under load: however requests interleave, if the clock is monotone
  for a client (one bucket key), no more of its requests have passed the limiter between \<open>t0\<close> and
  \<open>T\<close> than the capacity of its bucket and the refill of that time, up to rounding, and the capacity
  once more for every time the cache dropped the bucket less than a minute after its last use.
  There is no such drop, with the clock monotone for all, if the cache drops entries only as moka
  documents it for its configuration (above 100000 entries or after 120 idle seconds) and no more
  than 100000 buckets were ever used. The limit is that of the configuration; monitoring requests
  are exempt.
\<close>

theorem clients_are_limited:
  assumes "reachable (service_init pool cfg) (service_step lib answers) m" and "rate_per_minute cfg \<noteq> 0"
    and "sorted (map now_of (client_checks k m))"
    and "\<forall>a \<in> set (client_checks k m). t0 \<le> now_of a \<and> now_of a \<le> T"
  shows "of_nat (card {r. \<exists>st. stages m r = Some st \<and> let_through st \<and> client_key (app_state_new pool cfg) st = k}) \<le>
      f64_from_u32 (rate_per_minute cfg) * (1 + of_nat (early_losses (client_visits k (rate_per_minute cfg) m)))
        + of_nat (T - t0) / 10 ^ 9 * (f64_from_u32 (rate_per_minute cfg) / 60) * (1 + 1 / 2 ^ 50)
        + of_nat (length (client_checks k m)) * (f64_from_u32 (rate_per_minute cfg) / 2 ^ 51) \<and>
    ((\<forall>a \<in> set (map snd (limiter_log m)). keeps_fresh a) \<and> sorted (map now_of (map snd (limiter_log m))) \<and>
        card (access_key ` set (map snd (limiter_log m))) \<le> bucket_capacity \<longrightarrow>
      early_losses (client_visits k (rate_per_minute cfg) m) = 0)"
proof -
  let ?n = "rate_per_minute cfg"
  let ?R = "{r. \<exists>st. stages m r = Some st \<and> let_through st \<and> client_key (app_state_new pool cfg) st = k}"
  let ?vs = "client_visits k ?n m"
  have evicts: "\<forall>a \<in> set (map snd (limiter_log m)). only_evicts a"
    using service.reachable_inv [OF assms(1)] by (simp add: service_books_def limiter_books_def)
  have "\<forall>r \<in> ?R. \<exists>a. (r, a) \<in> admissions ?n m \<and> access_key a = k"
    using admissions_reachable [OF assms(1)] unfolding admissions_ok_def by blast
  then have "of_nat (card ?R) \<le> (of_nat (length (filter (\<lambda>v. v = None) (snd (rate_run (rate_limit_new ?n) (alone ?vs))))) :: rat)"
    using admissions_count [OF evicts] by simp
  also have "\<dots> \<le> f64_from_u32 ?n * (1 + of_nat (early_losses ?vs))
      + of_nat (T - t0) / 10 ^ 9 * (f64_from_u32 ?n / 60) * (1 + 1 / 2 ^ 50)
      + of_nat (length ?vs) * (f64_from_u32 ?n / 2 ^ 51)"
  proof (rule long_run_rate [OF assms(2), where k = k])
    have own: "snd v \<in> set (client_checks k m)" if "v \<in> set ?vs" for v
      using that unfolding client_visits_accesses [of k ?n m, symmetric] by simp
    then show "\<forall>v \<in> set ?vs. t0 \<le> now_of (snd v) \<and> now_of (snd v) \<le> T" using assms(4) by blast
    show "\<forall>v \<in> set ?vs. access_key (snd v) = k" using own by (fastforce simp: client_checks_def)
    show "sorted (map (now_of \<circ> snd) ?vs)"
      using assms(3) by (metis client_visits_accesses map_map)
  qed
  also have "length ?vs = length (client_checks k m)" by (metis client_visits_accesses length_map)
  finally show ?thesis
    using no_early_losses [OF _ assms(2), of "map snd (limiter_log m)" k] evicts by (auto simp: client_visits_def)
qed

section \<open>Two runs\<close>

theorem every_judge_answer_is_signed_witness:
  "\<exists>m res p. demo_run m \<and> stages m 0 = Some (Sent (demo_request ''/judge'') res) \<and>
     header_values (resp_headers res) (lit ''x-judge-key-id'') = [as_bytes (key_id (config_signer open_config))] \<and>
     names_one p (resp_body res)"
proof -
  let ?res = "snd (build_app demo_libs demo_world (demo_request ''/judge'') open_state)"
  obtain m where m: "demo_run m" "stages m 0 = Some (Sent (demo_request ''/judge'') ?res)" using demo_reaches by blast
  have req: "req_method (demo_request ''/judge'') = lit ''GET''" "req_path (demo_request ''/judge'') = lit ''/judge''"
    "req_peer (demo_request ''/judge'') = Some (V4 (Ipv4Addr 10 0 0 2), 40000)"
    by (simp_all add: demo_request_def)
  have p: "parse_query demo_libs (req_query (demo_request ''/judge'')) =
      Inr \<lparr>direct_ip = unquery (req_query (demo_request ''/judge'')), nonce = Some (lit ''nonce-123'')\<rparr>"
    by (simp add: demo_libs_def)
  have s: "config_signer open_config = from_seed (signing_lib demo_libs) (replicate 32 1) True"
    by (simp add: open_config_def)
  from every_judge_answer_is_signed [OF m demo_judge_ok req p demo_libs_ok s] m show ?thesis by blast
qed

text \<open>A limit of two requests a minute, of which a client has used one.\<close>

definition two_config :: "u8 list config" where
  "two_config = open_config\<lparr>rate_per_minute := 2\<rparr>"

definition one_check :: access where
  "one_check = (id, self_ip (app_state_new demo_pool two_config) hiding_request (Some (V4 (Ipv4Addr 10 0 0 2), 40000)), 0, 0)"

definition one_admitted :: "(ustr + demo_json, u8 list) service_machine" where
  "one_admitted = enter 0 (Queueing (demo_request ''/judge''))
     (note_access 0 one_check (on_app (\<lambda>s. s\<lparr>rate_limit := fst (rate_access (rate_limit_new 2) one_check)\<rparr>)
        (service_start (app_state_new demo_pool two_config))))"

lemma one_admitted_reachable: "reachable (service_init demo_pool two_config) (service_step demo_libs one_name) one_admitted"
proof -
  have start: "reachable (service_init demo_pool two_config) (service_step demo_libs one_name)
      (service_start (app_state_new demo_pool two_config))"
    by (rule reachable_init) (simp add: service_init_def)
  have "f64_from_u32 2 = of_nat 2" by (simp add: f64_from_u32_def)
  then have "snd (check_limit (token_bucket_new 2 0) 0 2) = None"
    using full_tokens_check [of 2 2 "token_bucket_new 2 0" 0] by (simp add: token_bucket_new_def)
  then have "rate_access (rate_limit_new 2) one_check = (fst (rate_access (rate_limit_new 2) one_check), None)"
    by (simp add: rate_access_def one_check_def rate_check_def rate_limit_new_def prod_eq_iff Let_def split_def)
  then have "arrival 0 (demo_request ''/judge'') (service_start (app_state_new demo_pool two_config)) one_admitted"
    unfolding one_admitted_def
    by (intro admitted)
      (simp_all add: service_start_def is_monitoring_def demo_request_def one_check_def only_evicts_def app_state_new_def two_config_def)
  from reachable_step [OF start arrives [OF this]] show ?thesis .
qed

theorem clients_are_limited_witness:
  "of_nat (card {r. \<exists>st. stages one_admitted r = Some st \<and> let_through st \<and>
       client_key (app_state_new demo_pool two_config) st = access_key one_check}) \<le>
     f64_from_u32 2 + of_nat (0 - 0) / 10 ^ 9 * (f64_from_u32 2 / 60) * (1 + 1 / 2 ^ 50)
       + of_nat (length (client_checks (access_key one_check) one_admitted)) * (f64_from_u32 2 / 2 ^ 51)"
proof -
  have log: "map snd (limiter_log one_admitted) = [one_check]" by (simp add: one_admitted_def service_start_def)
  have two: "rate_per_minute two_config = 2" by (simp add: two_config_def)
  have check: "keeps_fresh one_check" "now_of one_check = 0" by (simp_all add: keeps_fresh_def now_of_def one_check_def)
  note limited = clients_are_limited [OF one_admitted_reachable, of "access_key one_check" 0 0]
  have "early_losses (client_visits (access_key one_check) 2 one_admitted) = 0"
    using limited by (simp add: log two client_checks_def check bucket_capacity_def)
  then show ?thesis using limited by (simp add: log two client_checks_def check)
qed

end
