(* ===== verification/Logic_Tests.thy ===== *)
theory Logic_Tests
  imports Anonymity Ip_Classify
begin

text \<open>
  The unit tests of \<open>src/logic.rs\<close>, each as a boolean definition over the model, and the proof
  that all of them hold. What the authors of the program expect of the decision logic is so
  checked against the definitions of this development.
\<close>

section \<open>Evaluation\<close>

text \<open>The addresses and words the tests use, read once; \<open>known_hosts\<close> has them as code points.\<close>

lemma hosts_read:
  "normalize_host (lit ''1.1.1.1'') = Some (lit ''1.1.1.1'')"
  "normalize_host (lit ''1.2.3.4'') = Some (lit ''1.2.3.4'')"
  "normalize_host (lit ''1.2.3.40'') = Some (lit ''1.2.3.40'')"
  "normalize_host (lit ''1.2.3.4:80'') = Some (lit ''1.2.3.4'')"
  "normalize_host (lit ''1.2.3.4:40000'') = Some (lit ''1.2.3.4'')"
  "normalize_host (lit ''5.6.7.8'') = Some (lit ''5.6.7.8'')"
  "normalize_host (lit ''8.8.8.8'') = Some (lit ''8.8.8.8'')"
  "normalize_host (lit ''9.9.9.9'') = Some (lit ''9.9.9.9'')"
  "normalize_host (lit ''172.71.146.141'') = Some (lit ''172.71.146.141'')"
  "normalize_host (lit ''10.29.121.232'') = Some (lit ''10.29.121.232'')"
  "normalize_host (lit ''172.21.0.1'') = Some (lit ''172.21.0.1'')"
  "normalize_host (lit ''2001:0db8:0:0:0:0:0:1'') = Some (lit ''2001:db8::1'')"
  "normalize_host (lit ''2001:db8::1'') = Some (lit ''2001:db8::1'')"
  "normalize_host (lit ''2001:db8::10'') = Some (lit ''2001:db8::10'')"
  "normalize_host (lit ''::ffff:1.2.3.4'') = Some (lit ''1.2.3.4'')"
  "normalize_host (lit ''::ffff:0102:0304'') = Some (lit ''1.2.3.4'')"
  "normalize_host (lit ''[::ffff:1.2.3.4]:8080'') = Some (lit ''1.2.3.4'')"
  by (simp_all add: clean_host_def normalize_host_def addr_eval str_eval)

lemma words_are_no_hosts:
  "normalize_host (lit ''garbage'') = None" "normalize_host (lit ''not-an-ip'') = None"
  "normalize_host (lit ''unknown'') = None" "normalize_host (lit '':8080'') = None"
  "normalize_host (lit ''f'') = None" "normalize_host (lit ''a'') = None" "normalize_host (lit ''1.0'') = None"
  by (simp_all add: clean_host_def normalize_host_def addr_eval str_eval)

lemmas known_hosts = hosts_read [simplified lit_Cons lit_Nil, simplified]
  words_are_no_hosts [simplified lit_Cons lit_Nil, simplified]

lemma addresses_read:
  "parse_ip (lit ''1.1.1.1'') = Some (V4 (Ipv4Addr 1 1 1 1))" "parse_ip (lit ''1.2.3.4'') = Some (V4 (Ipv4Addr 1 2 3 4))"
  "parse_ip (lit ''2001:db8::1'') = Some (V6 (Ipv6Addr 0x2001 0xDB8 0 0 0 0 0 1))"
  "show_ip (V4 (Ipv4Addr 1 1 1 1)) = lit ''1.1.1.1''" "show_ip (V4 (Ipv4Addr 1 2 3 4)) = lit ''1.2.3.4''"
  "show_ip (V6 (Ipv6Addr 0x2001 0xDB8 0 0 0 0 0 1)) = lit ''2001:db8::1''"
  by (simp_all add: addr_eval str_eval)

lemmas known_addresses = addresses_read [simplified lit_Cons lit_Nil, simplified]

section \<open>Header entries, client address and chain\<close>

definition forwarded_chain :: "ustr option \<Rightarrow> ustr \<Rightarrow> bool \<Rightarrow> bool \<Rightarrow> ustr option \<Rightarrow> ustr list" where
  "forwarded_chain xff client trust_proxy trust_cf cf_ip =
     normalize_chain (pre_edge_xff xff client trust_proxy trust_cf cf_ip)"

definition client_ip_resolution :: bool where
  "client_ip_resolution \<longleftrightarrow>
     client_ip None None (lit ''9.9.9.9'') False True = lit ''9.9.9.9'' \<and>
     client_ip None None (lit ''9.9.9.9'') True True = lit ''9.9.9.9'' \<and>
     client_ip None (Some (lit ''1.2.3.4, 5.6.7.8'')) (lit ''10.0.0.1'') True True = lit ''5.6.7.8''"

definition client_ip_prefers_cf_header :: bool where
  "client_ip_prefers_cf_header \<longleftrightarrow>
     client_ip (Some (lit ''5.6.7.8'')) (Some (lit ''9.9.9.9, 5.6.7.8'')) (lit ''172.21.0.1'') True True = lit ''5.6.7.8'' \<and>
     client_ip (Some (lit ''not-an-ip'')) (Some (lit ''9.9.9.9, 5.6.7.8'')) (lit ''172.21.0.1'') True True = lit ''5.6.7.8'' \<and>
     client_ip (Some (lit ''5.6.7.8'')) None (lit ''172.21.0.1'') False False = lit ''172.21.0.1''"

definition client_ip_rejects_garbage_xff :: bool where
  "client_ip_rejects_garbage_xff \<longleftrightarrow>
     client_ip None (Some (lit ''not-an-ip'')) (lit ''9.9.9.9'') True True = lit ''9.9.9.9'' \<and>
     client_ip None (Some (lit ''1.2.3.4:80, garbage'')) (lit ''9.9.9.9'') True True = lit ''9.9.9.9'' \<and>
     client_ip None (Some (lit ''1.2.3.4:80'')) (lit ''9.9.9.9'') True True = lit ''1.2.3.4''"

definition host_port_tolerance :: bool where
  "host_port_tolerance \<longleftrightarrow>
     clean_host (lit ''1.2.3.4:5678'') = lit ''1.2.3.4'' \<and>
     clean_host (lit ''  1.2.3.4  '') = lit ''1.2.3.4'' \<and>
     clean_host (lit ''[::1]:8080'') = lit ''::1'' \<and>
     clean_host (lit ''2001:db8::1'') = lit ''2001:db8::1'' \<and>
     client_ip None (Some (lit ''9.9.9.9:40000, 5.6.7.8'')) (lit ''x'') True True = lit ''5.6.7.8'' \<and>
     forwarded_chain (Some (lit ''1.2.3.4:40000, 5.6.7.8'')) (lit ''5.6.7.8'') True False None = [lit ''1.2.3.4'']"

definition chain_strips_caddy_entry :: bool where
  "chain_strips_caddy_entry \<longleftrightarrow>
     forwarded_chain (Some (lit ''1.2.3.4, 5.6.7.8'')) (lit ''5.6.7.8'') True False None = [lit ''1.2.3.4''] \<and>
     forwarded_chain (Some (lit ''5.6.7.8'')) (lit ''5.6.7.8'') True False None = [] \<and>
     forwarded_chain (Some (lit ''1.2.3.4'')) (lit ''9.9.9.9'') False False None = [lit ''1.2.3.4'']"

definition chain_strips_cdn_infra_hops :: bool where
  "chain_strips_cdn_infra_hops \<longleftrightarrow>
     forwarded_chain (Some (lit ''1.2.3.4, 172.71.146.141, 10.29.121.232'')) (lit ''1.2.3.4'') True True
       (Some (lit ''1.2.3.4'')) = [] \<and>
     forwarded_chain (Some (lit ''9.9.9.9, 172.71.146.141, 10.29.121.232'')) (lit ''9.9.9.9'') True True
       (Some (lit ''9.9.9.9'')) = [] \<and>
     forwarded_chain (Some (lit ''1.2.3.4, 9.9.9.9, 172.71.146.141, 10.29.121.232'')) (lit ''9.9.9.9'') True True
       (Some (lit ''9.9.9.9'')) = [lit ''1.2.3.4''] \<and>
     forwarded_chain (Some (lit ''9.9.9.9, 5.6.7.8'')) (lit ''9.9.9.9'') True True (Some (lit ''9.9.9.9'')) = [] \<and>
     forwarded_chain (Some (lit ''9.9.9.9'')) (lit ''1.1.1.1'') True True (Some (lit ''9.9.9.9'')) = [lit ''9.9.9.9'']"

definition trailing_garbage_xff_does_not_pop_earlier_client_hop :: bool where
  "trailing_garbage_xff_does_not_pop_earlier_client_hop \<longleftrightarrow>
     forwarded_chain (Some (lit ''9.9.9.9, garbage'')) (lit ''9.9.9.9'') True False None = [lit ''9.9.9.9'']"

definition cdn_chain_uses_last_client_occurrence :: bool where
  "cdn_chain_uses_last_client_occurrence \<longleftrightarrow>
     forwarded_chain (Some (lit ''9.9.9.9, 1.2.3.4, 9.9.9.9, 172.71.146.141, 10.29.121.232'')) (lit ''9.9.9.9'')
       True True (Some (lit ''9.9.9.9'')) = [lit ''1.2.3.4''] \<and>
     forwarded_chain (Some (lit ''9.9.9.9, 9.9.9.9, 172.71.146.141, 10.29.121.232'')) (lit ''9.9.9.9'')
       True True (Some (lit ''9.9.9.9'')) = []"

lemmas address_tests = client_ip_resolution_def client_ip_prefers_cf_header_def client_ip_rejects_garbage_xff_def
  host_port_tolerance_def chain_strips_caddy_entry_def chain_strips_cdn_infra_hops_def
  trailing_garbage_xff_does_not_pop_earlier_client_hop_def cdn_chain_uses_last_client_occurrence_def

lemma address_tests_hold:
  "client_ip_resolution" "client_ip_prefers_cf_header" "client_ip_rejects_garbage_xff" "host_port_tolerance"
  "chain_strips_caddy_entry" "chain_strips_cdn_infra_hops" "trailing_garbage_xff_does_not_pop_earlier_client_hop"
  "cdn_chain_uses_last_client_occurrence"
  by (simp_all add: address_tests forwarded_chain_def normalize_chain_def client_ip_def pre_edge_xff_def split_xff_def
      List.map_filter_simps Let_def str_eval known_hosts clean_host_def is_ascii_digit_def)

section \<open>Verdicts\<close>

definition pairs :: "(string \<times> string) list \<Rightarrow> (ustr \<times> ustr) list" where
  "pairs ps = map (\<lambda>(k, v). (lit k, lit v)) ps"

definition render_direct_check_is_elite_not_transparent :: bool where
  "render_direct_check_is_elite_not_transparent \<longleftrightarrow>
     (let h = pairs [(''cf-connecting-ip'', ''1.1.1.1''), (''cf-ray'', ''abc123''),
                (''x-forwarded-for'', ''1.1.1.1, 172.71.146.141, 10.29.121.232'')];
          chain = forwarded_chain (map_of h (lit ''x-forwarded-for'')) (lit ''1.1.1.1'') True True
                    (map_of h (lit ''cf-connecting-ip''));
          for_analysis = map_insert (lit ''x-forwarded-for'') (join (lit '', '') chain) h
      in chain = [] \<and>
         anonymity_level for_analysis (Some (lit ''1.1.1.1'')) True = lit ''elite'' \<and>
         anonymity_level for_analysis None True = lit ''elite'')"

definition render_true_client_ip_is_not_a_leak :: bool where
  "render_true_client_ip_is_not_a_leak \<longleftrightarrow>
     anonymity_level (pairs [(''cf-connecting-ip'', ''1.1.1.1''), (''true-client-ip'', ''1.1.1.1''),
       (''cf-ray'', ''abc123''), (''x-forwarded-for'', '''')]) (Some (lit ''1.1.1.1'')) True = lit ''elite''"

definition elite_direct_behind_caddy :: bool where
  "elite_direct_behind_caddy \<longleftrightarrow>
     anonymity_level (pairs [(''x-forwarded-for'', '''')]) (Some (lit ''1.1.1.1'')) True = lit ''elite'' \<and>
     anonymity_level (pairs [(''user-agent'', ''x'')]) None True = lit ''elite''"

definition transparent_leak :: bool where
  "transparent_leak \<longleftrightarrow>
     anonymity_level (pairs [(''x-forwarded-for'', ''1.1.1.1''), (''user-agent'', ''x'')]) (Some (lit ''1.1.1.1'')) True =
       lit ''transparent''"

definition multiple_non_direct_hops_are_anonymous :: bool where
  "multiple_non_direct_hops_are_anonymous \<longleftrightarrow>
     (let h = pairs [(''x-forwarded-for'', ''9.9.9.9, 8.8.8.8'')]
      in anonymity_level h (Some (lit ''1.1.1.1'')) True = lit ''anonymous'' \<and>
         anonymity_level h None True = lit ''anonymous'')"

definition anonymous_forwarded_no_leak :: bool where
  "anonymous_forwarded_no_leak \<longleftrightarrow>
     anonymity_level (pairs [(''x-forwarded-for'', ''9.9.9.9''), (''user-agent'', ''x'')]) (Some (lit ''1.1.1.1'')) True =
       lit ''anonymous''"

definition anonymous_via :: bool where
  "anonymous_via \<longleftrightarrow>
     anonymity_level (pairs [(''via'', ''1.0 proxy'')]) (Some (lit ''1.1.1.1'')) True = lit ''anonymous''"

definition infra_headers_ignored :: bool where
  "infra_headers_ignored \<longleftrightarrow>
     anonymity_level (pairs [(''x-forwarded-proto'', ''https''), (''x-forwarded-host'', ''check.x'')])
       (Some (lit ''1.1.1.1'')) True = lit ''elite''"

definition cf_direct_check_is_elite_not_transparent :: bool where
  "cf_direct_check_is_elite_not_transparent \<longleftrightarrow>
     anonymity_level (pairs [(''cf-connecting-ip'', ''1.1.1.1''), (''cf-ray'', ''abc123''), (''cf-ipcountry'', ''DE''),
       (''cdn-loop'', ''cloudflare''), (''x-forwarded-for'', '''')]) (Some (lit ''1.1.1.1'')) True = lit ''elite''"

definition cf_transparent_still_detected :: bool where
  "cf_transparent_still_detected \<longleftrightarrow>
     anonymity_level (pairs [(''cf-connecting-ip'', ''5.6.7.8''), (''x-forwarded-for'', ''1.1.1.1'')])
       (Some (lit ''1.1.1.1'')) True = lit ''transparent''"

definition true_client_ip_is_a_leak_without_trust_cf :: bool where
  "true_client_ip_is_a_leak_without_trust_cf \<longleftrightarrow>
     (let h = pairs [(''true-client-ip'', ''1.1.1.1''), (''x-forwarded-for'', '''')]
      in anonymity_level h (Some (lit ''1.1.1.1'')) False = lit ''transparent'' \<and>
         anonymity_level h (Some (lit ''1.1.1.1'')) True = lit ''elite'')"

definition cf_header_is_a_leak_without_trust_cf :: bool where
  "cf_header_is_a_leak_without_trust_cf \<longleftrightarrow>
     anonymity_level (pairs [(''cf-connecting-ip'', ''1.1.1.1''), (''x-forwarded-for'', '''')])
       (Some (lit ''1.1.1.1'')) False = lit ''transparent''"

definition unknown_cf_header_is_checked_for_leaks :: bool where
  "unknown_cf_header_is_checked_for_leaks \<longleftrightarrow>
     anonymity_level (pairs [(''cf-connecting-ip'', ''5.6.7.8''), (''cf-custom'', ''1.1.1.1''), (''x-forwarded-for'', '''')])
       (Some (lit ''1.1.1.1'')) True = lit ''transparent''"

definition prefix_is_not_a_leak :: bool where
  "prefix_is_not_a_leak \<longleftrightarrow>
     anonymity_level (pairs [(''x-forwarded-for'', ''1.2.3.40'')]) (Some (lit ''1.2.3.4'')) True = lit ''anonymous'' \<and>
     anonymity_level (pairs [(''user-agent'', ''Mozilla 1.2.3.40'')]) (Some (lit ''1.2.3.4'')) True = lit ''elite''"

definition header_value_exact_ip_is_a_leak :: bool where
  "header_value_exact_ip_is_a_leak \<longleftrightarrow>
     anonymity_level (pairs [(''referer'', ''https://x/?ip=1.2.3.4&y=1'')]) (Some (lit ''1.2.3.4'')) True =
       lit ''transparent''"

definition ipv6_forms_are_normalized :: bool where
  "ipv6_forms_are_normalized \<longleftrightarrow>
     anonymity_level (pairs [(''x-forwarded-for'', ''2001:0db8:0:0:0:0:0:1'')]) (Some (lit ''2001:db8::1'')) True =
       lit ''transparent'' \<and>
     anonymity_level (pairs [(''x-forwarded-for'', ''2001:db8::10'')]) (Some (lit ''2001:db8::1'')) True =
       lit ''anonymous'' \<and>
     anonymity_level (pairs [(''x-real-ip'', ''2001:0db8:0:0:0:0:0:1'')]) (Some (lit ''2001:db8::1'')) True =
       lit ''transparent'' \<and>
     anonymity_level (pairs [(''forwarded'', ''for=\"[2001:0db8:0:0:0:0:0:1]:8080\";proto=http'')])
       (Some (lit ''2001:db8::1'')) True = lit ''transparent''"

definition ipv4_mapped_ipv6_is_canonicalized :: bool where
  "ipv4_mapped_ipv6_is_canonicalized \<longleftrightarrow>
     normalize_host (lit ''::ffff:1.2.3.4'') = Some (lit ''1.2.3.4'') \<and>
     normalize_host (lit ''[::ffff:1.2.3.4]:8080'') = Some (lit ''1.2.3.4'') \<and>
     anonymity_level (pairs [(''x-forwarded-for'', ''::ffff:1.2.3.4'')]) (Some (lit ''1.2.3.4'')) True =
       lit ''transparent'' \<and>
     anonymity_level (pairs [(''x-forwarded-for'', ''1.2.3.4'')]) (Some (lit ''::ffff:1.2.3.4'')) True =
       lit ''transparent'' \<and>
     anonymity_level (pairs [(''x-client-ip'', ''::ffff:0102:0304'')]) (Some (lit ''1.2.3.4'')) True =
       lit ''transparent''"

definition unknown_xff_is_anonymous_not_elite :: bool where
  "unknown_xff_is_anonymous_not_elite \<longleftrightarrow>
     (let h = pairs [(''x-forwarded-for'', ''unknown'')]
      in anonymity_level h (Some (lit ''1.2.3.4'')) True = lit ''anonymous'' \<and>
         anonymity_level h None True = lit ''anonymous'')"

lemmas judging = pairs_def forwarded_chain_def normalize_chain_def pre_edge_xff_def split_xff_def map_insert_def
  anonymity_level_def ip_in_text_def List.map_filter_simps Let_def verdict_eval str_eval known_hosts known_addresses

lemma cloudflare_tests_hold:
  "render_direct_check_is_elite_not_transparent" "render_true_client_ip_is_not_a_leak"
  "cf_direct_check_is_elite_not_transparent" "cf_transparent_still_detected"
  "true_client_ip_is_a_leak_without_trust_cf" "cf_header_is_a_leak_without_trust_cf"
  "unknown_cf_header_is_checked_for_leaks"
  by (simp_all add: render_direct_check_is_elite_not_transparent_def render_true_client_ip_is_not_a_leak_def
      cf_direct_check_is_elite_not_transparent_def cf_transparent_still_detected_def
      true_client_ip_is_a_leak_without_trust_cf_def cf_header_is_a_leak_without_trust_cf_def
      unknown_cf_header_is_checked_for_leaks_def judging)

lemma verdict_tests_hold:
  "elite_direct_behind_caddy" "transparent_leak" "multiple_non_direct_hops_are_anonymous" "anonymous_forwarded_no_leak"
  "anonymous_via" "infra_headers_ignored" "prefix_is_not_a_leak" "header_value_exact_ip_is_a_leak"
  "unknown_xff_is_anonymous_not_elite"
  by (simp_all add: elite_direct_behind_caddy_def transparent_leak_def multiple_non_direct_hops_are_anonymous_def
      anonymous_forwarded_no_leak_def anonymous_via_def infra_headers_ignored_def prefix_is_not_a_leak_def
      header_value_exact_ip_is_a_leak_def unknown_xff_is_anonymous_not_elite_def judging)

lemma spelling_tests_hold:
  "ipv6_forms_are_normalized" "ipv4_mapped_ipv6_is_canonicalized"
  by (simp_all add: ipv6_forms_are_normalized_def ipv4_mapped_ipv6_is_canonicalized_def judging)

section \<open>Network types\<close>

text \<open>
  Single keywords are found by cutting the text into words once; the few phrases are searched
  for. The tests use ASCII texts only, so they hold for every Unicode table.
\<close>

definition words_of :: "(uchar \<Rightarrow> bool) \<Rightarrow> ustr \<Rightarrow> ustr list" where
  "words_of ua low = split_on (\<lambda>c. \<not> is_alphanumeric ua c) low"

lemma contains_plain_word:
  assumes "plain_word k"
  shows "contains_word ua (to_ascii_lowercase t) k \<longleftrightarrow> k \<in> set (words_of ua (to_ascii_lowercase t))"
proof -
  have "k \<noteq> []" "plain_keyword k" using assms
    by (auto simp: plain_word_def plain_keyword_def list_all_iff is_ascii_alphanumeric_def is_ascii_digit_def
        split: option.split dest!: rsplit_once_Some)
  then show ?thesis
    using token_iff [OF assms, of ua "to_ascii_lowercase t"] contains_word_iff
    by (simp add: mentions_def words_of_def)
qed

text \<open>What the tests say of a verdict, over the words of the organisation name.\<close>

definition classify_datacenter :: "(uchar \<Rightarrow> bool) \<Rightarrow> bool" where
  "classify_datacenter ua \<longleftrightarrow>
     (let (t, s) = classify_ip ua (Some (lit ''Hetzner Online GmbH'')) None
      in t = lit ''datacenter'' \<and> (hosting_kw s \<noteq> [] \<or> hosting_vendor s \<noteq> []))"

definition classify_mobile :: "(uchar \<Rightarrow> bool) \<Rightarrow> bool" where
  "classify_mobile ua \<longleftrightarrow> fst (classify_ip ua (Some (lit ''Mobile TeleSystems PJSC'')) None) = lit ''mobile''"

definition vendor_substring_no_false_positive :: "(uchar \<Rightarrow> bool) \<Rightarrow> bool" where
  "vendor_substring_no_false_positive ua \<longleftrightarrow>
     (let (t, s) = classify_ip ua (Some (lit ''Shaw Communications'')) None
      in hosting_vendor s = [] \<and> t = lit ''residential'')"

definition classify_keywords_respect_word_boundaries :: "(uchar \<Rightarrow> bool) \<Rightarrow> bool" where
  "classify_keywords_respect_word_boundaries ua \<longleftrightarrow>
     fst (classify_ip ua (Some (lit ''Ghost Productions'')) None) = lit ''residential'' \<and>
     fst (classify_ip ua (Some (lit ''Acme Bank'')) None) = lit ''business'' \<and>
     fst (classify_ip ua (Some (lit ''Ghost Hosting'')) None) = lit ''datacenter''"

definition legal_suffix_does_not_make_residential_ip_business :: "(uchar \<Rightarrow> bool) \<Rightarrow> bool" where
  "legal_suffix_does_not_make_residential_ip_business ua \<longleftrightarrow>
     (let (t, s) = classify_ip ua (Some (lit ''Comcast Cable Communications LLC'')) None
      in t = lit ''residential'' \<and> business_kw s = [] \<and> residential_kw s \<noteq> [])"

definition classify_google_fiber_is_residential :: "(uchar \<Rightarrow> bool) \<Rightarrow> bool" where
  "classify_google_fiber_is_residential ua \<longleftrightarrow>
     fst (classify_ip ua (Some (lit ''Google Fiber Inc.'')) None) = lit ''residential''"

definition classify_residential_default :: "(uchar \<Rightarrow> bool) \<Rightarrow> bool" where
  "classify_residential_default ua \<longleftrightarrow> fst (classify_ip ua (Some (lit ''Rostelecom'')) None) = lit ''residential''"

definition classify_unknown :: "(uchar \<Rightarrow> bool) \<Rightarrow> bool" where
  "classify_unknown ua \<longleftrightarrow> fst (classify_ip ua None None) = lit ''unknown''"

lemma plain_word_no_space: "plain_word k \<Longrightarrow> 32 \<notin> set k"
  by (auto simp: plain_word_def list_all_iff is_ascii_alphanumeric_def is_ascii_digit_def)

lemma mentions_any_words:
  assumes "list_all plain_keyword ws"
  shows "mentions_any ua ws (Some t) \<longleftrightarrow>
    list_ex (\<lambda>w. plain_word w \<and> w \<in> set ws) (words_of ua (to_ascii_lowercase t)) \<or>
    list_ex (contains_word ua (to_ascii_lowercase t)) (filter (\<lambda>k. 32 \<in> set k) ws)"
proof -
  have "mentions ua t k \<longleftrightarrow>
      (if 32 \<in> set k then contains_word ua (to_ascii_lowercase t) k
       else plain_word k \<and> k \<in> set (words_of ua (to_ascii_lowercase t)))" if "k \<in> set ws" for k
  proof -
    have k: "plain_keyword k" using assms that by (simp add: list_all_iff)
    show ?thesis
      using contains_word_iff [OF k, of ua t] contains_plain_word [of k ua t] plain_keyword_word [OF k] by auto
  qed
  then show ?thesis
    using plain_word_no_space by (auto simp: mentions_any_def text_of_def list_ex_iff)
qed

lemma mentions_any_none: "list_all plain_keyword ws \<Longrightarrow> \<not> mentions_any ua ws None"
  using plain_keyword_trim
  by (force simp: mentions_any_def mentions_def occurs_delimited_def text_of_def list_ex_iff list_all_iff to_ascii_lowercase_def)

lemmas nothing_mentioned = keyword_lists_plain(1-5) [THEN mentions_any_none]

lemma phrases:
  "filter (\<lambda>k. 32 \<in> set k) HOSTING_KW = map lit [''data center'', ''bare metal'']"
  "filter (\<lambda>k. 32 \<in> set k) HOSTING_VENDORS = map lit [''oracle cloud'', ''ibm cloud'', ''yandex cloud'']"
  "filter (\<lambda>k. 32 \<in> set k) MOBILE_KW = []" "filter (\<lambda>k. 32 \<in> set k) RESIDENTIAL_KW = []"
  "filter (\<lambda>k. 32 \<in> set k) BUSINESS_KW = []"
  by (simp_all add: keyword_defs str_eval)

lemmas mentioned = keyword_lists_plain(1-5) [THEN mentions_any_words, unfolded phrases list.map]

lemma decided:
  "fst (classify_ip ua (Some t) None) =
     (if contains_word ua (to_ascii_lowercase t) (lit ''google fiber'') then lit ''residential''
      else if mentions_any ua MOBILE_KW (Some t) then lit ''mobile''
      else if mentions_any ua HOSTING_KW (Some t) \<or> mentions_any ua HOSTING_VENDORS (Some t) then lit ''datacenter''
      else if mentions_any ua BUSINESS_KW (Some t) then lit ''business''
      else if mentions_any ua RESIDENTIAL_KW (Some t) \<or> trim t \<noteq> [] then lit ''residential''
      else lit ''unknown'')"
  unfolding classify_fst contains_word_iff [OF keyword_lists_plain(6)] by (simp add: nothing_mentioned text_of_def)

lemmas keyword_sets = keyword_defs [THEN arg_cong [where f = set]]

lemmas word_search = mentioned contains_word_def match_indices_def match_on_boundary_def char_before_def char_at_def
  words_of_def is_alphanumeric_def plain_word_def keyword_sets str_eval

lemma undecided: "fst (classify_ip ua None None) = lit ''unknown''"
  unfolding classify_fst by (simp add: nothing_mentioned mentions_def occurs_delimited_def text_of_def
      to_ascii_lowercase_def trim_def trim_start_def trim_end_def lit_Cons)

lemma signalled:
  "hosting_kw (snd (classify_ip ua (Some t) None)) = [] \<longleftrightarrow> \<not> mentions_any ua HOSTING_KW (Some t)"
  "business_kw (snd (classify_ip ua (Some t) None)) = [] \<longleftrightarrow> \<not> mentions_any ua BUSINESS_KW (Some t)"
  "residential_kw (snd (classify_ip ua (Some t) None)) = [] \<longleftrightarrow> \<not> mentions_any ua RESIDENTIAL_KW (Some t)"
  "\<not> contains_word ua (to_ascii_lowercase t) (lit ''google fiber'') \<Longrightarrow>
     hosting_vendor (snd (classify_ip ua (Some t) None)) = [] \<longleftrightarrow> \<not> mentions_any ua HOSTING_VENDORS (Some t)"
  using classify_snd [of ua "Some t" None] nothing_mentioned(3) [of ua]
  by (auto simp: classify_empty mentions_any_def text_of_def list_ex_iff contains_word_iff [OF keyword_lists_plain(6)])

lemma type_tests_hold:
  "classify_mobile ua" "classify_keywords_respect_word_boundaries ua" "classify_google_fiber_is_residential ua"
  "classify_residential_default ua" "classify_unknown ua"
  unfolding classify_mobile_def classify_keywords_respect_word_boundaries_def classify_google_fiber_is_residential_def
    classify_residential_default_def classify_unknown_def
  by (simp_all add: decided undecided word_search)

lemma signal_tests_hold:
  "classify_datacenter ua" "vendor_substring_no_false_positive ua" "legal_suffix_does_not_make_residential_ip_business ua"
  unfolding classify_datacenter_def vendor_substring_no_false_positive_def
    legal_suffix_does_not_make_residential_ip_business_def Let_def split_def
  by (simp_all add: decided signalled word_search)

end
