(* ===== verification/Limit_Tests.thy ===== *)
theory Limit_Tests
  imports Rate_Limit
begin

text \<open>
  The unit tests of \<open>src/ratelimit.rs\<close>, each as a boolean definition over the model, and the proof
  that they hold: also the delays, which the tests give to the second, in binary64 arithmetic.
\<close>

section \<open>The tests\<close>

definition limit_bucket_allows_then_blocks :: "nat \<Rightarrow> bool" where
  "limit_bucket_allows_then_blocks now \<longleftrightarrow>
     (let bucket = token_bucket_new 2 now;
          (bucket, a) = check_limit bucket now 2;
          (bucket, b) = check_limit bucket now 2;
          (bucket, c) = check_limit bucket now 2;
          other = token_bucket_new 2 now
      in a = None \<and> b = None \<and> c = Some 30 \<and>
         snd (check_limit other now 2) = None \<and>
         snd (check_limit (token_bucket_new 0 now) now 0) = None)"

definition limit_bucket_refills_and_reports_exact_delay :: "nat \<Rightarrow> bool" where
  "limit_bucket_refills_and_reports_exact_delay now \<longleftrightarrow>
     (let bucket = token_bucket_new 1 now;
          (bucket, a) = check_limit bucket now 1;
          (bucket, b) = check_limit bucket now 1;
          (bucket, c) = check_limit bucket (now + 30 * 10 ^ 9) 1;
          (bucket, d) = check_limit bucket (now + 60 * 10 ^ 9) 1
      in a = None \<and> b = Some 60 \<and> c = Some 30 \<and> d = None)"

definition bucket_key_groups_ipv6_by_64 :: bool where
  "bucket_key_groups_ipv6_by_64 \<longleftrightarrow>
     bucket_key (lit ''9.9.9.9'') = lit ''9.9.9.9'' \<and>
     bucket_key (lit ''2001:db8:1:2::1'') = lit ''2001:db8:1:2::/64'' \<and>
     bucket_key (lit ''2001:db8:1:2:ffff:ffff:ffff:ffff'') = lit ''2001:db8:1:2::/64'' \<and>
     bucket_key (lit ''2001:db8:1:3::1'') = lit ''2001:db8:1:3::/64'' \<and>
     bucket_key (lit ''::ffff:9.9.9.9'') = lit ''9.9.9.9''"

text \<open>Ten checks of a disabled limiter, whatever the clock reads and the cache drops.\<close>

definition disabled_limit_never_blocks :: "((ustr \<rightharpoonup> token_bucket) \<Rightarrow> (ustr \<rightharpoonup> token_bucket)) \<Rightarrow> (nat \<Rightarrow> nat) \<Rightarrow> bool" where
  "disabled_limit_never_blocks evict clock \<longleftrightarrow>
     (let checks = map (\<lambda>i. (evict, lit ''9.9.9.9'', clock (2 * i), clock (2 * i + 1))) [0..<10]
      in snd (rate_run (rate_limit_new 0) checks) = replicate 10 None)"

section \<open>They hold\<close>

lemma fl_thirtieth: "fl (1 / 30) = 4803839602528529 / 2 ^ 57"
  using fl_eqI [of "- 5" "1 / 30" 4803839602528529] by (simp add: powi2_minus)

lemma fl_thirty_again: "fl (1 / fl (1 / 30)) = 30"
  using fl_eqI [of 4 "1 / fl (1 / 30)" 8444249301319680] by (simp add: fl_thirtieth powi2_minus)

lemma fl_half: "fl (1 / 2) = 1 / 2"
  using fl_eqI [of "- 1" "1 / 2" 4503599627370496] by (simp add: powi2_minus)

text \<open>Thirty sixtieths are a little less than a half before rounding, and a half after.\<close>

lemma fl_half_minute: "fl (30 * fl (1 / 60)) = 1 / 2" "fl (1 / (2 * fl (1 / 60))) = 30"
  using fl_eqI [of "- 2" "30 * fl (1 / 60)" 9007199254740992] fl_eqI [of 4 "1 / (2 * fl (1 / 60))" 8444249301319680]
  by (simp_all add: fl_sixtieth powi2_minus)

lemma seconds: "as_secs_f64 0 = 0" "as_secs_f64 30000000000 = 30"
  using fl_numeral [of "num.Bit0 (num.Bit1 (num.Bit1 (num.Bit1 num.One)))"]
  by (simp_all add: as_secs_f64_def fl_def [of 0])

lemma fl_small: "fl 0 = 0" "fl 1 = 1" "fl 2 = 2" "fl 30 = 30" "fl 60 = 60"
  using fl_int [of 0] fl_int [of 1] fl_int [of 2] fl_int [of 30] fl_int [of 60] by simp_all

lemmas limiter_eval = check_limit_def token_bucket_new_def f64_from_u32_def f64_as_u64_def seconds fl_small fl_half
  fl_half_minute fl_thirty_again fl_sixty_again

lemma bucket_tests_hold:
  "limit_bucket_allows_then_blocks now" "limit_bucket_refills_and_reports_exact_delay now"
  by (simp_all add: limit_bucket_allows_then_blocks_def limit_bucket_refills_and_reports_exact_delay_def limiter_eval Let_def)

lemma key_test_holds: "bucket_key_groups_ipv6_by_64"
  by (simp add: bucket_key_groups_ipv6_by_64_def bucket_key_def ipv6_network_def v6_network_64 addr_eval str_eval)

lemma disabled_test_holds: "disabled_limit_never_blocks evict clock"
proof -
  have "rate_run (rate_limit_new 0) as = (rate_limit_new 0, map (\<lambda>_. None) as)" for as :: "access list"
    by (induction as) (auto simp: rate_access_def rate_check_def rate_limit_new_def split: prod.split)
  then show ?thesis by (simp add: disabled_limit_never_blocks_def map_replicate_const)
qed

end
