(* ===== verification/Config_Tests.thy ===== *)
theory Config_Tests
  imports Env_Config
begin

text \<open>
  The unit tests of \<open>src/config.rs\<close> and of the keys and nonces of \<open>src/sign.rs\<close>, each as a boolean
  definition over the model, and the proof that they hold. What a test needs of a library (how
  \<open>f64\<close> and base64 read a given text, which bytes may stand in a header name) is its hypothesis;
  the two tests that compare concrete signatures are about the libraries only and are left out.
\<close>

section \<open>Variables\<close>

definition a_variable_that_is_not_unicode_is_an_error :: bool where
  "a_variable_that_is_not_unicode_is_an_error \<longleftrightarrow>
     (let parse = parse_var (lit ''METRICS_TOKEN'')
      in parse (Var_Ok (lit ''t'')) = Inr (Some (lit ''t'')) \<and>
         parse Not_Present = Inr None \<and>
         parse Not_Unicode = Inl (Not_Valid_Unicode (lit ''METRICS_TOKEN'')))"

definition one_not_unicode :: "string \<Rightarrow> ustr \<Rightarrow> var_result" where
  "one_not_unicode name var =
     (if var = lit name then Not_Unicode
      else if var = lit ''TRUST_PROXY'' then Var_Ok (lit ''1'')
      else Not_Present)"

definition no_setting_that_is_not_unicode_passes_as_unset :: "'k config_env \<Rightarrow> bool" where
  "no_setting_that_is_not_unicode_passes_as_unset env \<longleftrightarrow>
     list_all (\<lambda>name. from_lookup (env\<lparr>lookup := one_not_unicode name\<rparr>) = Inl (Not_Valid_Unicode (lit name)))
       [''TRUST_PROXY'', ''TRUST_CF'', ''EDGE_HEADERS'', ''PORT'', ''BIND_ADDR'', ''GEO_DIR'', ''RDNS_TIMEOUT'',
        ''RATE_LIMIT_PER_MINUTE'', ''METRICS_TOKEN'', ''SIGNING_KEY'']"

definition unset_settings_take_their_defaults :: "'k config_env \<Rightarrow> bool" where
  "unset_settings_take_their_defaults env \<longleftrightarrow>
     (case from_lookup (env\<lparr>lookup := \<lambda>_. Not_Present\<rparr>) of
        Inl _ \<Rightarrow> False
      | Inr cfg \<Rightarrow> port cfg = 8000 \<and> \<not> trust_proxy cfg \<and> \<not> trust_cf cfg \<and>
          metrics_token cfg = None \<and> ephemeral (config_signer cfg))"

definition flags_accept_common_spellings_and_reject_typos :: bool where
  "flags_accept_common_spellings_and_reject_typos \<longleftrightarrow>
     list_all (\<lambda>on. parse_flag (lit ''X'') (Some (lit on)) = Inr True) [''1'', ''true'', ''TRUE'', ''yes'', ''On'', '' 1 ''] \<and>
     list_all (\<lambda>off. parse_flag (lit ''X'') (Some (lit off)) = Inr False) [''0'', ''false'', ''No'', ''off'', ''''] \<and>
     parse_flag (lit ''X'') None = Inr False \<and>
     isl (parse_flag (lit ''X'') (Some (lit ''ture''))) \<and>
     isl (parse_flag (lit ''X'') (Some (lit ''2'')))"

definition bind_addr_parsing :: bool where
  "bind_addr_parsing \<longleftrightarrow>
     parse_bind None = Inr (V4 (Ipv4Addr 0 0 0 0)) \<and>
     parse_bind (Some (lit ''  '')) = Inr (V4 (Ipv4Addr 0 0 0 0)) \<and>
     parse_bind (Some (lit ''::'')) = Inr (V6 (Ipv6Addr 0 0 0 0 0 0 0 0)) \<and>
     parse_bind (Some (lit ''[::]'')) = Inr (V6 (Ipv6Addr 0 0 0 0 0 0 0 0)) \<and>
     parse_bind (Some (lit ''127.0.0.1'')) = Inr (V4 (Ipv4Addr 127 0 0 1)) \<and>
     isl (parse_bind (Some (lit ''localhost'')))"

definition edge_headers_are_normalized_and_validated :: "(u8 list \<Rightarrow> bool) \<Rightarrow> bool" where
  "edge_headers_are_normalized_and_validated name_ok \<longleftrightarrow>
     parse_edge_headers name_ok None = Inr [] \<and>
     parse_edge_headers name_ok (Some (lit '' X-Real-IP, via,,x-real-ip '')) = Inr [lit ''x-real-ip'', lit ''via''] \<and>
     isl (parse_edge_headers name_ok (Some (lit ''X-Forwarded-For''))) \<and>
     isl (parse_edge_headers name_ok (Some (lit ''bad header'')))"

definition rdns_timeout_parsing_is_panic_free :: "(ustr \<Rightarrow> f64_value option) \<Rightarrow> bool" where
  "rdns_timeout_parsing_is_panic_free f64 \<longleftrightarrow>
     (let default = from_secs_f64 (Finite (3 / 2))
      in default \<noteq> None \<and>
         parse_rdns_timeout f64 None = default \<and>
         list_all (\<lambda>t. parse_rdns_timeout f64 (Some (lit t)) = default) ['''', ''-1'', ''nan'', ''inf''] \<and>
         parse_rdns_timeout f64 (Some (lit ''2.5'')) = from_secs_f64 (Finite (5 / 2)) \<and>
         parse_rdns_timeout f64 (Some (lit ''0'')) = Some 0 \<and>
         parse_rdns_timeout f64 (Some (lit ''1e9'')) = Some (60 * 10 ^ 9))"

section \<open>Keys and nonces\<close>

definition generated_or_rejected :: "'k crypto \<Rightarrow> ustr + u8 list \<Rightarrow> bool" where
  "generated_or_rejected lib random \<longleftrightarrow>
     list_all (\<lambda>unset. case parse_signer lib random unset of Inr s \<Rightarrow> ephemeral s | Inl _ \<Rightarrow> False)
       [None, Some (lit ''''), Some (lit ''   '')] \<and>
     isl (parse_signer lib random (Some (lit ''not base64!'')))"

definition rejects_bad_keys_and_nonces :: "'k crypto \<Rightarrow> bool" where
  "rejects_bad_keys_and_nonces lib \<longleftrightarrow>
     isl (from_seed_b64 lib (lit ''not base64!'')) \<and>
     isl (from_seed_b64 lib (lit ''AAEC'')) \<and>
     valid_nonce (lit ''abcDEF12_-'') \<and>
     \<not> valid_nonce (lit ''short'') \<and>
     \<not> valid_nonce (lit ''has space 123'') \<and>
     \<not> valid_nonce (replicate 65 120)"

section \<open>They hold\<close>

lemma variable_tests_hold:
  "a_variable_that_is_not_unicode_is_an_error" "flags_accept_common_spellings_and_reject_typos" "bind_addr_parsing"
  by (simp_all add: a_variable_that_is_not_unicode_is_an_error_def flags_accept_common_spellings_and_reject_typos_def
      bind_addr_parsing_def parse_var_def parse_flag_def parse_bind_def trim_start_matches_def trim_end_matches_def
      addr_eval str_eval)

lemma edge_header_test_holds:
  assumes "name_ok (as_bytes (lit ''x-real-ip''))" and "name_ok (as_bytes (lit ''via''))"
    and "\<not> name_ok (as_bytes (lit ''bad header''))"
  shows "edge_headers_are_normalized_and_validated name_ok"
  using assms by (simp add: edge_headers_are_normalized_and_validated_def parse_edge_headers_def Let_def str_eval)

lemma timeout_test_holds:
  assumes "f64 (lit '''') = None" and "f64 (lit ''-1'') = Some (Finite (- 1))" and "f64 (lit ''nan'') = Some Not_A_Number"
    and "f64 (lit ''inf'') = Some (Infinite False)" and "f64 (lit ''2.5'') = Some (Finite (5 / 2))"
    and "f64 (lit ''0'') = Some (Finite 0)" and "f64 (lit ''1e9'') = Some (Finite (10 ^ 9))"
  shows "rdns_timeout_parsing_is_panic_free f64"
  using assms round_half_even_int [of 0] round_half_even_int [of "60000000000"]
  by (simp add: rdns_timeout_parsing_is_panic_free_def parse_rdns_timeout_def from_secs_f64_def)

lemma no_flag: "parse_flag name None = Inr False"
  by (simp add: parse_flag_def)

lemma one_is_on: "parse_flag name (Some (lit ''1'')) = Inr True"
  by (simp add: parse_flag_def str_eval)

lemma unset_read: "parse_edge_headers name_ok None = Inr []" "parse_bind None = Inr (V4 (Ipv4Addr 0 0 0 0))"
  "parse_port None = 8000"
  by (simp_all add: parse_edge_headers_def parse_bind_def parse_port_def)

lemma unset_signer: "parse_signer lib (Inr seed) None = Inr (from_seed lib seed True)"
  by (simp add: parse_signer_def generate_def)

lemma lookup_tests_hold:
  assumes "os_random env = Inr seed"
  shows "no_setting_that_is_not_unicode_passes_as_unset env" "unset_settings_take_their_defaults env"
  using assms
  by (simp_all add: no_setting_that_is_not_unicode_passes_as_unset_def unset_settings_take_their_defaults_def
      from_lookup_def get_var_def parse_var_def one_not_unicode_def no_flag one_is_on unset_read unset_signer
      config_literal_def from_seed_def Let_def)

lemma long_nonce: "length (as_bytes (replicate 65 120)) = 65"
  by (subst as_bytes_ascii) (simp_all add: list_all_iff)

lemma key_tests_hold:
  assumes "b64_decode lib (lit ''not base64!'') = None" and "b64_decode lib (lit ''AAEC'') = Some [0, 1, 2]"
  shows "generated_or_rejected lib (Inr seed)" "rejects_bad_keys_and_nonces lib"
  using assms long_nonce
  by (simp_all add: generated_or_rejected_def rejects_bad_keys_and_nonces_def parse_signer_def generate_def from_seed_def
      from_seed_b64_def valid_nonce_def as_bytes_ascii is_ascii_alphanumeric_def is_ascii_digit_def Let_def str_eval)

end
