(* ===== verification/App_Tests.thy ===== *)
theory App_Tests
  imports Service_Runs Logic_Tests "HOL-Library.Countable"
begin

text \<open>
  The router tests of \<open>src/app.rs\<close>, each as a boolean definition over \<open>build_app\<close>, and the proof that
  they hold: requests go through all layers of an application without databases, with forwarded
  headers trusted and reverse DNS off, as the tests set it up. What the tests need of the libraries
  is \<open>router_libs\<close>; a JSON value is read back from the body. The tests that verify
  signatures are in \<open>Signature_Tests\<close>, the one that reads database files in \<open>Geo_Tests\<close>.
\<close>

section \<open>The application under test\<close>

definition NO_GEO_DIR :: "'r geo_fs" where
  "NO_GEO_DIR = \<lparr>file_exists = \<lambda>_. False, dir_entries = None, open_readfile = \<lambda>_. None\<rparr>"

definition test_config :: "'k signer \<Rightarrow> u32 \<Rightarrow> nat \<Rightarrow> 'k config" where
  "test_config sg per_min timeout =
     \<lparr>port = 8000, bind = V4 (Ipv4Addr 127 0 0 1), geo_dir = lit ''/nonexistent-dir-xyz'', trust_proxy = True,
      trust_cf = True, rdns_timeout = timeout, rate_per_minute = per_min, edge_headers = [],
      metrics_token = None, config_signer = sg\<rparr>"

definition test_state :: "('r, 'l, 'v, 'k) app_libs \<Rightarrow> 'k config \<Rightarrow> ('r, 'k) app_state" where
  "test_state lib cfg = app_state_new (open_pool (geo_db_lib lib) NO_GEO_DIR) cfg"

text \<open>A request as \<open>get_with\<close> builds it, with the peer that \<open>add_connect_info\<close> inserts.\<close>

definition get_with :: "string \<Rightarrow> string option \<Rightarrow> (string \<times> string) list \<Rightarrow> request" where
  "get_with path query headers =
     \<lparr>req_method = lit ''GET'', req_path = lit path, req_query = map_option lit query,
      req_headers = map header_line headers, req_peer = Some (V4 (Ipv4Addr 127 0 0 1), 12345)\<rparr>"

definition oneshot ::
  "('r, 'l, 'v, 'k) app_libs \<Rightarrow> ('r, 'k) request_world \<Rightarrow> 'k config \<Rightarrow> request \<Rightarrow> response" where
  "oneshot lib w cfg req = snd (build_app lib w req (test_state lib cfg))"

fun member :: "json \<Rightarrow> string \<Rightarrow> json" where
  "member (J_Obj fs) name = (case map_of fs (lit name) of Some v \<Rightarrow> v | None \<Rightarrow> J_Null)"
| "member _ name = J_Null"

text \<open>The environment of a test: nothing else happens, and no cache drops anything.\<close>

definition calm_world :: "('r, 'k) request_world \<Rightarrow> bool" where
  "calm_world w \<longleftrightarrow> geo_evict w = id \<and> rate_evict w = id \<and> while_busy w = id \<and> slot_in_time w"

definition router_libs :: "('r, 'l, 'v, 'k) app_libs \<Rightarrow> (u8 list \<Rightarrow> json) \<Rightarrow> bool" where
  "router_libs lib from_slice \<longleftrightarrow>
     (\<forall>j. from_slice (json_text lib j) = j) \<and>
     parse_query lib None = Inr \<lparr>direct_ip = None, nonce = None\<rparr> \<and>
     list_all (\<lambda>d. parse_query lib (Some (lit (''direct_ip='' @ d))) = Inr \<lparr>direct_ip = Some (lit d), nonce = None\<rparr>)
       [''1.1.1.1'', ''1.2.3.4'', ''not-an-ip''] \<and>
     parse_query lib (Some (lit ''direct_ip=1.1.1.1%0A'')) = Inr \<lparr>direct_ip = Some (lit ''1.1.1.1'' @ [10]), nonce = None\<rparr> \<and>
     (\<forall>t. list_all (\<lambda>c. 32 \<le> c \<and> c < 127) t \<longrightarrow> header_to_str lib (as_bytes t) = Some t) \<and>
     (\<forall>m. length (sha256 (signing_lib lib) m) = 32)"

text \<open>
  Libraries like that exist: bodies that number the JSON values, and a query parser that knows
  the parameter of the tests.
\<close>

instance json :: countable
  by countable_datatype

definition number_text :: "json \<Rightarrow> u8 list" where
  "number_text j = replicate (to_nat j) 0"

definition number_value :: "u8 list \<Rightarrow> json" where
  "number_value bs = from_nat (length bs)"

definition test_query :: "ustr option \<Rightarrow> ustr option" where
  "test_query q =
     (if q = Some (lit ''direct_ip=1.1.1.1%0A'') then Some (lit ''1.1.1.1'' @ [10])
      else Option.bind q (strip_prefix (lit ''direct_ip='')))"

definition test_libs :: "(ustr + demo_json, demo_json, demo_json, u8 list) app_libs" where
  "test_libs = demo_libs\<lparr>json_text := number_text,
     parse_query := \<lambda>q. Inr \<lparr>direct_ip = test_query q, nonce = None\<rparr>,
     header_to_str := \<lambda>v. Some (from_utf8_lossy v),
     signing_lib := demo_crypto\<lparr>sha256 := \<lambda>_. replicate 32 0\<rparr>\<rparr>"

lemma test_libs_fit: "router_libs test_libs number_value"
proof -
  have "from_utf8_lossy (as_bytes t) = t" if "list_all (\<lambda>c. 32 \<le> c \<and> c < 127) t" for t
    using that by (intro from_utf8_lossy_as_bytes) (fastforce simp: valid_str_def is_scalar_def list_all_iff)
  then show ?thesis
    by (simp add: router_libs_def test_libs_def number_text_def number_value_def test_query_def) (simp add: str_eval)
qed

section \<open>One request through the layers\<close>

lemma test_state_fields [simp]:
  "geo (test_state lib cfg) = \<lparr>city_db = None, country_db = None, asn_db = None, sources = []\<rparr>"
  "trust_proxy (test_state lib cfg) = config.trust_proxy cfg" "trust_cf (test_state lib cfg) = config.trust_cf cfg"
  "rate_limit (test_state lib cfg) = rate_limit_new (rate_per_minute cfg)" "concurrency (test_state lib cfg) = 512"
  "rdns_timeout (test_state lib cfg) = config.rdns_timeout cfg" "edge_headers (test_state lib cfg) = config.edge_headers cfg"
  "metrics_token (test_state lib cfg) = config.metrics_token cfg" "signer (test_state lib cfg) = config_signer cfg"
  "geo_cache (test_state lib cfg) = Map.empty" "ptr_cache (test_state lib cfg) = Map.empty" "rdns_sem (test_state lib cfg) = 16"
  "metrics (test_state lib cfg) = metrics_default"
  by (simp_all add: test_state_def app_state_new_def open_pool_def open_first_def db_candidates_def NO_GEO_DIR_def
      MAX_CONCURRENCY_def RDNS_MAX_CONCURRENT_def)

lemma get_with_fields [simp]:
  "req_method (get_with path query headers) = lit ''GET''" "req_path (get_with path query headers) = lit path"
  "req_query (get_with path query headers) = map_option lit query"
  "req_headers (get_with path query headers) = map header_line headers"
  "req_peer (get_with path query headers) = Some (V4 (Ipv4Addr 127 0 0 1), 12345)"
  by (simp_all add: get_with_def)

lemma rdns_off: "rdns_timeout s = 0 \<Longrightarrow> maybe_rdns w s ip_text org = (s, Ready None)"
  by (simp add: maybe_rdns_def rdns_target_def)

text \<open>The first request of a client is let through, so it gets to its route and back.\<close>

definition served_state :: "('r, 'k) request_world \<Rightarrow> ('r, 'k) app_state \<Rightarrow> request \<Rightarrow> ('r, 'k) app_state" where
  "served_state w s req =
     s\<lparr>rate_limit := fst (rate_check id (rate_limit s) (self_ip s (req_headers req) (req_peer req)) (clock0 w) (clock1 w)),
       concurrency := concurrency s - 1\<rparr>"

lemma first_check:
  assumes "n \<noteq> 0"
  shows "snd (rate_check id (rate_limit_new n) client t0 t1) = None"
  using assms check_new_bucket by (simp add: rate_check_def rate_limit_new_def Let_def split_def)

lemma first_request:
  assumes "calm_world w" and "n \<noteq> 0" and "\<not> is_monitoring (req_path req)" and "rate_limit s = rate_limit_new n"
    and "0 < concurrency s" and "snd (routes lib w req (served_state w s req)) = Ready res"
    and "req_method req = lit ''GET''"
  shows "snd (build_app lib w req s) = hardened req res"
  using assms(1,3,5-7) first_check [OF assms(2)]
  by (simp add: build_app_outer rate_limit_mw_def concurrency_mw_def timeout_mw_def served_state_def calm_world_def assms(4)
      Let_def split_def split: option.split)

lemma oneshot_routes:
  assumes "calm_world w" and "rate_per_minute cfg \<noteq> 0" and "\<not> is_monitoring (req_path req)"
    and "snd (routes lib w req (served_state w (test_state lib cfg) req)) = Ready res"
    and "req_method req = lit ''GET''"
  shows "oneshot lib w cfg req = hardened req res"
  unfolding oneshot_def by (rule first_request [OF assms(1-3) _ _ assms(4,5)]) simp_all

lemma oneshot_monitoring:
  assumes "is_monitoring (req_path req)" and "snd (routes lib w req (test_state lib cfg)) = Ready res"
    and "req_method req = lit ''GET''"
  shows "oneshot lib w cfg req = hardened req res"
  using assms
  by (simp add: oneshot_def build_app_outer rate_limit_mw_def concurrency_mw_def timeout_mw_def Let_def split_def)

text \<open>What \<open>/judge\<close> says of a request, read back from the body.\<close>

definition json_answer ::
  "('r, 'l, 'v, 'k) app_libs \<Rightarrow> (u8 list \<Rightarrow> json) \<Rightarrow> ('r, 'k) request_world \<Rightarrow> 'k config \<Rightarrow> request \<Rightarrow> json" where
  "json_answer lib from_slice w cfg req = from_slice (resp_body (oneshot lib w cfg req))"

definition peer_127 :: "socket_addr option" where
  "peer_127 = Some (V4 (Ipv4Addr 127 0 0 1), 12345)"

lemma served_settings: "settings (served_state w s req) = settings s"
  by (simp add: served_state_def settings_def)

lemma geo_cached_settings: "settings (fst (geo_cached glib evict s addr)) = settings s"
  by (simp add: geo_cached_def settings_def Let_def split: option.split)

lemma judge_ready:
  assumes "rdns_timeout s = 0" and "self_ip s hs (Some conn) = me" and "proxy_view s hs me = (view, chain)"
  shows "\<exists>s' g t signals. snd (judge lib w s conn hs p) = Ready (signed_response lib (signer s) p (judge_body lib s' me view chain
    (anonymity_level view (Option.bind (without_lf (direct_ip p)) normalize_host) (trust_cf s)) g t signals))"
proof -
  obtain s' g where geo: "geo_cached (geo_db_lib lib) (geo_evict w) s me = (s', g)" by fastforce
  then have "settings s' = settings s" using geo_cached_settings by (metis fst_conv)
  then have s': "rdns_timeout s' = 0" "signer s' = signer s" using assms(1) settings_fields by metis+
  show ?thesis
    by (simp add: judge_def assms(2,3) geo rdns_off [OF s'(1)] s'(2) await_def Let_def split_def) blast
qed

lemma judge_body_json:
  assumes "calm_world w" and "rate_per_minute cfg \<noteq> 0" and "config.rdns_timeout cfg = 0"
    and "\<And>j. from_slice (json_text lib j) = j" and "parse_query lib (map_option lit q) = Inr p"
    and "self_ip (test_state lib cfg) (map header_line hs) peer_127 = me"
    and "proxy_view (test_state lib cfg) (map header_line hs) me = (view, chain)"
  shows "\<exists>g src att ty signals. json_answer lib from_slice w cfg (get_with ''/judge'' q hs) =
    J_Obj [(lit ''ip'', J_Str me), (lit ''headers'', json_map view), (lit ''xff_chain'', json_strs chain),
      (lit ''anonymity'', J_Str (anonymity_level view (Option.bind (without_lf (direct_ip p)) normalize_host) (config.trust_cf cfg))),
      (lit ''geo'', g), (lit ''geo_source'', src), (lit ''attribution'', att), (lit ''ip_type'', ty), (lit ''type_signals'', signals),
      (lit ''content_version'', J_Nat (unat CONTENT_VERSION)),
      (lit ''content_sha256'', J_Str (content_sha256 (sha256 (signing_lib lib))))]"
proof -
  let ?req = "get_with ''/judge'' q hs"
  let ?s = "served_state w (test_state lib cfg) ?req"
  have s: "rdns_timeout ?s = 0" "self_ip ?s (map header_line hs) peer_127 = me"
    "proxy_view ?s (map header_line hs) me = (view, chain)" "trust_cf ?s = config.trust_cf cfg"
    by (simp_all only: self_ip_settings [OF served_settings] proxy_view_settings [OF served_settings]
        settings_fields [OF served_settings] test_state_fields assms(3,6,7))
  have "snd (routes lib w ?req ?s) = snd (judge lib w ?s (V4 (Ipv4Addr 127 0 0 1), 12345) (map header_line hs) p)"
    using assms(5) by (simp add: routes_def handle_def with_peer_def)
  with judge_ready [OF s(1) s(2) [unfolded peer_127_def] s(3), of lib w p] s(4)
  obtain s' g t signals where ready: "snd (routes lib w ?req ?s) = Ready (signed_response lib (signer ?s) p (judge_body lib s' me view chain
      (anonymity_level view (Option.bind (without_lf (direct_ip p)) normalize_host) (config.trust_cf cfg)) g t signals))"
    by auto
  have "\<not> is_monitoring (req_path ?req)" by (simp add: is_monitoring_def)
  from oneshot_routes [OF assms(1,2) this ready] show ?thesis
    by (simp add: json_answer_def hardened_def Let_def judge_body_def assms(4))
qed

lemma judge_fields:
  assumes "calm_world w" and "rate_per_minute cfg \<noteq> 0" and "config.rdns_timeout cfg = 0"
    and "\<And>j. from_slice (json_text lib j) = j" and "parse_query lib (map_option lit q) = Inr p"
    and "self_ip (test_state lib cfg) (map header_line hs) peer_127 = me"
    and "proxy_view (test_state lib cfg) (map header_line hs) me = (view, chain)"
  shows "member (json_answer lib from_slice w cfg (get_with ''/judge'' q hs)) ''ip'' = J_Str me"
    "member (json_answer lib from_slice w cfg (get_with ''/judge'' q hs)) ''headers'' = json_map view"
    "member (json_answer lib from_slice w cfg (get_with ''/judge'' q hs)) ''xff_chain'' = json_strs chain"
    "member (json_answer lib from_slice w cfg (get_with ''/judge'' q hs)) ''anonymity'' =
       J_Str (anonymity_level view (Option.bind (without_lf (direct_ip p)) normalize_host) (config.trust_cf cfg))"
    "member (json_answer lib from_slice w cfg (get_with ''/judge'' q hs)) ''content_sha256'' =
       J_Str (content_sha256 (sha256 (signing_lib lib)))"
  using judge_body_json [OF assms] by (elim exE, simp)+

text \<open>What a request's lines become: every name once, with its values joined.\<close>

definition lines_view :: "(string \<times> string) list \<Rightarrow> (ustr \<times> ustr) list" where
  "lines_view ls =
     map (\<lambda>n. (lit n, join (lit '', '') (map (\<lambda>l. lit (snd l)) (filter (\<lambda>l. fst l = n) ls)))) (remdups (map fst ls))"

lemma remdups_lit: "remdups (map lit ns) = map lit (remdups ns)"
  by (induction ns) auto

lemma headers_lower_lines:
  assumes "list_all (\<lambda>l. to_ascii_lowercase (lit (fst l)) = lit (fst l)) ls"
  shows "headers_lower (map header_line ls) = lines_view ls"
proof -
  have "header_map_ok (map header_line ls)" using assms by (simp add: header_map_ok_def header_line_def list_all_iff)
  moreover have "remdups (map fst (map header_line ls)) = map lit (remdups (map fst ls))"
    by (simp add: header_line_def comp_def remdups_lit [symmetric])
  moreover have "filter (\<lambda>l. fst l = n) ls \<noteq> []" if "n \<in> set (map fst ls)" for n using that by (auto simp: filter_empty_conv)
  ultimately show ?thesis
    by (auto simp: headers_lower_eq lines_view_def comp_def split: list.split)
qed

section \<open>Verdicts\<close>

text \<open>\<open>json(test_app(), get_with("/judge...", headers))\<close>.\<close>

definition test_judge ::
  "('r, 'l, 'v, 'k) app_libs \<Rightarrow> (u8 list \<Rightarrow> json) \<Rightarrow> ('r, 'k) request_world \<Rightarrow> 'k signer \<Rightarrow> string option \<Rightarrow>
     (string \<times> string) list \<Rightarrow> json" where
  "test_judge lib from_slice w sg q hs =
     json_answer lib from_slice w (test_config sg 1000000 0) (get_with ''/judge'' q hs)"

fun has_member :: "json \<Rightarrow> string \<Rightarrow> bool" where
  "has_member (J_Obj fs) name \<longleftrightarrow> map_of fs (lit name) \<noteq> None"
| "has_member _ name \<longleftrightarrow> False"

fun str_length :: "json \<Rightarrow> nat" where
  "str_length (J_Str t) = length t"
| "str_length _ = 0"

abbreviation j_text :: "string \<Rightarrow> json" where
  "j_text t \<equiv> J_Str (lit t)"

definition garbage_direct_ip_is_ignored ::
  "('r, 'l, 'v, 'k) app_libs \<Rightarrow> (u8 list \<Rightarrow> json) \<Rightarrow> ('r, 'k) request_world \<Rightarrow> 'k signer \<Rightarrow> bool" where
  "garbage_direct_ip_is_ignored lib from_slice w sg \<longleftrightarrow>
     member (test_judge lib from_slice w sg (Some ''direct_ip=not-an-ip'') [(''user-agent'', ''not-an-ip'')]) ''anonymity'' = j_text ''elite''"

definition judge_transparent ::
  "('r, 'l, 'v, 'k) app_libs \<Rightarrow> (u8 list \<Rightarrow> json) \<Rightarrow> ('r, 'k) request_world \<Rightarrow> 'k signer \<Rightarrow> bool" where
  "judge_transparent lib from_slice w sg \<longleftrightarrow>
     (let v = test_judge lib from_slice w sg (Some ''direct_ip=1.1.1.1'') [(''x-forwarded-for'', ''1.1.1.1, 5.6.7.8'')]
      in member v ''ip'' = j_text ''5.6.7.8'' \<and> member v ''anonymity'' = j_text ''transparent'' \<and>
         str_length (member v ''content_sha256'') = 64)"

definition duplicate_xff_is_joined_consistently ::
  "('r, 'l, 'v, 'k) app_libs \<Rightarrow> (u8 list \<Rightarrow> json) \<Rightarrow> ('r, 'k) request_world \<Rightarrow> 'k signer \<Rightarrow> bool" where
  "duplicate_xff_is_joined_consistently lib from_slice w sg \<longleftrightarrow>
     (let v = test_judge lib from_slice w sg (Some ''direct_ip=1.1.1.1'') [(''x-forwarded-for'', ''1.1.1.1''), (''x-forwarded-for'', ''9.9.9.9'')]
      in member v ''ip'' = j_text ''9.9.9.9'' \<and> member v ''xff_chain'' = J_Arr [j_text ''1.1.1.1''] \<and>
         member (member v ''headers'') ''x-forwarded-for'' = j_text ''1.1.1.1'' \<and>
         member v ''anonymity'' = j_text ''transparent'')"

definition edge_only_xff_is_not_echoed ::
  "('r, 'l, 'v, 'k) app_libs \<Rightarrow> (u8 list \<Rightarrow> json) \<Rightarrow> ('r, 'k) request_world \<Rightarrow> 'k signer \<Rightarrow> bool" where
  "edge_only_xff_is_not_echoed lib from_slice w sg \<longleftrightarrow>
     list_all (\<lambda>path.
       (let v = json_answer lib from_slice w (test_config sg 1000000 0) (get_with path None [(''x-forwarded-for'', ''5.6.7.8'')])
        in member v ''ip'' = j_text ''5.6.7.8'' \<and> \<not> has_member (member v ''headers'') ''x-forwarded-for'' \<and>
           member v ''xff_chain'' = J_Arr [])) [''/judge'', ''/headers'']"

definition line_feed_in_direct_ip_counts_as_absent_for_the_verdict ::
  "('r, 'l, 'v, 'k) app_libs \<Rightarrow> (u8 list \<Rightarrow> json) \<Rightarrow> ('r, 'k) request_world \<Rightarrow> 'k signer \<Rightarrow> bool" where
  "line_feed_in_direct_ip_counts_as_absent_for_the_verdict lib from_slice w sg \<longleftrightarrow>
     (let leak = [(''x-forwarded-for'', ''1.1.1.1''), (''x-forwarded-for'', ''9.9.9.9'')];
          verdict = (\<lambda>q. member (test_judge lib from_slice w sg q leak) ''anonymity'')
      in verdict (Some ''direct_ip=1.1.1.1'') = j_text ''transparent'' \<and>
         verdict (Some ''direct_ip=1.1.1.1%0A'') = verdict None)"

definition judge_elite_no_leak ::
  "('r, 'l, 'v, 'k) app_libs \<Rightarrow> (u8 list \<Rightarrow> json) \<Rightarrow> ('r, 'k) request_world \<Rightarrow> 'k signer \<Rightarrow> bool" where
  "judge_elite_no_leak lib from_slice w sg \<longleftrightarrow>
     member (test_judge lib from_slice w sg (Some ''direct_ip=1.1.1.1'') []) ''anonymity'' = j_text ''elite''"

definition edge_headers_are_not_attributed_to_the_proxy ::
  "('r, 'l, 'v, 'k) app_libs \<Rightarrow> (u8 list \<Rightarrow> json) \<Rightarrow> ('r, 'k) request_world \<Rightarrow> 'k signer \<Rightarrow> bool" where
  "edge_headers_are_not_attributed_to_the_proxy lib from_slice w sg \<longleftrightarrow>
     (let req = get_with ''/judge'' (Some ''direct_ip=1.1.1.1'') [(''x-real-ip'', ''5.6.7.8''), (''x-forwarded-for'', ''5.6.7.8'')];
          v = json_answer lib from_slice w (test_config sg 1000000 0) req;
          v' = json_answer lib from_slice w ((test_config sg 1000000 0)\<lparr>config.edge_headers := [lit ''x-real-ip'']\<rparr>) req
      in member v ''anonymity'' = j_text ''anonymous'' \<and>
         member v' ''anonymity'' = j_text ''elite'' \<and> \<not> has_member (member v' ''headers'') ''x-real-ip'')"

definition judge_via_cf_tunnel_transparent ::
  "('r, 'l, 'v, 'k) app_libs \<Rightarrow> (u8 list \<Rightarrow> json) \<Rightarrow> ('r, 'k) request_world \<Rightarrow> 'k signer \<Rightarrow> bool" where
  "judge_via_cf_tunnel_transparent lib from_slice w sg \<longleftrightarrow>
     (let v = test_judge lib from_slice w sg (Some ''direct_ip=1.1.1.1'')
            [(''cf-connecting-ip'', ''5.6.7.8''), (''x-forwarded-for'', ''1.1.1.1, 5.6.7.8''), (''cf-ray'', ''abc123'')]
      in member v ''ip'' = j_text ''5.6.7.8'' \<and> member v ''anonymity'' = j_text ''transparent'')"

definition judge_via_cf_tunnel_direct_is_elite ::
  "('r, 'l, 'v, 'k) app_libs \<Rightarrow> (u8 list \<Rightarrow> json) \<Rightarrow> ('r, 'k) request_world \<Rightarrow> 'k signer \<Rightarrow> bool" where
  "judge_via_cf_tunnel_direct_is_elite lib from_slice w sg \<longleftrightarrow>
     (let v = test_judge lib from_slice w sg (Some ''direct_ip=1.1.1.1'')
            [(''cf-connecting-ip'', ''1.1.1.1''), (''x-forwarded-for'', ''1.1.1.1''), (''cf-ray'', ''abc123''), (''cf-ipcountry'', ''DE'')]
      in member v ''ip'' = j_text ''1.1.1.1'' \<and> member v ''anonymity'' = j_text ''elite'')"

definition judge_unknown_xff_behind_proxy_is_anonymous ::
  "('r, 'l, 'v, 'k) app_libs \<Rightarrow> (u8 list \<Rightarrow> json) \<Rightarrow> ('r, 'k) request_world \<Rightarrow> 'k signer \<Rightarrow> bool" where
  "judge_unknown_xff_behind_proxy_is_anonymous lib from_slice w sg \<longleftrightarrow>
     (let v = test_judge lib from_slice w sg (Some ''direct_ip=1.2.3.4'') [(''x-forwarded-for'', ''unknown, 5.6.7.8'')]
      in member v ''ip'' = j_text ''5.6.7.8'' \<and> member v ''xff_chain'' = J_Arr [] \<and>
         member (member v ''headers'') ''x-forwarded-for'' = j_text ''unknown'' \<and>
         member v ''anonymity'' = j_text ''anonymous'')"

definition judge_non_ascii_header_still_detects_ip_leak ::
  "('r, 'l, 'v, 'k) app_libs \<Rightarrow> (u8 list \<Rightarrow> json) \<Rightarrow> ('r, 'k) request_world \<Rightarrow> 'k signer \<Rightarrow> bool" where
  "judge_non_ascii_header_still_detects_ip_leak lib from_slice w sg \<longleftrightarrow>
     (let req = get_with ''/judge'' (Some ''direct_ip=1.2.3.4'') [(''x-forwarded-for'', ''5.6.7.8'')];
          info = as_bytes (lit ''proxy '') @ [0xC3, 0xA9] @ as_bytes (lit '' 1.2.3.4'');
          req = req\<lparr>req_headers := req_headers req @ [(lit ''x-client-info'', info)]\<rparr>
      in member (json_answer lib from_slice w (test_config sg 1000000 0) req) ''anonymity'' = j_text ''transparent'')"

subsection \<open>They hold\<close>

lemma router_libs_judge:
  assumes "router_libs lib from_slice"
  shows "parse_query lib (map_option lit None) = Inr \<lparr>direct_ip = None, nonce = None\<rparr>"
    "parse_query lib (map_option lit (Some ''direct_ip=1.1.1.1'')) = Inr \<lparr>direct_ip = Some (lit ''1.1.1.1''), nonce = None\<rparr>"
    "parse_query lib (map_option lit (Some ''direct_ip=1.2.3.4'')) = Inr \<lparr>direct_ip = Some (lit ''1.2.3.4''), nonce = None\<rparr>"
    "parse_query lib (map_option lit (Some ''direct_ip=not-an-ip'')) = Inr \<lparr>direct_ip = Some (lit ''not-an-ip''), nonce = None\<rparr>"
    "parse_query lib (map_option lit (Some ''direct_ip=1.1.1.1%0A'')) =
       Inr \<lparr>direct_ip = Some (lit ''1.1.1.1'' @ [10]), nonce = None\<rparr>"
  using assms by (simp_all add: router_libs_def)

lemma test_config_fields [simp]:
  "rate_per_minute (test_config sg n d) = n" "config.rdns_timeout (test_config sg n d) = d"
  "config.trust_proxy (test_config sg n d)" "config.trust_cf (test_config sg n d)"
  "config.edge_headers (test_config sg n d) = []" "config.metrics_token (test_config sg n d) = None"
  by (simp_all add: test_config_def)

text \<open>What the judge says, as the decision logic over the lines of the request.\<close>

definition client_of :: "('r, 'l, 'v, 'k) app_libs \<Rightarrow> 'k config \<Rightarrow> (string \<times> string) list \<Rightarrow> ustr" where
  "client_of lib cfg hs = self_ip (test_state lib cfg) (map header_line hs) peer_127"

definition view_of :: "('r, 'l, 'v, 'k) app_libs \<Rightarrow> 'k config \<Rightarrow> (string \<times> string) list \<Rightarrow> (ustr \<times> ustr) list \<times> ustr list" where
  "view_of lib cfg hs = proxy_view (test_state lib cfg) (map header_line hs) (client_of lib cfg hs)"

lemma judge_reads_lines:
  fixes lib :: "('r, 'l, 'v, 'k) app_libs" and hs q
  assumes "calm_world w" and "router_libs lib from_slice" and "parse_query lib (map_option lit q) = Inr p"
    and "rate_per_minute cfg \<noteq> 0" and "config.rdns_timeout cfg = 0"
  defines "v \<equiv> json_answer lib from_slice w cfg (get_with ''/judge'' q hs)"
  shows "member v ''ip'' = J_Str (client_of lib cfg hs)" "member v ''headers'' = json_map (fst (view_of lib cfg hs))"
    "member v ''xff_chain'' = json_strs (snd (view_of lib cfg hs))"
    "member v ''anonymity'' = J_Str (anonymity_level (fst (view_of lib cfg hs))
       (Option.bind (without_lf (direct_ip p)) normalize_host) (config.trust_cf cfg))"
    "str_length (member v ''content_sha256'') = 64"
proof -
  have lib: "from_slice (json_text lib j) = j" "length (sha256 (signing_lib lib) m) = 32" for j m
    using assms(2) by (simp_all add: router_libs_def)
  note judge_fields [OF assms(1,4,5) lib(1) assms(3) client_of_def [symmetric], of hs "fst (view_of lib cfg hs)" "snd (view_of lib cfg hs)"]
  then show "member v ''ip'' = J_Str (client_of lib cfg hs)" "member v ''headers'' = json_map (fst (view_of lib cfg hs))"
    "member v ''xff_chain'' = json_strs (snd (view_of lib cfg hs))"
    "member v ''anonymity'' = J_Str (anonymity_level (fst (view_of lib cfg hs))
       (Option.bind (without_lf (direct_ip p)) normalize_host) (config.trust_cf cfg))"
    "str_length (member v ''content_sha256'') = 64"
    by (simp_all add: v_def content_sha256_def length_hex_lower lib(2) view_of_def)
qed

text \<open>The client and the view of a request, from its lines.\<close>

definition seen :: "ustr list \<Rightarrow> (string \<times> string) list \<Rightarrow> ustr \<Rightarrow> (ustr \<times> ustr) list \<times> ustr list" where
  "seen edges hs me =
     (let view = lines_view hs;
          entries = pre_edge_xff (map_of view (lit ''x-forwarded-for'')) me True True (map_of view (lit ''cf-connecting-ip''));
          view = filter (\<lambda>l. fst l \<notin> set edges) view
      in (if entries = [] then map_remove (lit ''x-forwarded-for'') view
          else map_insert (lit ''x-forwarded-for'') (join (lit '', '') entries) view, normalize_chain entries))"

definition lower_names :: "(string \<times> string) list \<Rightarrow> bool" where
  "lower_names hs \<longleftrightarrow> list_all (\<lambda>l. to_ascii_lowercase (lit (fst l)) = lit (fst l)) hs"

lemma view_of_seen:
  assumes "lower_names hs" and "config.trust_proxy cfg" and "config.trust_cf cfg"
  shows "view_of lib cfg hs = seen (config.edge_headers cfg) hs (client_of lib cfg hs)"
  using assms by (auto simp: view_of_def proxy_view_def seen_def lower_names_def headers_lower_lines Let_def)

lemma client_of_eq:
  assumes "config.trust_proxy cfg" and "config.trust_cf cfg"
  shows "client_of lib cfg hs =
    client_ip (joined_header (map header_line hs) (lit ''cf-connecting-ip''))
      (joined_header (map header_line hs) (lit ''x-forwarded-for'')) (lit ''127.0.0.1'') True True"
  using assms by (simp add: client_of_def self_ip_def peer_127_def addr_eval str_eval Let_def)

text \<open>The requests of the tests. The bytes of the last one are UTF-8.\<close>

definition proxy_info :: string where
  "proxy_info = ''proxy '' @ [CHR 0xE9] @ '' 1.2.3.4''"

lemma proxy_info_bytes: "as_bytes (lit proxy_info) = as_bytes (lit ''proxy '') @ [0xC3, 0xA9] @ as_bytes (lit '' 1.2.3.4'')"
  by (simp add: proxy_info_def as_bytes_def lit_def utf8_values_def utf8_char_def)

lemma loopback_read: "normalize_host (lit ''127.0.0.1'') = Some (lit ''127.0.0.1'')"
  by (simp add: clean_host_def normalize_host_def addr_eval str_eval)

lemmas deciding = clean_host_def is_ascii_digit_def judging loopback_read [simplified lit_Cons lit_Nil, simplified]

lemma requests_lower:
  "lower_names [(''x-forwarded-for'', ''1.1.1.1, 5.6.7.8'')]"
  "lower_names [(''x-forwarded-for'', ''1.1.1.1''), (''x-forwarded-for'', ''9.9.9.9'')]"
  "lower_names [(''x-forwarded-for'', ''5.6.7.8'')]"
  "lower_names [(''user-agent'', ''not-an-ip'')]"
  "lower_names []"
  "lower_names [(''cf-connecting-ip'', ''5.6.7.8''), (''x-forwarded-for'', ''1.1.1.1, 5.6.7.8''), (''cf-ray'', ''abc123'')]"
  "lower_names [(''cf-connecting-ip'', ''1.1.1.1''), (''x-forwarded-for'', ''1.1.1.1''), (''cf-ray'', ''abc123''), (''cf-ipcountry'', ''DE'')]"
  "lower_names [(''x-forwarded-for'', ''unknown, 5.6.7.8'')]"
  "lower_names [(''x-real-ip'', ''5.6.7.8''), (''x-forwarded-for'', ''5.6.7.8'')]"
  "lower_names [(''x-forwarded-for'', ''5.6.7.8''), (''x-client-info'', proxy_info)]"
  by (simp_all add: lower_names_def str_eval)

lemma clients_seen:
  assumes "config.trust_proxy cfg" and "config.trust_cf cfg"
  shows
    "client_of lib cfg [(''x-forwarded-for'', ''1.1.1.1, 5.6.7.8'')] = lit ''5.6.7.8''"
    "client_of lib cfg [(''x-forwarded-for'', ''1.1.1.1''), (''x-forwarded-for'', ''9.9.9.9'')] = lit ''9.9.9.9''"
    "client_of lib cfg [(''x-forwarded-for'', ''5.6.7.8'')] = lit ''5.6.7.8''"
    "client_of lib cfg [(''user-agent'', ''not-an-ip'')] = lit ''127.0.0.1''"
    "client_of lib cfg [] = lit ''127.0.0.1''"
    "client_of lib cfg [(''cf-connecting-ip'', ''5.6.7.8''), (''x-forwarded-for'', ''1.1.1.1, 5.6.7.8''), (''cf-ray'', ''abc123'')] = lit ''5.6.7.8''"
    "client_of lib cfg [(''cf-connecting-ip'', ''1.1.1.1''), (''x-forwarded-for'', ''1.1.1.1''), (''cf-ray'', ''abc123''), (''cf-ipcountry'', ''DE'')] = lit ''1.1.1.1''"
    "client_of lib cfg [(''x-forwarded-for'', ''unknown, 5.6.7.8'')] = lit ''5.6.7.8''"
    "client_of lib cfg [(''x-real-ip'', ''5.6.7.8''), (''x-forwarded-for'', ''5.6.7.8'')] = lit ''5.6.7.8''"
    "client_of lib cfg [(''x-forwarded-for'', ''5.6.7.8''), (''x-client-info'', proxy_info)] = lit ''5.6.7.8''"
  unfolding client_of_eq [OF assms] joined_header_lines
  by (simp_all add: client_ip_def deciding)

lemma views_seen:
  "seen [] [(''x-forwarded-for'', ''1.1.1.1, 5.6.7.8'')] (lit ''5.6.7.8'') =
     ([(lit ''x-forwarded-for'', lit ''1.1.1.1'')], [lit ''1.1.1.1''])"
  "seen [] [(''x-forwarded-for'', ''1.1.1.1''), (''x-forwarded-for'', ''9.9.9.9'')] (lit ''9.9.9.9'') =
     ([(lit ''x-forwarded-for'', lit ''1.1.1.1'')], [lit ''1.1.1.1''])"
  "seen [] [(''x-forwarded-for'', ''5.6.7.8'')] (lit ''5.6.7.8'') =
     ([], [])"
  "seen [] [(''user-agent'', ''not-an-ip'')] (lit ''127.0.0.1'') =
     ([(lit ''user-agent'', lit ''not-an-ip'')], [])"
  "seen [] [] (lit ''127.0.0.1'') =
     ([], [])"
  "seen [] [(''cf-connecting-ip'', ''5.6.7.8''), (''x-forwarded-for'', ''1.1.1.1, 5.6.7.8''), (''cf-ray'', ''abc123'')] (lit ''5.6.7.8'') =
     ([(lit ''x-forwarded-for'', lit ''1.1.1.1''), (lit ''cf-connecting-ip'', lit ''5.6.7.8''), (lit ''cf-ray'', lit ''abc123'')], [lit ''1.1.1.1''])"
  "seen [] [(''cf-connecting-ip'', ''1.1.1.1''), (''x-forwarded-for'', ''1.1.1.1''), (''cf-ray'', ''abc123''), (''cf-ipcountry'', ''DE'')] (lit ''1.1.1.1'') =
     ([(lit ''cf-connecting-ip'', lit ''1.1.1.1''), (lit ''cf-ray'', lit ''abc123''), (lit ''cf-ipcountry'', lit ''DE'')], [])"
  "seen [] [(''x-forwarded-for'', ''unknown, 5.6.7.8'')] (lit ''5.6.7.8'') =
     ([(lit ''x-forwarded-for'', lit ''unknown'')], [])"
  "seen [] [(''x-real-ip'', ''5.6.7.8''), (''x-forwarded-for'', ''5.6.7.8'')] (lit ''5.6.7.8'') =
     ([(lit ''x-real-ip'', lit ''5.6.7.8'')], [])"
  "seen [] [(''x-forwarded-for'', ''5.6.7.8''), (''x-client-info'', proxy_info)] (lit ''5.6.7.8'') =
     ([(lit ''x-client-info'', lit proxy_info)], [])"
  "seen [lit ''x-real-ip''] [(''x-real-ip'', ''5.6.7.8''), (''x-forwarded-for'', ''5.6.7.8'')] (lit ''5.6.7.8'') = ([], [])"
  by (simp_all add: seen_def lines_view_def map_remove_def proxy_info_def deciding)

lemma verdicts_seen:
  "anonymity_level [(lit ''user-agent'', lit ''not-an-ip'')] None True = lit ''elite''"
  "anonymity_level [(lit ''x-forwarded-for'', lit ''1.1.1.1'')] (Some (lit ''1.1.1.1'')) True = lit ''transparent''"
  "anonymity_level [(lit ''x-forwarded-for'', lit ''1.1.1.1'')] None True = lit ''anonymous''"
  "anonymity_level [] (Some (lit ''1.1.1.1'')) True = lit ''elite''"
  "anonymity_level [(lit ''x-real-ip'', lit ''5.6.7.8'')] (Some (lit ''1.1.1.1'')) True = lit ''anonymous''"
  "anonymity_level [(lit ''x-forwarded-for'', lit ''1.1.1.1''), (lit ''cf-connecting-ip'', lit ''5.6.7.8''), (lit ''cf-ray'', lit ''abc123'')] (Some (lit ''1.1.1.1'')) True = lit ''transparent''"
  "anonymity_level [(lit ''cf-connecting-ip'', lit ''1.1.1.1''), (lit ''cf-ray'', lit ''abc123''), (lit ''cf-ipcountry'', lit ''DE'')] (Some (lit ''1.1.1.1'')) True = lit ''elite''"
  "anonymity_level [(lit ''x-forwarded-for'', lit ''unknown'')] (Some (lit ''1.2.3.4'')) True = lit ''anonymous''"
  "anonymity_level [(lit ''x-client-info'', lit proxy_info)] (Some (lit ''1.2.3.4'')) True = lit ''transparent''"
  by (simp_all add: proxy_info_def deciding)

text \<open>The address the query names, if the query is well-formed.\<close>

definition named_address :: "('r, 'l, 'v, 'k) app_libs \<Rightarrow> string option \<Rightarrow> ustr option option" where
  "named_address lib q =
     (case parse_query lib (map_option lit q) of
        Inl _ \<Rightarrow> None
      | Inr p \<Rightarrow> Some (Option.bind (without_lf (direct_ip p)) normalize_host))"

lemma addresses_named:
  assumes "router_libs lib from_slice"
  shows "named_address lib None = Some None"
    "named_address lib (Some ''direct_ip=1.1.1.1'') = Some (Some (lit ''1.1.1.1''))"
    "named_address lib (Some ''direct_ip=1.2.3.4'') = Some (Some (lit ''1.2.3.4''))"
    "named_address lib (Some ''direct_ip=not-an-ip'') = Some None"
    "named_address lib (Some ''direct_ip=1.1.1.1%0A'') = Some None"
proof -
  have "10 \<notin> set (lit ''1.1.1.1'')" "10 \<notin> set (lit ''1.2.3.4'')" "10 \<notin> set (lit ''not-an-ip'')" by (simp_all add: str_eval)
  then show "named_address lib None = Some None"
    "named_address lib (Some ''direct_ip=1.1.1.1'') = Some (Some (lit ''1.1.1.1''))"
    "named_address lib (Some ''direct_ip=1.2.3.4'') = Some (Some (lit ''1.2.3.4''))"
    "named_address lib (Some ''direct_ip=not-an-ip'') = Some None"
    "named_address lib (Some ''direct_ip=1.1.1.1%0A'') = Some None"
    using assms by (simp_all add: router_libs_def named_address_def without_lf_def hosts_read words_are_no_hosts)
qed

text \<open>The bodies of \<open>/judge\<close> over these tables.\<close>

lemma judge_sees:
  fixes lib :: "('r, 'l, 'v, 'k) app_libs" and hs q cfg
  assumes "calm_world w" and "router_libs lib from_slice" and "lower_names hs" and "named_address lib q \<noteq> None"
    and "rate_per_minute cfg \<noteq> 0" and "config.rdns_timeout cfg = 0" and "config.trust_proxy cfg" and "config.trust_cf cfg"
  defines "v \<equiv> json_answer lib from_slice w cfg (get_with ''/judge'' q hs)"
    and "sent \<equiv> seen (config.edge_headers cfg) hs (client_of lib cfg hs)"
  shows "member v ''ip'' = J_Str (client_of lib cfg hs)" "member v ''headers'' = json_map (fst sent)"
    "member v ''xff_chain'' = json_strs (snd sent)"
    "member v ''anonymity'' = J_Str (anonymity_level (fst sent) (the (named_address lib q)) True)"
    "str_length (member v ''content_sha256'') = 64"
proof -
  obtain p where p: "parse_query lib (map_option lit q) = Inr p"
      "the (named_address lib q) = Option.bind (without_lf (direct_ip p)) normalize_host"
    using assms(4) by (auto simp: named_address_def split: sum.splits)
  note answer = judge_reads_lines [OF assms(1,2) p(1) assms(5,6), of hs] view_of_seen [OF assms(3,7,8), of lib]
  show "member v ''ip'' = J_Str (client_of lib cfg hs)" "member v ''headers'' = json_map (fst sent)"
    "member v ''xff_chain'' = json_strs (snd sent)"
    "member v ''anonymity'' = J_Str (anonymity_level (fst sent) (the (named_address lib q)) True)"
    "str_length (member v ''content_sha256'') = 64"
    unfolding v_def sent_def by (simp_all only: answer p(2) assms(8))
qed

lemma headers_seen:
  assumes "calm_world w" and "router_libs lib from_slice" and "rate_per_minute cfg \<noteq> 0"
  shows "json_answer lib from_slice w cfg (get_with ''/headers'' None hs) =
    J_Obj [(lit ''ip'', J_Str (client_of lib cfg hs)), (lit ''headers'', json_map (fst (view_of lib cfg hs))),
      (lit ''xff_chain'', json_strs (snd (view_of lib cfg hs)))]"
proof -
  let ?req = "get_with ''/headers'' None hs"
  let ?s = "served_state w (test_state lib cfg) ?req"
  have "headers_echo lib ?s (V4 (Ipv4Addr 127 0 0 1), 12345) (map header_line hs) = json_response lib 200
    (J_Obj [(lit ''ip'', J_Str (client_of lib cfg hs)), (lit ''headers'', json_map (fst (view_of lib cfg hs))),
      (lit ''xff_chain'', json_strs (snd (view_of lib cfg hs)))])"
    by (simp add: headers_echo_def client_of_def view_of_def peer_127_def Let_def split_def
        self_ip_settings [OF served_settings] proxy_view_settings [OF served_settings])
  then have ready: "snd (routes lib w ?req ?s) = Ready (json_response lib 200
    (J_Obj [(lit ''ip'', J_Str (client_of lib cfg hs)), (lit ''headers'', json_map (fst (view_of lib cfg hs))),
      (lit ''xff_chain'', json_strs (snd (view_of lib cfg hs)))]))"
    by (simp add: routes_def handle_def with_peer_def)
  have "\<not> is_monitoring (req_path ?req)" by (simp add: is_monitoring_def)
  from oneshot_routes [OF assms(1,3) this ready] assms(2) show ?thesis
    by (simp add: json_answer_def hardened_def router_libs_def)
qed

lemma with_info:
  "(get_with path q hs)\<lparr>req_headers := map header_line hs @
     [(lit ''x-client-info'', as_bytes (lit ''proxy '') @ [0xC3, 0xA9] @ as_bytes (lit '' 1.2.3.4''))]\<rparr> =
   get_with path q (hs @ [(''x-client-info'', proxy_info)])"
  by (simp only: get_with_def proxy_info_bytes [symmetric]) (simp add: header_line_def)

lemmas verdict_tests =
  garbage_direct_ip_is_ignored_def
  judge_transparent_def
  duplicate_xff_is_joined_consistently_def
  edge_only_xff_is_not_echoed_def
  line_feed_in_direct_ip_counts_as_absent_for_the_verdict_def
  judge_elite_no_leak_def
  edge_headers_are_not_attributed_to_the_proxy_def
  judge_via_cf_tunnel_transparent_def
  judge_via_cf_tunnel_direct_is_elite_def
  judge_unknown_xff_behind_proxy_is_anonymous_def
  judge_non_ascii_header_still_detects_ip_leak_def

lemma verdict_tests_pass:
  assumes "calm_world w" and "router_libs lib from_slice"
  shows "garbage_direct_ip_is_ignored lib from_slice w sg"
    "judge_transparent lib from_slice w sg"
    "duplicate_xff_is_joined_consistently lib from_slice w sg"
    "edge_only_xff_is_not_echoed lib from_slice w sg"
    "line_feed_in_direct_ip_counts_as_absent_for_the_verdict lib from_slice w sg"
    "judge_elite_no_leak lib from_slice w sg"
    "edge_headers_are_not_attributed_to_the_proxy lib from_slice w sg"
    "judge_via_cf_tunnel_transparent lib from_slice w sg"
    "judge_via_cf_tunnel_direct_is_elite lib from_slice w sg"
    "judge_unknown_xff_behind_proxy_is_anonymous lib from_slice w sg"
    "judge_non_ascii_header_still_detects_ip_leak lib from_slice w sg"
  by (simp_all only: verdict_tests test_judge_def Let_def get_with_fields with_info)
    (simp_all add: judge_sees [OF assms] headers_seen [OF assms] view_of_seen addresses_named [OF assms(2)] requests_lower
      clients_seen views_seen verdicts_seen json_map_def json_strs_def)

end
