(* ===== verification/Metrics_Tests.thy ===== *)
theory Metrics_Tests
  imports Metrics_Text
begin

text \<open>
  The unit test of \<open>src/metrics.rs\<close> as a boolean definition over \<open>render\<close>, and the lines of the
  text in general: every counter and both gauges are shown with their values.
\<close>

definition render_exposes_counters_and_gauges :: bool where
  "render_exposes_counters_and_gauges \<longleftrightarrow>
     (let m = metrics_default;
          m = m\<lparr>requests := inc (requests m)\<rparr>;
          m = m\<lparr>requests := inc (requests m)\<rparr>;
          text = render m True (lit ''1.2.3'')
      in str_contains text (lit ''# TYPE proxpulse_requests_total counter'' @ [10] @ lit ''proxpulse_requests_total 2'' @ [10]) \<and>
         str_contains text (lit ''proxpulse_rate_limited_total 0'' @ [10]) \<and>
         str_contains text (lit ''proxpulse_geo_ready 1'' @ [10]) \<and>
         str_contains text (lit ''proxpulse_build_info{version='' @ [34] @ lit ''1.2.3'' @ [34] @ lit ''} 1'' @ [10]))"

lemma str_contains_within: "str_contains s (a @ n @ b) \<Longrightarrow> str_contains s n"
  unfolding str_contains_iff by (metis append.assoc)

lemma counter_shown:
  assumes "(name, help, v) \<in> set (counters m)"
  shows "str_contains (render m ready version) (lit ''# TYPE '' @ name @ lit '' counter'' @ [10] @ name @ [32] @ show_nat (unat v) @ [10])"
proof -
  obtain xs ys where "counters m = xs @ (name, help, v) # ys" using assms by (meson split_list)
  moreover obtain rest where "render m ready version = concat (map render_counter (counters m)) @ rest"
    unfolding render_def by blast
  ultimately have "render m ready version = (concat (map render_counter xs) @ lit ''# HELP '' @ name @ [32] @ help @ [10]) @
      (lit ''# TYPE '' @ name @ lit '' counter'' @ [10] @ name @ [32] @ show_nat (unat v) @ [10]) @
      concat (map render_counter ys) @ rest"
    by (simp add: render_counter_def)
  then show ?thesis unfolding str_contains_iff by blast
qed

lemma gauges_shown:
  "str_contains (render m ready version) (lit ''proxpulse_geo_ready '' @ show_nat (if ready then 1 else 0) @ [10])"
  "str_contains (render m ready version) (lit ''proxpulse_build_info{version='' @ [34] @ version @ [34] @ lit ''} 1'' @ [10])"
proof -
  obtain a b where "render m ready version = a @ (lit ''proxpulse_geo_ready '' @ show_nat (if ready then 1 else 0) @ [10]) @ b"
    unfolding render_def by (metis append.assoc)
  then show "str_contains (render m ready version) (lit ''proxpulse_geo_ready '' @ show_nat (if ready then 1 else 0) @ [10])"
    unfolding str_contains_iff by blast
  obtain c where "render m ready version = c @ (lit ''proxpulse_build_info{version='' @ [34] @ version @ [34] @ lit ''} 1'' @ [10]) @ []"
    unfolding render_def by (metis append.assoc append_Nil2)
  then show "str_contains (render m ready version) (lit ''proxpulse_build_info{version='' @ [34] @ version @ [34] @ lit ''} 1'' @ [10])"
    unfolding str_contains_iff by blast
qed

lemma digits_shown: "show_nat 0 = lit ''0''" "show_nat (Suc 0) = lit ''1''" "show_nat 2 = lit ''2''"
  by (simp_all add: show_nat_def show_radix.simps digit_char_def str_eval)

lemma metrics_unit_test_holds: "render_exposes_counters_and_gauges"
proof -
  let ?m = "metrics_default\<lparr>requests := 2\<rparr>"
  have "(lit ''proxpulse_requests_total'', lit ''Total HTTP requests handled.'', 2) \<in> set (counters ?m)"
    "(lit ''proxpulse_rate_limited_total'', lit ''Requests rejected by the rate limiter.'', 0) \<in> set (counters ?m)"
    by (simp_all add: counters_def metrics_default_def)
  note lines = this [THEN counter_shown, of True "lit ''1.2.3''"]
  have "str_contains (render ?m True (lit ''1.2.3''))
      (lit ''# TYPE proxpulse_requests_total counter'' @ [10] @ lit ''proxpulse_requests_total 2'' @ [10])"
    using lines(1) by (simp add: digits_shown str_eval)
  moreover have "str_contains (render ?m True (lit ''1.2.3'')) (lit ''proxpulse_rate_limited_total 0'' @ [10])"
    using str_contains_within [of _ "lit ''# TYPE proxpulse_rate_limited_total counter'' @ [10]" _ "[]"] lines(2)
    by (simp add: digits_shown str_eval)
  moreover have "str_contains (render ?m True (lit ''1.2.3'')) (lit ''proxpulse_geo_ready 1'' @ [10])"
    using gauges_shown(1) [of ?m True "lit ''1.2.3''"] by (simp add: digits_shown str_eval)
  ultimately show ?thesis
    using gauges_shown(2) [of ?m True "lit ''1.2.3''"]
    by (simp add: render_exposes_counters_and_gauges_def metrics_default_def inc_def)
qed

end
