(* ===== verification/Route_Tests.thy ===== *)
theory Route_Tests
  imports App_Tests Limit_Tests Metrics_Tests
begin

text \<open>
  The router tests of \<open>src/app.rs\<close> that are not about a verdict: the limiter and the exempt probes,
  the response headers, the metrics token, the fixed texts, and the addresses reverse DNS skips.
  Each is a boolean definition over \<open>build_app\<close> or \<open>maybe_rdns\<close> with the proof that it holds.
\<close>

section \<open>Requests to one application\<close>

text \<open>Requests answered one after the other by clones of the same application.\<close>

fun responses ::
  "('r, 'l, 'v, 'k) app_libs \<Rightarrow> ('r, 'k) request_world \<Rightarrow> ('r, 'k) app_state \<Rightarrow> request list \<Rightarrow> response list" where
  "responses lib w s [] = []"
| "responses lib w s (req # reqs) = (let (s', res) = build_app lib w req s in res # responses lib w s' reqs)"

fun app_after ::
  "('r, 'l, 'v, 'k) app_libs \<Rightarrow> ('r, 'k) request_world \<Rightarrow> ('r, 'k) app_state \<Rightarrow> request list \<Rightarrow> ('r, 'k) app_state" where
  "app_after lib w s [] = s"
| "app_after lib w s (req # reqs) = app_after lib w (fst (build_app lib w req s)) reqs"

definition header_text :: "('r, 'l, 'v, 'k) app_libs \<Rightarrow> response \<Rightarrow> string \<Rightarrow> ustr option" where
  "header_text lib res name =
     (case header_values (resp_headers res) (lit name) of [] \<Rightarrow> None | v # _ \<Rightarrow> header_to_str lib v)"

definition rate_limit_blocks_and_healthz_exempt ::
  "('r, 'l, 'v, 'k) app_libs \<Rightarrow> ('r, 'k) request_world \<Rightarrow> 'k signer \<Rightarrow> bool" where
  "rate_limit_blocks_and_healthz_exempt lib w sg \<longleftrightarrow>
     (let app = test_state lib (test_config sg 2 0);
          get_ip = get_with ''/ip'' None [(''x-forwarded-for'', ''9.9.9.9'')];
          rs = responses lib w app (replicate 3 get_ip @ replicate 5 (get_with ''/healthz'' None []));
          limited = rs ! 2
      in map resp_status rs = [200, 200, 429] @ replicate 5 200 \<and>
         header_text lib limited ''retry-after'' = Some (lit ''30'') \<and>
         header_text lib limited ''cache-control'' = Some (lit ''no-store''))"

definition rate_limit_is_not_bypassed_by_rotating_ipv6_in_a_64 ::
  "('r, 'l, 'v, 'k) app_libs \<Rightarrow> ('r, 'k) request_world \<Rightarrow> 'k signer \<Rightarrow> bool" where
  "rate_limit_is_not_bypassed_by_rotating_ipv6_in_a_64 lib w sg \<longleftrightarrow>
     (let app = test_state lib (test_config sg 2 0);
          get_from = (\<lambda>ip. get_with ''/ip'' None [(''x-forwarded-for'', ip)]);
          rs = responses lib w app (map get_from
            [''2001:db8:1:2::1'', ''2001:db8:1:2::2'', ''2001:db8:1:2:ffff::3'', ''2001:db8:1:3::1''])
      in map resp_status rs = [200, 200, 429, 200])"

lemma responses_append:
  "responses lib w s (xs @ ys) = responses lib w s xs @ responses lib w (app_after lib w s xs) ys"
  by (induction xs arbitrary: s) (simp_all add: Let_def split_def)

lemma length_responses [simp]: "length (responses lib w s reqs) = length reqs"
  by (induction reqs arbitrary: s) (simp_all add: Let_def split_def)

text \<open>The probes are exempt: whatever the state, \<open>/healthz\<close> says 200.\<close>

lemma healthz_answers: "map resp_status (responses lib w s (replicate n (get_with ''/healthz'' None []))) = replicate n 200"
proof (induction n arbitrary: s)
  case (Suc n)
  have "resp_status (snd (build_app lib w (get_with ''/healthz'' None []) s)) = 200"
    by (simp add: build_app_def split_def monitoring_direct is_monitoring_def timeout_mw_def routes_def handle_def healthz_def)
  with Suc show ?case by (simp add: Let_def split_def)
qed simp

text \<open>
  Requests to \<open>/ip\<close> are answered as the limiter decides: the statuses and the headers of their
  answers are those of a run of the limiter alone.
\<close>

definition limiter_outcome :: "u64 option \<Rightarrow> nat \<times> u8 list list \<times> u8 list list" where
  "limiter_outcome v =
     (case v of None \<Rightarrow> (200, [], [as_bytes (lit ''no-store'')])
      | Some secs \<Rightarrow> (429, [as_bytes (show_nat (unat secs))], [as_bytes (lit ''no-store'')]))"

definition outcome :: "response \<Rightarrow> nat \<times> u8 list list \<times> u8 list list" where
  "outcome res = (resp_status res, header_values (resp_headers res) (lit ''retry-after''),
     header_values (resp_headers res) (lit ''cache-control''))"

lemma ip_limited:
  assumes "calm_world w" and "0 < concurrency s"
    and "rate_check id (rate_limit s) (self_ip s (map header_line hs) peer_127) (clock0 w) (clock1 w) = (rl, v)"
  shows "rate_limit_mw lib w (concurrency_mw lib w (timeout_mw lib (routes lib w))) (get_with ''/ip'' None hs) s =
    (let s = s\<lparr>rate_limit := rl\<rparr>
     in case v of
          None \<Rightarrow> (s, ip_ep lib (s\<lparr>concurrency := concurrency s - 1\<rparr>) (V4 (Ipv4Addr 127 0 0 1), 12345) (map header_line hs))
        | Some secs \<Rightarrow> (count (\<lambda>m. m\<lparr>rate_limited := inc (rate_limited m)\<rparr>) s, too_many_requests lib secs))"
proof -
  have "\<not> is_monitoring (lit ''/ip'')" by (simp add: is_monitoring_def)
  moreover have "snd (routes lib w (get_with ''/ip'' None hs) t) = Ready (ip_ep lib t (V4 (Ipv4Addr 127 0 0 1), 12345) (map header_line hs))"
    "fst (routes lib w (get_with ''/ip'' None hs) t) = t" for t
    by (simp_all add: routes_def handle_def with_peer_def)
  ultimately show ?thesis
    using assms by (simp add: rate_limit_mw_def concurrency_mw_def timeout_mw_def calm_world_def peer_127_def too_many_requests_def
        Let_def split_def split: option.split)
qed

lemma counting_keeps [simp]:
  "rate_limit (count_class res (count_request s)) = rate_limit s" "concurrency (count_class res (count_request s)) = concurrency s"
  "settings (count_class res (count_request s)) = settings s"
  "settings (s\<lparr>rate_limit := rl\<rparr>) = settings s" "settings (count f s) = settings s"
  "rate_limit (count f s) = rate_limit s" "concurrency (count f s) = concurrency s"
  by (simp_all add: count_class_def count_request_def count_def settings_def Let_def)

lemma hardened_outcome:
  "req_path req \<noteq> lit ''/content'' \<Longrightarrow> outcome (hardened req res) =
     (resp_status res, header_values (resp_headers res) (lit ''retry-after''), [as_bytes (lit ''no-store'')])"
  by (simp add: outcome_def hardened_def header_values_insert Let_def)

lemma ip_outcomes:
  "header_values (resp_headers (ip_ep lib s conn hs)) (lit ''retry-after'') = []"
  "header_values (resp_headers (too_many_requests lib secs)) (lit ''retry-after'') = [as_bytes (show_nat (unat secs))]"
  by (simp_all add: header_values_def ip_ep_def too_many_requests_def json_response_def)

lemma ip_step:
  assumes "calm_world w" and "0 < concurrency s"
    and "rate_check id (rate_limit s) (self_ip s (map header_line hs) peer_127) (clock0 w) (clock1 w) = (rl, v)"
  shows "outcome (snd (build_app lib w (get_with ''/ip'' None hs) s)) = limiter_outcome v"
    "rate_limit (fst (build_app lib w (get_with ''/ip'' None hs) s)) = rl"
    "concurrency (fst (build_app lib w (get_with ''/ip'' None hs) s)) = concurrency s"
    "settings (fst (build_app lib w (get_with ''/ip'' None hs) s)) = settings s"
proof -
  have status: "resp_status (ip_ep lib t conn hs') = 200" "resp_status (too_many_requests lib secs) = 429" for t conn hs' secs
    by (simp_all add: ip_ep_def too_many_requests_def)
  show "outcome (snd (build_app lib w (get_with ''/ip'' None hs) s)) = limiter_outcome v"
    "rate_limit (fst (build_app lib w (get_with ''/ip'' None hs) s)) = rl"
    "concurrency (fst (build_app lib w (get_with ''/ip'' None hs) s)) = concurrency s"
    "settings (fst (build_app lib w (get_with ''/ip'' None hs) s)) = settings s"
    unfolding build_app_outer ip_limited [OF assms]
    by (simp_all add: hardened_outcome ip_outcomes status limiter_outcome_def Let_def split: option.split)
qed

lemma ip_session:
  assumes "calm_world w" and "0 < concurrency s" and "settings s = settings s0"
  shows "map outcome (responses lib w s (map (get_with ''/ip'' None) hss)) =
    map limiter_outcome (snd (rate_run (rate_limit s)
      (map (\<lambda>hs. (id, self_ip s0 (map header_line hs) peer_127, clock0 w, clock1 w)) hss)))"
  using assms(2,3)
proof (induction hss arbitrary: s)
  case (Cons hs hss)
  obtain rl v where check: "rate_check id (rate_limit s) (self_ip s (map header_line hs) peer_127) (clock0 w) (clock1 w) = (rl, v)"
    by fastforce
  note step = ip_step [OF assms(1) Cons.prems(1) check, where lib = lib]
  have "self_ip s (map header_line hs) peer_127 = self_ip s0 (map header_line hs) peer_127"
    by (rule self_ip_settings [OF Cons.prems(2)])
  with Cons.IH [of "fst (build_app lib w (get_with ''/ip'' None hs) s)"] Cons.prems step check show ?case
    by (simp add: rate_access_def id_def split_def Let_def)
qed simp

text \<open>The two tests of the limiter, in an instant.\<close>

definition frozen_world :: "('r, 'k) request_world \<Rightarrow> bool" where
  "frozen_world w \<longleftrightarrow> calm_world w \<and> clock0 w = clock1 w"

lemma addresses_of_64:
  "client_ip None (Some (lit ''9.9.9.9'')) (lit ''127.0.0.1'') True True = lit ''9.9.9.9''"
  "client_ip None (Some (lit ''2001:db8:1:2::1'')) (lit ''127.0.0.1'') True True = lit ''2001:db8:1:2::1''"
  "client_ip None (Some (lit ''2001:db8:1:2::2'')) (lit ''127.0.0.1'') True True = lit ''2001:db8:1:2::2''"
  "client_ip None (Some (lit ''2001:db8:1:2:ffff::3'')) (lit ''127.0.0.1'') True True = lit ''2001:db8:1:2:ffff::3''"
  "client_ip None (Some (lit ''2001:db8:1:3::1'')) (lit ''127.0.0.1'') True True = lit ''2001:db8:1:3::1''"
  by (simp_all add: client_ip_def split_xff_def clean_host_def normalize_host_def is_ascii_digit_def addr_eval str_eval)

lemma keys_of_64:
  "bucket_key (lit ''9.9.9.9'') = lit ''9.9.9.9''"
  "bucket_key (lit ''2001:db8:1:2::1'') = lit ''2001:db8:1:2::/64''" "bucket_key (lit ''2001:db8:1:2::2'') = lit ''2001:db8:1:2::/64''"
  "bucket_key (lit ''2001:db8:1:2:ffff::3'') = lit ''2001:db8:1:2::/64''" "bucket_key (lit ''2001:db8:1:3::1'') = lit ''2001:db8:1:3::/64''"
  by (simp_all add: bucket_key_def ipv6_network_def v6_network_64 addr_eval str_eval)


lemma limiter_runs:
  "snd (rate_run (rate_limit_new 2) (replicate 3 (id, lit ''9.9.9.9'', t, t))) = [None, None, Some 30]"
  "snd (rate_run (rate_limit_new 2)
     [(id, lit ''2001:db8:1:2::1'', t, t), (id, lit ''2001:db8:1:2::2'', t, t), (id, lit ''2001:db8:1:2:ffff::3'', t, t),
      (id, lit ''2001:db8:1:3::1'', t, t)]) = [None, None, Some 30, None]"
  by (simp_all add: rate_access_def rate_check_def rate_limit_new_def keys_of_64 limiter_eval numeral_3_eq_3 Let_def)

lemma exit_ip:
  "self_ip (test_state lib (test_config sg n d)) (map header_line [(''x-forwarded-for'', a)]) peer_127 =
     client_ip None (Some (lit a)) (lit ''127.0.0.1'') True True"
  using client_of_eq [of "test_config sg n d" lib "[(''x-forwarded-for'', a)]"] unfolding joined_header_lines
  by (simp add: client_of_def)

lemma status_of_outcome: "map resp_status rs = map fst (map outcome rs)"
  by (simp add: outcome_def)

lemma ip_answers:
  fixes sg :: "'k signer" and lib :: "('r, 'l, 'v, 'k) app_libs"
  assumes "frozen_world w"
  shows "map outcome (responses lib w (test_state lib (test_config sg 2 0)) (map (\<lambda>ip. get_with ''/ip'' None [(''x-forwarded-for'', ip)]) ips)) =
    map limiter_outcome (snd (rate_run (rate_limit_new 2)
      (map (\<lambda>ip. (id, client_ip None (Some (lit ip)) (lit ''127.0.0.1'') True True, clock1 w, clock1 w)) ips)))"
proof -
  let ?s = "test_state lib (test_config sg 2 0)"
  have "calm_world w" "clock0 w = clock1 w" using assms by (simp_all add: frozen_world_def)
  with ip_session [of w ?s ?s lib "map (\<lambda>ip. [(''x-forwarded-for'', ip)]) ips"] show ?thesis
    by (simp add: comp_def exit_ip [simplified list.map])
qed

lemma limiter_tests_pass:
  assumes "frozen_world w" and "router_libs lib from_slice"
  shows "rate_limit_is_not_bypassed_by_rotating_ipv6_in_a_64 lib w sg" "rate_limit_blocks_and_healthz_exempt lib w sg"
proof -
  show "rate_limit_is_not_bypassed_by_rotating_ipv6_in_a_64 lib w sg"
    unfolding rate_limit_is_not_bypassed_by_rotating_ipv6_in_a_64_def Let_def status_of_outcome ip_answers [OF assms(1)]
    by (simp only: list.map addresses_of_64 limiter_runs) (simp add: limiter_outcome_def)
  let ?get_ip = "get_with ''/ip'' None [(''x-forwarded-for'', ''9.9.9.9'')]"
  let ?app = "test_state lib (test_config sg 2 0)"
  let ?rs = "responses lib w ?app (replicate 3 ?get_ip @ replicate 5 (get_with ''/healthz'' None []))"
  have "map outcome (responses lib w ?app (replicate 3 ?get_ip)) = map limiter_outcome [None, None, Some 30]"
    using ip_answers [OF assms(1), of lib sg "replicate 3 ''9.9.9.9''"]
    by (simp add: addresses_of_64 limiter_runs)
  then have ip: "map outcome (take 3 ?rs) = map limiter_outcome [None, None, Some 30]" by (simp add: responses_append)
  have "map resp_status ?rs = [200, 200, 429] @ replicate 5 200"
    using arg_cong [OF ip, of "map fst"]
    by (simp add: responses_append healthz_answers status_of_outcome [symmetric] limiter_outcome_def del: replicate.simps)
      (simp add: status_of_outcome)
  moreover have "outcome (?rs ! 2) = limiter_outcome (Some 30)"
    using arg_cong [OF ip, of "\<lambda>os. os ! 2"] by (simp add: nth_map)
  moreover have "header_to_str lib (as_bytes (lit ''30'')) = Some (lit ''30'')" "show_nat 30 = lit ''30''"
      "header_to_str lib (as_bytes (lit ''no-store'')) = Some (lit ''no-store'')"
    using assms(2) by (simp_all add: router_libs_def show_nat_def show_radix.simps digit_char_def str_eval)
  ultimately show "rate_limit_blocks_and_healthz_exempt lib w sg"
    unfolding rate_limit_blocks_and_healthz_exempt_def Let_def
    by (simp add: outcome_def limiter_outcome_def header_text_def)
qed

section \<open>Headers, probes and fixed texts\<close>

text \<open>\<open>String::from_utf8\<close>, and \<open>as_str().unwrap_or("")\<close>.\<close>

definition from_utf8 :: "u8 list \<Rightarrow> ustr option" where
  "from_utf8 bs = (let t = from_utf8_lossy bs in if as_bytes t = bs then Some t else None)"

fun text_or_empty :: "json \<Rightarrow> ustr" where
  "text_or_empty (J_Str t) = t"
| "text_or_empty _ = []"

definition dynamic_endpoints_are_no_store_and_nosniff ::
  "('r, 'l, 'v, 'k) app_libs \<Rightarrow> ('r, 'k) request_world \<Rightarrow> 'k signer \<Rightarrow> bool" where
  "dynamic_endpoints_are_no_store_and_nosniff lib w sg \<longleftrightarrow>
     (let answer = (\<lambda>path. oneshot lib w (test_config sg 1000000 0) (get_with path None []))
      in list_all (\<lambda>path. resp_status (answer path) = 200 \<and>
           header_text lib (answer path) ''cache-control'' = Some (lit ''no-store'') \<and>
           header_text lib (answer path) ''x-content-type-options'' = Some (lit ''nosniff''))
         [''/ip'', ''/headers'', ''/geo'', ''/type'', ''/judge'', ''/key'', ''/healthz'', ''/readyz'', ''/metrics''] \<and>
         header_values (resp_headers (answer ''/content'')) (lit ''cache-control'') = [] \<and>
         header_values (resp_headers (answer ''/content'')) (lit ''x-content-type-options'') \<noteq> [])"

definition metrics_and_readyz :: "('r, 'l, 'v, 'k) app_libs \<Rightarrow> (u8 list \<Rightarrow> json) \<Rightarrow> ('r, 'k) request_world \<Rightarrow> 'k signer \<Rightarrow> bool" where
  "metrics_and_readyz lib from_slice w sg \<longleftrightarrow>
     (let app = test_state lib (test_config sg 1000000 0);
          rs = responses lib w app [get_with ''/readyz'' None [], get_with ''/metrics'' None []];
          v = from_slice (resp_body (rs ! 0));
          metrics = rs ! 1
      in member v ''ok'' = J_Bool True \<and> member v ''geo_ready'' = J_Bool False \<and> resp_status metrics = 200 \<and>
         (case from_utf8 (resp_body metrics) of
            None \<Rightarrow> False
          | Some text \<Rightarrow>
              str_contains text (lit ''proxpulse_requests_total'') \<and> str_contains text (lit ''proxpulse_build_info'') \<and>
              str_contains text (lit ''proxpulse_geo_ready 0'')))"

definition metrics_token_is_enforced_when_set :: "('r, 'l, 'v, 'k) app_libs \<Rightarrow> ('r, 'k) request_world \<Rightarrow> 'k signer \<Rightarrow> bool" where
  "metrics_token_is_enforced_when_set lib w sg \<longleftrightarrow>
     (let cfg = (test_config sg 1000000 0)\<lparr>config.metrics_token := Some (lit ''s3cret'')\<rparr>;
          rs = responses lib w (test_state lib cfg) (map (get_with ''/metrics'' None)
            [[], [(''authorization'', ''Bearer wrong'')], [(''authorization'', ''s3cret'')],
             [(''authorization'', ''Bearer s3cret'')]])
      in map resp_status rs = [401, 401, 401, 200])"

definition index_has_licenses :: "('r, 'l, 'v, 'k) app_libs \<Rightarrow> (u8 list \<Rightarrow> json) \<Rightarrow> ('r, 'k) request_world \<Rightarrow> 'k signer \<Rightarrow> bool" where
  "index_has_licenses lib from_slice w sg \<longleftrightarrow>
     (let v = json_answer lib from_slice w (test_config sg 1000000 0) (get_with ''/'' None [])
      in member v ''service'' = j_text ''proxpulse-judge'' \<and> member v ''repository'' = J_Str REPOSITORY \<and>
         member (member (member v ''licenses'') ''dbip_lite'') ''license'' = j_text ''CC BY 4.0'' \<and>
         str_contains (text_or_empty (member (member (member v ''licenses'') ''geolite2'') ''url'')) (lit ''maxmind.com''))"

definition generate_204_empty :: "('r, 'l, 'v, 'k) app_libs \<Rightarrow> ('r, 'k) request_world \<Rightarrow> 'k signer \<Rightarrow> bool" where
  "generate_204_empty lib w sg \<longleftrightarrow>
     resp_status (oneshot lib w (test_config sg 1000000 0) (get_with ''/generate_204'' None [])) = 204"

definition content_stable :: "('r, 'l, 'v, 'k) app_libs \<Rightarrow> ('r, 'k) request_world \<Rightarrow> 'k signer \<Rightarrow> bool" where
  "content_stable lib w sg \<longleftrightarrow>
     (let a = resp_body (oneshot lib w (test_config sg 1000000 0) (get_with ''/content'' None []));
          b = resp_body (oneshot lib w (test_config sg 1000000 0) (get_with ''/content'' None []))
      in a = b \<and> 32 < length a)"

text \<open>Reverse DNS with a timeout of 50 milliseconds and of 2 seconds.\<close>

definition rdns_skipped_when_asn_known :: "('r, 'l, 'v, 'k) app_libs \<Rightarrow> ('r, 'k) request_world \<Rightarrow> 'k signer \<Rightarrow> bool" where
  "rdns_skipped_when_asn_known lib w sg \<longleftrightarrow>
     (let state = test_state lib (test_config sg 1000000 50000000)
      in snd (maybe_rdns (rdns_call w) state (lit ''8.8.8.8'') (Some (lit ''Google LLC''))) = Ready None)"

definition all_skipped ::
  "('r, 'k) rdns_world \<Rightarrow> string list \<Rightarrow> ('r, 'k) app_state \<times> bool \<Rightarrow> ('r, 'k) app_state \<times> bool" where
  "all_skipped w = fold (\<lambda>addr (s, ok). let (s', v) = maybe_rdns w s (lit addr) None in (s', ok \<and> v = Ready None))"

definition rdns_skipped_for_private_and_loopback_ips :: "('r, 'l, 'v, 'k) app_libs \<Rightarrow> ('r, 'k) request_world \<Rightarrow> 'k signer \<Rightarrow> bool" where
  "rdns_skipped_for_private_and_loopback_ips lib w sg \<longleftrightarrow>
     (let state = test_state lib (test_config sg 1000000 2000000000);
          (s, ok) = all_skipped (rdns_call w)
            [''127.0.0.1'', ''::1'', ''10.0.0.1'', ''172.17.0.1'', ''192.168.1.1'', ''100.64.0.1'', ''169.254.1.1'',
             ''203.0.113.7'', ''2001:db8::1'', ''fe80::1'', ''fc00::1''] (state, True)
      in ok \<and> rdns_lookups (metrics s) = 0)"

text \<open>They hold.\<close>

lemma special_addresses:
  "parse_ip (lit ''127.0.0.1'') = Some (V4 (Ipv4Addr 127 0 0 1))" "parse_ip (lit ''::1'') = Some (V6 (Ipv6Addr 0 0 0 0 0 0 0 1))"
  "parse_ip (lit ''10.0.0.1'') = Some (V4 (Ipv4Addr 10 0 0 1))" "parse_ip (lit ''172.17.0.1'') = Some (V4 (Ipv4Addr 172 17 0 1))"
  "parse_ip (lit ''192.168.1.1'') = Some (V4 (Ipv4Addr 192 168 1 1))" "parse_ip (lit ''100.64.0.1'') = Some (V4 (Ipv4Addr 100 64 0 1))"
  "parse_ip (lit ''169.254.1.1'') = Some (V4 (Ipv4Addr 169 254 1 1))" "parse_ip (lit ''203.0.113.7'') = Some (V4 (Ipv4Addr 203 0 113 7))"
  "parse_ip (lit ''2001:db8::1'') = Some (V6 (Ipv6Addr 0x2001 0xDB8 0 0 0 0 0 1))"
  "parse_ip (lit ''fe80::1'') = Some (V6 (Ipv6Addr 0xFE80 0 0 0 0 0 0 1))"
  "parse_ip (lit ''fc00::1'') = Some (V6 (Ipv6Addr 0xFC00 0 0 0 0 0 0 1))"
  by (simp_all add: addr_eval str_eval)

lemma special_not_public:
  "list_all (\<lambda>a. \<not> is_public_ip a)
     [V4 (Ipv4Addr 127 0 0 1), V6 (Ipv6Addr 0 0 0 0 0 0 0 1), V4 (Ipv4Addr 10 0 0 1), V4 (Ipv4Addr 172 17 0 1),
      V4 (Ipv4Addr 192 168 1 1), V4 (Ipv4Addr 100 64 0 1), V4 (Ipv4Addr 169 254 1 1), V4 (Ipv4Addr 203 0 113 7),
      V6 (Ipv6Addr 0x2001 0xDB8 0 0 0 0 0 1), V6 (Ipv6Addr 0xFE80 0 0 0 0 0 0 1), V6 (Ipv6Addr 0xFC00 0 0 0 0 0 0 1)]"
  by (simp add: is_public_ip_def v6_is_loopback_def v6_is_unique_local_def v6_is_unicast_link_local_def addr_eval)

lemma all_skipped_special:
  assumes "list_all (\<lambda>addr. \<exists>a. parse_ip (lit addr) = Some a \<and> \<not> is_public_ip a) addrs"
  shows "all_skipped w addrs (s, True) = (s, True)"
  using assms
proof (induction addrs)
  case (Cons addr addrs)
  then have "maybe_rdns w s (lit addr) None = (s, Ready None)" by (auto simp: maybe_rdns_def rdns_target_def)
  with Cons show ?case by (simp add: all_skipped_def)
qed (simp add: all_skipped_def)

lemma rdns_tests_pass:
  "rdns_skipped_when_asn_known lib w sg" "rdns_skipped_for_private_and_loopback_ips lib w sg"
proof -
  show "rdns_skipped_when_asn_known lib w sg"
    by (simp add: rdns_skipped_when_asn_known_def maybe_rdns_def rdns_target_def str_eval)
  show "rdns_skipped_for_private_and_loopback_ips lib w sg"
    unfolding rdns_skipped_for_private_and_loopback_ips_def Let_def
    by (subst all_skipped_special) (use special_not_public in \<open>simp_all add: special_addresses metrics_default_def\<close>)
qed

text \<open>Every dynamic route answers 200.\<close>

lemma type_ready:
  assumes "rdns_timeout s = 0"
  shows "\<exists>res. snd (ip_type lib w s conn hs) = Ready res \<and> resp_status res = 200"
proof -
  obtain s' g where geo: "geo_cached (geo_db_lib lib) (geo_evict w) s (self_ip s hs (Some conn)) = (s', g)" by fastforce
  then have "rdns_timeout s' = 0" using assms geo_cached_settings settings_fields by (metis fst_conv)
  then show ?thesis by (simp add: ip_type_def geo rdns_off await_def Let_def split_def)
qed

lemma routes_ready:
  assumes "rdns_timeout s = 0" and "metrics_token s = None" and "parse_query lib None = Inr p"
    and "path \<in> {''/ip'', ''/headers'', ''/geo'', ''/type'', ''/judge'', ''/key'', ''/healthz'', ''/readyz'', ''/metrics''}"
  shows "\<exists>res. snd (routes lib w (get_with path None []) s) = Ready res \<and> resp_status res = 200"
proof -
  obtain me view chain where me: "self_ip s [] peer_127 = me" "proxy_view s [] me = (view, chain)" by fastforce
  have "snd (routes lib w (get_with ''/type'' None []) s) = snd (ip_type lib w s (V4 (Ipv4Addr 127 0 0 1), 12345) [])"
    "snd (routes lib w (get_with ''/judge'' None []) s) = snd (judge lib w s (V4 (Ipv4Addr 127 0 0 1), 12345) [] p)"
    by (simp_all add: routes_def handle_def with_peer_def assms(3))
  with type_ready [OF assms(1), of lib w "(V4 (Ipv4Addr 127 0 0 1), 12345)" "[]"]
    judge_ready [OF assms(1) me(1) [unfolded peer_127_def] me(2), of lib w p]
  have "\<exists>res. snd (routes lib w (get_with ''/type'' None []) s) = Ready res \<and> resp_status res = 200"
    "\<exists>res. snd (routes lib w (get_with ''/judge'' None []) s) = Ready res \<and> resp_status res = 200"
    by (auto simp: signed_response_def Let_def)
  moreover have "snd (routes lib w (get_with ''/ip'' None []) s) = Ready (ip_ep lib s (V4 (Ipv4Addr 127 0 0 1), 12345) [])"
    "snd (routes lib w (get_with ''/headers'' None []) s) = Ready (headers_echo lib s (V4 (Ipv4Addr 127 0 0 1), 12345) [])"
    "snd (routes lib w (get_with ''/geo'' None []) s) = Ready (snd (geo_ep lib w s (V4 (Ipv4Addr 127 0 0 1), 12345) []))"
    "snd (routes lib w (get_with ''/key'' None []) s) = Ready (key_ep lib s)"
    "snd (routes lib w (get_with ''/healthz'' None []) s) = Ready (healthz lib)"
    "snd (routes lib w (get_with ''/readyz'' None []) s) = Ready (readyz lib s)"
    "snd (routes lib w (get_with ''/metrics'' None []) s) = Ready (metrics_ep lib s [])"
    by (simp_all add: routes_def handle_def with_peer_def split_def Let_def [of "geo_ep _ _ _ _ _"])
  moreover have "resp_status (ip_ep lib s conn hs) = 200" "resp_status (headers_echo lib s conn hs) = 200"
    "resp_status (snd (geo_ep lib w s conn hs)) = 200" "resp_status (key_ep lib s) = 200" "resp_status (healthz lib) = 200"
    "resp_status (readyz lib s) = 200" "resp_status (metrics_ep lib s hs) = 200" for conn hs
    by (simp_all add: ip_ep_def headers_echo_def geo_ep_def key_ep_def healthz_def readyz_def metrics_ep_def assms(2) split_def Let_def)
  ultimately show ?thesis using assms(4) by auto
qed

lemma oneshot_ready:
  assumes "calm_world w" and "rate_per_minute cfg \<noteq> 0"
    and "\<And>s. settings s = settings (test_state lib cfg) \<Longrightarrow> \<exists>res. snd (routes lib w req s) = Ready res \<and> P res"
    and "req_method req = lit ''GET''"
  shows "\<exists>res. oneshot lib w cfg req = hardened req res \<and> P res"
proof (cases "is_monitoring (req_path req)")
  case True
  with oneshot_monitoring [of req lib w cfg] assms(3,4) show ?thesis by blast
next
  case False
  with oneshot_routes [OF assms(1,2), of req lib] assms(3,4) served_settings show ?thesis by blast
qed

lemma hardened_headers:
  "resp_status (hardened req res) = resp_status res" "resp_body (hardened req res) = resp_body res"
  "header_values (resp_headers (hardened req res)) (lit ''x-content-type-options'') = [as_bytes (lit ''nosniff'')]"
  "req_path req \<noteq> lit ''/content'' \<Longrightarrow>
     header_values (resp_headers (hardened req res)) (lit ''cache-control'') = [as_bytes (lit ''no-store'')]"
  "req_path req = lit ''/content'' \<Longrightarrow> resp_status res = 200 \<Longrightarrow>
     header_values (resp_headers (hardened req res)) (lit ''cache-control'') = header_values (resp_headers res) (lit ''cache-control'')"
  by (simp_all add: hardened_def header_values_insert Let_def)

lemma fixed_routes:
  assumes "calm_world w"
  shows "oneshot lib w (test_config sg 1000000 0) (get_with ''/content'' None []) = hardened (get_with ''/content'' None []) content_ep"
    "oneshot lib w (test_config sg 1000000 0) (get_with ''/generate_204'' None []) = hardened (get_with ''/generate_204'' None []) generate_204"
    "oneshot lib w (test_config sg 1000000 0) (get_with ''/'' None []) = hardened (get_with ''/'' None [])
       (index lib (served_state w (test_state lib (test_config sg 1000000 0)) (get_with ''/'' None [])))"
  by (rule oneshot_routes [OF assms]; simp add: is_monitoring_def routes_def handle_def)+

lemma endpoint_test_passes:
  assumes "calm_world w" and "router_libs lib from_slice"
  shows "dynamic_endpoints_are_no_store_and_nosniff lib w sg"
proof -
  let ?cfg = "test_config sg 1000000 0"
  have shown: "header_to_str lib (as_bytes (lit ''no-store'')) = Some (lit ''no-store'')"
    "header_to_str lib (as_bytes (lit ''nosniff'')) = Some (lit ''nosniff'')"
    using assms(2) by (simp_all add: router_libs_def str_eval)
  have answer: "resp_status (oneshot lib w ?cfg (get_with path None [])) = 200 \<and>
      header_text lib (oneshot lib w ?cfg (get_with path None [])) ''cache-control'' = Some (lit ''no-store'') \<and>
      header_text lib (oneshot lib w ?cfg (get_with path None [])) ''x-content-type-options'' = Some (lit ''nosniff'')"
    if path: "path \<in> {''/ip'', ''/headers'', ''/geo'', ''/type'', ''/judge'', ''/key'', ''/healthz'', ''/readyz'', ''/metrics''}" for path
  proof -
    have "rdns_timeout s = 0" "metrics_token s = None" if "settings s = settings (test_state lib ?cfg)" for s
      using settings_fields [OF that] by simp_all
    then have "\<exists>res. oneshot lib w ?cfg (get_with path None []) = hardened (get_with path None []) res \<and> resp_status res = 200"
      using routes_ready [OF _ _ _ path, where lib = lib and w = w] assms(2)
      by (intro oneshot_ready [OF assms(1)]) (auto simp: router_libs_def)
    moreover have "path \<noteq> ''/content''" using path by auto
    ultimately show ?thesis by (auto simp: hardened_headers header_text_def shown)
  qed
  have "header_values (resp_headers content_ep) (lit ''cache-control'') = []" "resp_status content_ep = 200"
    by (simp_all add: content_ep_def header_values_def)
  then show ?thesis
    unfolding dynamic_endpoints_are_no_store_and_nosniff_def Let_def list_all_iff
    using answer by (simp add: fixed_routes [OF assms(1)] hardened_headers)
qed

lemma fixed_text_tests_pass:
  assumes "calm_world w" and "router_libs lib from_slice"
  shows "generate_204_empty lib w sg" "content_stable lib w sg" "index_has_licenses lib from_slice w sg"
proof -
  show "generate_204_empty lib w sg" by (simp add: generate_204_empty_def fixed_routes [OF assms(1)] hardened_headers generate_204_def)
  have "32 < length FIXED_CONTENT" by (simp add: FIXED_CONTENT_def as_bytes_def utf8_values_def utf8_char_def str_eval)
  then show "content_stable lib w sg" by (simp add: content_stable_def fixed_routes [OF assms(1)] hardened_headers content_ep_def)
  have "str_contains (lit ''https://www.maxmind.com/en/geolite/eula'') (lit ''maxmind.com'')"
    unfolding str_contains_iff
    by (rule exI [of _ "lit ''https://www.''"], rule exI [of _ "lit ''/en/geolite/eula''"]) (simp add: str_eval)
  then show "index_has_licenses lib from_slice w sg"
    using assms(2) by (simp add: index_has_licenses_def json_answer_def fixed_routes [OF assms(1)] hardened_headers index_def licenses_def router_libs_def Let_def)
qed

text \<open>The metrics page, with and without a token.\<close>

lemma metrics_response:
  "snd (build_app lib w (get_with ''/metrics'' None hs) s) =
     hardened (get_with ''/metrics'' None hs) (metrics_ep lib s (map header_line hs))"
  by (simp add: build_app_outer monitoring_direct is_monitoring_def timeout_mw_def routes_def handle_def split_def Let_def)

lemma metrics_state_kept:
  "metrics_token (fst (build_app lib w (get_with ''/metrics'' None hs) s)) = metrics_token s"
proof -
  have "settings (fst (build_app lib w (get_with ''/metrics'' None hs) s)) = settings s"
    by (simp add: build_app_outer monitoring_direct is_monitoring_def timeout_mw_def routes_def handle_def split_def Let_def)
  then show ?thesis by (rule settings_fields)
qed

lemma token_presented:
  assumes "router_libs lib from_slice" and "list_all (\<lambda>c. 32 \<le> c \<and> c < 127) (lit a)"
  shows "presented_token lib (map header_line [(''authorization'', a)]) = strip_prefix (lit ''Bearer '') (lit a)"
  using assms by (simp add: presented_token_def header_values_def header_line_def router_libs_def)

lemma token_session:
  assumes "metrics_token s = Some token" and "valid_str token"
    and "list_all (\<lambda>hs. \<forall>p. presented_token lib (map header_line hs) = Some p \<longrightarrow> valid_str p) hss"
  shows "map resp_status (responses lib w s (map (get_with ''/metrics'' None) hss)) =
    map (\<lambda>hs. if presented_token lib (map header_line hs) = Some token then 200 else 401) hss"
  using assms(1,3)
proof (induction hss arbitrary: s)
  case (Cons hs hss)
  then have "resp_status (metrics_ep lib s (map header_line hs)) =
      (if presented_token lib (map header_line hs) = Some token then 200 else 401)"
    using assms(2) by (auto simp: metrics_ep_def constant_time_eq_iff as_bytes_inject split: option.split)
  then show ?case using Cons by (simp add: metrics_response metrics_state_kept hardened_headers Let_def split_def)
qed simp

lemma token_test_passes:
  assumes "router_libs lib from_slice"
  shows "metrics_token_is_enforced_when_set lib w sg"
proof -
  have tokens: "presented_token lib (map header_line [(''authorization'', ''Bearer wrong'')]) = Some (lit ''wrong'')"
    "presented_token lib (map header_line [(''authorization'', ''s3cret'')]) = None"
    "presented_token lib (map header_line [(''authorization'', ''Bearer s3cret'')]) = Some (lit ''s3cret'')"
    "presented_token lib (map header_line []) = None"
    by (subst token_presented [OF assms]; simp add: str_eval)+ (simp add: presented_token_def header_values_def)
  show ?thesis
    unfolding metrics_token_is_enforced_when_set_def Let_def
    by (subst token_session [where token = "lit ''s3cret''"]) (simp_all add: tokens [simplified list.map])
qed

lemma valid_str_parts:
  "valid_str (a @ b) \<longleftrightarrow> valid_str a \<and> valid_str b" "valid_str (c # t) \<longleftrightarrow> is_scalar c \<and> valid_str t" "valid_str []"
  by (simp_all add: valid_str_def)

lemma valid_render:
  assumes "valid_str version"
  shows "valid_str (render m ready version)"
proof -
  have "valid_str (show_nat n)" for n
    using show_nat_digits by (fastforce simp: valid_str_def list_all_iff is_scalar_def is_ascii_digit_def)
  moreover have "valid_str (lit t)" for t by simp
  ultimately show ?thesis
    using assms by (simp add: render_def render_counter_def counters_def valid_str_parts is_scalar_def)
qed

lemma metrics_test_passes:
  assumes "router_libs lib from_slice"
  shows "metrics_and_readyz lib from_slice w sg"
proof -
  let ?app = "test_state lib (test_config sg 1000000 0)"
  let ?s = "fst (build_app lib w (get_with ''/readyz'' None []) ?app)"
  have ready: "snd (build_app lib w (get_with ''/readyz'' None []) ?app) = hardened (get_with ''/readyz'' None []) (readyz lib ?app)"
    "settings ?s = settings ?app"
    by (simp_all add: build_app_outer monitoring_direct is_monitoring_def timeout_mw_def routes_def handle_def Let_def split_def)
  have s: "metrics_token ?s = None" "sources (geo ?s) = []"
    using settings_fields [OF ready(2)] by simp_all
  let ?text = "render (metrics ?s) False VERSION"
  have "from_utf8 (as_bytes ?text) = Some ?text"
    by (simp add: from_utf8_def from_utf8_lossy_as_bytes valid_render VERSION_def)
  moreover have name_shown: "str_contains ?text (lit ''proxpulse_requests_total'')"
    by (rule str_contains_within [OF counter_shown]) (simp add: counters_def)
  moreover have "str_contains ?text (lit ''proxpulse_build_info'')"
    "str_contains ?text (lit ''proxpulse_geo_ready 0'')"
    using name_shown gauges_shown [of "metrics ?s" False VERSION]
      str_contains_within [of ?text "[]" "lit ''proxpulse_build_info''" "lit ''{version='' @ [34] @ VERSION @ [34] @ lit ''} 1'' @ [10]"]
      str_contains_within [of ?text "[]" "lit ''proxpulse_geo_ready 0''" "[10]"]
    by (simp_all add: digits_shown str_eval)
  ultimately show ?thesis
    using assms
    by (simp add: metrics_and_readyz_def ready metrics_response hardened_headers readyz_def metrics_ep_def s router_libs_def Let_def split_def)
qed

end
