(* ===== verification/Sign_Tests.thy ===== *)
theory Sign_Tests
  imports Signed_Answers
begin

text \<open>
  The tests of \<open>src/sign.rs\<close>, as boolean definitions over the model and a verifier, which the
  repository does not contain. What they need of the libraries is \<open>signature_libs\<close>, and that the
  verifier tells the messages of the test apart (\<open>tells_apart\<close>).
\<close>

section \<open>A checker\<close>

text \<open>
  Base64 text of the public key and of the signature, and the message: \<open>None\<close> is a panic of one of
  the \<open>unwrap\<close>s, otherwise whether \<open>VerifyingKey::verify\<close> accepts.
\<close>

type_synonym verifier = "u8 list \<Rightarrow> u8 list \<Rightarrow> u8 list \<Rightarrow> bool"

definition checked :: "'k crypto \<Rightarrow> verifier \<Rightarrow> ustr \<Rightarrow> ustr \<Rightarrow> u8 list \<Rightarrow> bool option" where
  "checked lib verify public_text sig_text m =
     (case (b64_decode lib public_text, b64_decode lib sig_text) of
        (Some public, Some sig) \<Rightarrow> if length public = 32 \<and> length sig = 64 then Some (verify public m sig) else None
      | _ \<Rightarrow> None)"

definition seed_bytes :: "u8 list" where
  "seed_bytes = map of_nat [0..<32]"

definition SEED :: ustr where
  "SEED = lit ''AAECAwQFBgcICQoLDA0ODxAREhMUFRYXGBkaGxwdHh8=''"

definition signature_libs :: "'k crypto \<Rightarrow> bool" where
  "signature_libs lib \<longleftrightarrow>
     (\<forall>x. b64_decode lib (b64_encode lib x) = Some x) \<and> b64_decode lib SEED = Some seed_bytes \<and>
     (\<forall>k. length (verifying_bytes lib k) = 32) \<and> (\<forall>k m. length (key_sign lib k m) = 64) \<and>
     (\<forall>m. length (sha256 lib m) = 32)"

text \<open>Of some messages, the signature of each is accepted for it and for no other.\<close>

definition tells_apart :: "'k crypto \<Rightarrow> verifier \<Rightarrow> 'k \<Rightarrow> u8 list list \<Rightarrow> bool" where
  "tells_apart lib verify k ms \<longleftrightarrow>
     list_all (\<lambda>m. list_all (\<lambda>m'. verify (verifying_bytes lib k) m' (key_sign lib k m) \<longleftrightarrow> m' = m) ms) ms"

lemma checked_signature:
  assumes "signature_libs lib" and "sg = from_seed lib seed e"
    and "tells_apart lib verify (key sg) ms" and "message n d body \<in> set ms" and "m \<in> set ms"
  shows "checked lib verify (public_key sg) (sign lib sg n d body) m = Some (m = message n d body)"
proof -
  have "public_key sg = b64_encode lib (verifying_bytes lib (key sg))" by (simp add: assms(2) from_seed_def Let_def)
  with assms show ?thesis by (auto simp: checked_def sign_def signature_libs_def tells_apart_def list_all_iff)
qed

lemma trim_seed: "trim SEED = SEED"
  by (simp add: SEED_def str_eval)

lemma seed_accepted:
  assumes "signature_libs lib"
  shows "from_seed_b64 lib SEED = Inr (from_seed lib seed_bytes False)"
  using assms by (simp add: from_seed_b64_def trim_seed signature_libs_def seed_bytes_def)

section \<open>The tests of the signer\<close>

definition signs_body_nonce_and_direct_ip :: "'k crypto \<Rightarrow> verifier \<Rightarrow> bool" where
  "signs_body_nonce_and_direct_ip lib verify \<longleftrightarrow>
     (case from_seed_b64 lib SEED of
        Inl _ \<Rightarrow> False
      | Inr s \<Rightarrow>
          (let a1 = as_bytes (lit ''{\"a\":1}'');
               a2 = as_bytes (lit ''{\"a\":2}'');
               sig = sign lib s (lit ''nonce1234'') (lit ''1.2.3.4'') a1;
               verified = checked lib verify (public_key s) sig
           in verified (message (lit ''nonce1234'') (lit ''1.2.3.4'') a1) = Some True \<and>
              verified (message (lit ''nonce1234'') (lit ''5.6.7.8'') a1) = Some False \<and>
              verified (message (lit ''nonce1234'') (lit ''1.2.3.4'') a2) = Some False \<and>
              length (key_id s) = 8))"

definition generated_keys_are_fresh_and_sign :: "'k crypto \<Rightarrow> verifier \<Rightarrow> u8 list \<Rightarrow> u8 list \<Rightarrow> bool" where
  "generated_keys_are_fresh_and_sign lib verify random_a random_b \<longleftrightarrow>
     (case (generate lib (Inr random_a), generate lib (Inr random_b)) of
        (Inr a, Inr b) \<Rightarrow>
          (let body = as_bytes (lit ''{}'');
               sig = sign lib a (lit ''nonce1234'') (lit ''1.2.3.4'') body
           in ephemeral a \<and> ephemeral b \<and> public_key a \<noteq> public_key b \<and> key_id a \<noteq> key_id b \<and>
              checked lib verify (public_key a) sig (message (lit ''nonce1234'') (lit ''1.2.3.4'') body) = Some True)
      | _ \<Rightarrow> False)"

lemma key_id_length:
  assumes "signature_libs lib"
  shows "length (key_id (from_seed lib seed e)) = 8"
proof -
  have "length (concat (map hex_02 bs)) = 2 * length bs" for bs
    using length_hex_lower [of bs] by (simp add: hex_lower_def)
  with assms show ?thesis by (simp add: from_seed_def Let_def signature_libs_def)
qed

lemma signer_test_passes:
  fixes lib :: "'k crypto"
  defines "a1 \<equiv> as_bytes (lit ''{\"a\":1}'')" and "a2 \<equiv> as_bytes (lit ''{\"a\":2}'')"
  assumes "signature_libs lib"
    and "tells_apart lib verify (key_from_bytes lib seed_bytes)
      [message (lit ''nonce1234'') (lit ''1.2.3.4'') a1, message (lit ''nonce1234'') (lit ''5.6.7.8'') a1,
       message (lit ''nonce1234'') (lit ''1.2.3.4'') a2]"
  shows "signs_body_nonce_and_direct_ip lib verify"
proof -
  have k: "key (from_seed lib seed_bytes False) = key_from_bytes lib seed_bytes" by (simp add: from_seed_def Let_def)
  have "a1 \<noteq> a2" by (simp add: a1_def a2_def as_bytes_inject)
  moreover have no_lf: "10 \<notin> set (lit ''nonce1234'')" "10 \<notin> set (lit ''1.2.3.4'')" "10 \<notin> set (lit ''5.6.7.8'')"
    by (simp_all add: str_eval)
  ultimately show ?thesis
    unfolding signs_body_nonce_and_direct_ip_def seed_accepted [OF assms(3)] Let_def sum.case a1_def [symmetric] a2_def [symmetric]
    by (subst (1 2 3) checked_signature [OF assms(3) refl assms(4) [folded k]])
      (simp_all add: message_injective key_id_length [OF assms(3)])
qed

lemma generated_test_passes:
  fixes lib :: "'k crypto"
  defines "k \<equiv> key_from_bytes lib"
  assumes "signature_libs lib" and "verifying_bytes lib (k a) \<noteq> verifying_bytes lib (k b)"
    and "take 4 (sha256 lib (verifying_bytes lib (k a))) \<noteq> take 4 (sha256 lib (verifying_bytes lib (k b)))"
    and "tells_apart lib verify (k a) [message (lit ''nonce1234'') (lit ''1.2.3.4'') (as_bytes (lit ''{}''))]"
  shows "generated_keys_are_fresh_and_sign lib verify a b"
proof -
  have "b64_encode lib x = b64_encode lib y \<longleftrightarrow> x = y" for x y
    using assms(2) unfolding signature_libs_def by (metis option.inject)
  moreover have "key (from_seed lib a True) = k a" by (simp add: from_seed_def Let_def k_def)
  ultimately show ?thesis
    using assms(3,4) checked_signature [OF assms(2) refl, of verify a True]  assms(5)
    by (simp add: generated_keys_are_fresh_and_sign_def generate_def Let_def)
      (simp add: from_seed_def Let_def k_def hex_lower_inject hex_lower_def [symmetric])
qed

text \<open>The key id of the fixed seed starts the digest of its public key, which is the library's to compute.\<close>

definition debug_shows_only_the_key_id_and_origin :: "'k crypto \<Rightarrow> (uchar \<Rightarrow> bool) \<Rightarrow> u8 list \<Rightarrow> bool" where
  "debug_shows_only_the_key_id_and_origin lib plain random \<longleftrightarrow>
     (case (from_seed_b64 lib SEED, generate lib (Inr random)) of
        (Inr fixed, Inr generated) \<Rightarrow>
          debug_signer plain fixed = lit ''Signer { key_id: '' @ [34] @ lit ''56475aa7'' @ [34] @ lit '', ephemeral: false }'' \<and>
          debug_signer plain generated =
            lit ''Signer { key_id: '' @ [34] @ key_id generated @ [34] @ lit '', ephemeral: true }''
      | _ \<Rightarrow> False)"

lemma debug_hex:
  "concat (map (debug_char plain) (hex_lower bs)) = hex_lower bs"
proof -
  have "debug_char plain c = [c]" if "c \<in> set (hex_lower bs)" for c
    using hex_lower_chars [OF that] by (auto simp: debug_char_def is_ascii_digit_def)
  then have "map (debug_char plain) (hex_lower bs) = map (\<lambda>c. [c]) (hex_lower bs)" by simp
  then show ?thesis by (simp only: concat_map_singleton map_ident)
qed

lemma debug_test_passes:
  assumes "signature_libs lib"
    and "take 4 (sha256 lib (verifying_bytes lib (key_from_bytes lib seed_bytes))) = [0x56, 0x47, 0x5A, 0xA7]"
  shows "debug_shows_only_the_key_id_and_origin lib plain random"
proof -
  have id: "key_id (from_seed lib s e) = hex_lower (take 4 (sha256 lib (verifying_bytes lib (key_from_bytes lib s))))" for s e
    by (simp add: from_seed_def Let_def hex_lower_def)
  have "hex_lower [0x56, 0x47, 0x5A, 0xA7] = lit ''56475aa7''"
    by (simp add: hex_lower_def hex_02_digits digit_char_def str_eval)
  then have fixed: "key_id (from_seed lib seed_bytes False) = lit ''56475aa7''" by (simp add: id assms(2))
  have origin: "ephemeral (from_seed lib s e) = e" for s e by (simp add: from_seed_def Let_def)
  have shown: "concat (map (debug_char plain) (key_id (from_seed lib s e))) = key_id (from_seed lib s e)" for s e
    by (simp only: id debug_hex)
  show ?thesis
    by (simp add: debug_shows_only_the_key_id_and_origin_def seed_accepted [OF assms(1)] generate_def debug_signer_def
        debug_str_def shown origin fixed) (simp add: debug_char_def str_eval)
qed

text \<open>
  The vector shared with the checker. That these bytes have this signature under the key of the seed
  is for the library to compute; that they are what is signed is the signer's.
\<close>

definition VECTOR_SIGNATURE :: ustr where
  "VECTOR_SIGNATURE = lit ''bKJP4sGEk2X3TrUbVqV0thXJWq21c5/D/Dg+mP3Tv+BJ6mbj7nJ5r9oOUXwFITETF1oT8/78dJSUh32a964eAA==''"

definition VECTOR_PUBLIC :: ustr where
  "VECTOR_PUBLIC = lit ''A6EHv/POEL4dcN0Y50vAmWfk1jCbpQ1fHdyGZBJVMbg=''"

definition known_vector :: "'k crypto \<Rightarrow> bool" where
  "known_vector lib \<longleftrightarrow>
     (case from_seed_b64 lib SEED of
        Inl _ \<Rightarrow> False
      | Inr s \<Rightarrow>
          sign lib s (lit ''0123456789abcdef01234567'') (lit ''203.0.113.7'') (as_bytes (lit ''{\"anonymity\":\"elite\"}'')) =
            VECTOR_SIGNATURE \<and> public_key s = VECTOR_PUBLIC \<and> \<not> ephemeral s)"

definition vector_text :: ustr where
  "vector_text = lit ''proxpulse-judge-v1'' @ [10] @ lit ''0123456789abcdef01234567'' @ [10] @ lit ''203.0.113.7'' @ [10] @
     lit ''{\"anonymity\":\"elite\"}''"

lemma known_vector_passes:
  assumes "signature_libs lib"
    and "b64_encode lib (key_sign lib (key_from_bytes lib seed_bytes) (as_bytes vector_text)) = VECTOR_SIGNATURE"
    and "b64_encode lib (verifying_bytes lib (key_from_bytes lib seed_bytes)) = VECTOR_PUBLIC"
  shows "known_vector lib"
proof -
  have "as_bytes [10] = [10]" by (simp add: as_bytes_def utf8_values_def utf8_char_def)
  then have "message (lit ''0123456789abcdef01234567'') (lit ''203.0.113.7'') (as_bytes (lit ''{\"anonymity\":\"elite\"}'')) =
      as_bytes vector_text"
    by (simp only: message_def SIGNATURE_CONTEXT_def vector_text_def as_bytes_append append_assoc)
  then show ?thesis
    using assms(2,3) by (simp add: known_vector_def seed_accepted [OF assms(1)] sign_def) (simp add: from_seed_def Let_def)
qed

end
