(* ===== verification/Signature_Tests.thy ===== *)
theory Signature_Tests
  imports Route_Tests Sign_Tests
begin

text \<open>
  The tests of \<open>src/app.rs\<close> that verify the signature of an answer, as boolean definitions over
  \<open>build_app\<close> and a verifier. What they need besides \<open>router_libs\<close> and \<open>signature_libs\<close> is
  \<open>signing_queries\<close>, and that the verifier tells the messages of the tests apart.
\<close>

section \<open>Signed answers of the application\<close>

text \<open>The signature header, as text, and the body; \<open>None\<close> when the status is not 200 or there is no header.\<close>

definition signed_answer ::
  "('r, 'l, 'v, 'k) app_libs \<Rightarrow> ('r, 'k) request_world \<Rightarrow> 'k config \<Rightarrow> string option \<Rightarrow> (ustr \<times> u8 list) option" where
  "signed_answer lib w cfg q =
     (let res = oneshot lib w cfg (get_with ''/judge'' q [])
      in if resp_status res \<noteq> 200 then None
         else (case header_values (resp_headers res) (lit ''x-judge-signature'') of
                 [] \<Rightarrow> None
               | v # _ \<Rightarrow> Some (from_utf8_lossy v, resp_body res)))"

definition answer_verifies ::
  "('r, 'l, 'v, 'k) app_libs \<Rightarrow> verifier \<Rightarrow> 'k config \<Rightarrow> ustr \<Rightarrow> string \<Rightarrow> ustr \<Rightarrow> u8 list \<Rightarrow> bool option" where
  "answer_verifies lib verify cfg sig n d body =
     checked (signing_lib lib) verify (public_key (config_signer cfg)) sig (message (lit n) d body)"

definition judge_answers_are_signed_with_the_published_key ::
  "('r, 'l, 'v, 'k) app_libs \<Rightarrow> (u8 list \<Rightarrow> json) \<Rightarrow> verifier \<Rightarrow> ('r, 'k) request_world \<Rightarrow> 'k signer \<Rightarrow> bool" where
  "judge_answers_are_signed_with_the_published_key lib from_slice verify w generated \<longleftrightarrow>
     (case from_seed_b64 (signing_lib lib) SEED of
        Inl _ \<Rightarrow> False
      | Inr configured \<Rightarrow>
          list_all (\<lambda>cfg.
            (let key = json_answer lib from_slice w cfg (get_with ''/key'' None []);
                 res = oneshot lib w cfg (get_with ''/judge'' (Some ''direct_ip=1.1.1.1&nonce=abcdefgh12'') [])
             in member key ''alg'' = j_text ''ed25519'' \<and>
                header_values (resp_headers res) (lit ''x-judge-key-id'') = [as_bytes (text_or_empty (member key ''key_id''))] \<and>
                (case header_values (resp_headers res) (lit ''x-judge-signature'') of
                   [] \<Rightarrow> False
                 | v # _ \<Rightarrow>
                     (let verified = \<lambda>n d. checked (signing_lib lib) verify (text_or_empty (member key ''public_key''))
                            (from_utf8_lossy v) (message (lit n) (lit d) (resp_body res))
                      in verified ''abcdefgh12'' ''1.1.1.1'' = Some True \<and> verified ''otherNonce1'' ''1.1.1.1'' = Some False \<and>
                         verified ''abcdefgh12'' ''2.2.2.2'' = Some False))))
            [test_config generated 1000000 0, test_config configured 1000000 0])"

definition line_feed_in_direct_ip_cannot_move_bytes_into_the_body ::
  "('r, 'l, 'v, 'k) app_libs \<Rightarrow> verifier \<Rightarrow> ('r, 'k) request_world \<Rightarrow> 'k signer \<Rightarrow> bool" where
  "line_feed_in_direct_ip_cannot_move_bytes_into_the_body lib verify w sg \<longleftrightarrow>
     (let cfg = test_config sg 1000000 0
      in case signed_answer lib w cfg (Some ''direct_ip=1.1.1.1%0Aforged&nonce=abcdefgh12'') of
           None \<Rightarrow> False
         | Some (sig, body) \<Rightarrow>
             (let verified = answer_verifies lib verify cfg sig ''abcdefgh12'';
                  forged = as_bytes (lit ''forged'') @ [10] @ body
              in verified (lit ''1.1.1.1'') forged = Some False \<and> verified (lit ''1.1.1.1'') body = Some False \<and>
                 verified [] body = Some True))"

definition absent_values_and_invalid_nonce_sign_as_empty ::
  "('r, 'l, 'v, 'k) app_libs \<Rightarrow> verifier \<Rightarrow> ('r, 'k) request_world \<Rightarrow> 'k signer \<Rightarrow> bool" where
  "absent_values_and_invalid_nonce_sign_as_empty lib verify w sg \<longleftrightarrow>
     (let cfg = test_config sg 1000000 0
      in list_all (\<lambda>q. case signed_answer lib w cfg q of
             None \<Rightarrow> False
           | Some (sig, body) \<Rightarrow> answer_verifies lib verify cfg sig '''' [] body = Some True) [None, Some ''nonce=short''])"

definition other_direct_ip_forms_stay_bound_to_the_signature ::
  "('r, 'l, 'v, 'k) app_libs \<Rightarrow> verifier \<Rightarrow> ('r, 'k) request_world \<Rightarrow> 'k signer \<Rightarrow> bool" where
  "other_direct_ip_forms_stay_bound_to_the_signature lib verify w sg \<longleftrightarrow>
     (let cfg = test_config sg 1000000 0;
          twice = oneshot lib w cfg (get_with ''/judge'' (Some ''direct_ip=1.1.1.1&direct_ip=2.2.2.2&nonce=abcdefgh12'') [])
      in (case signed_answer lib w cfg (Some ''direct_ip=1.1.1.1%0D&nonce=abcdefgh12'') of
            None \<Rightarrow> False
          | Some (sig, body) \<Rightarrow>
              answer_verifies lib verify cfg sig ''abcdefgh12'' (lit ''1.1.1.1'') body = Some False \<and>
              answer_verifies lib verify cfg sig ''abcdefgh12'' (lit ''1.1.1.1'' @ [13]) body = Some True) \<and>
         resp_status twice = 400 \<and> header_values (resp_headers twice) (lit ''x-judge-signature'') = [])"

section \<open>What the libraries do\<close>

definition query_means :: "('r, 'l, 'v, 'k) app_libs \<Rightarrow> string \<Rightarrow> ustr option \<Rightarrow> ustr option \<Rightarrow> bool" where
  "query_means lib q d n \<longleftrightarrow> parse_query lib (Some (lit q)) = Inr \<lparr>direct_ip = d, nonce = n\<rparr>"

text \<open>A parameter that is given twice is rejected by the framework.\<close>

definition signing_queries :: "('r, 'l, 'v, 'k) app_libs \<Rightarrow> bool" where
  "signing_queries lib \<longleftrightarrow>
     query_means lib ''direct_ip=1.1.1.1&nonce=abcdefgh12'' (Some (lit ''1.1.1.1'')) (Some (lit ''abcdefgh12'')) \<and>
     query_means lib ''direct_ip=1.1.1.1%0Aforged&nonce=abcdefgh12'' (Some (lit ''1.1.1.1'' @ [10] @ lit ''forged''))
       (Some (lit ''abcdefgh12'')) \<and>
     query_means lib ''direct_ip=1.1.1.1%0D&nonce=abcdefgh12'' (Some (lit ''1.1.1.1'' @ [13])) (Some (lit ''abcdefgh12'')) \<and>
     query_means lib ''nonce=short'' None (Some (lit ''short'')) \<and>
     (case parse_query lib (Some (lit ''direct_ip=1.1.1.1&direct_ip=2.2.2.2&nonce=abcdefgh12'')) of
        Inl res \<Rightarrow> resp_status res = 400 \<and> header_values (resp_headers res) (lit ''x-judge-signature'') = []
      | Inr _ \<Rightarrow> False) \<and>
     (\<forall>t. visible_ascii t \<longrightarrow> header_value_ok lib t) \<and> (\<forall>x. visible_ascii (b64_encode (signing_lib lib) x))"

definition test_messages :: "u8 list \<Rightarrow> u8 list list" where
  "test_messages body =
     [message (lit ''abcdefgh12'') (lit ''1.1.1.1'') body, message (lit ''otherNonce1'') (lit ''1.1.1.1'') body,
      message (lit ''abcdefgh12'') (lit ''2.2.2.2'') body,
      message (lit ''abcdefgh12'') (lit ''1.1.1.1'') (as_bytes (lit ''forged'') @ [10] @ body),
      message (lit ''abcdefgh12'') [] body, message [] [] body,
      message (lit ''abcdefgh12'') (lit ''1.1.1.1'' @ [13]) body]"

section \<open>They hold\<close>

lemma judge_is_signed:
  assumes "calm_world w" and "parse_query lib (map_option lit q) = Inr p"
    and "rate_per_minute cfg \<noteq> 0" and "config.rdns_timeout cfg = 0"
  shows "\<exists>body. oneshot lib w cfg (get_with ''/judge'' q hs) =
    hardened (get_with ''/judge'' q hs) (signed_response lib (config_signer cfg) p body)"
proof -
  have "\<exists>res. snd (routes lib w (get_with ''/judge'' q hs) s) = Ready res \<and> (\<exists>body. res = signed_response lib (config_signer cfg) p body)"
    if "settings s = settings (test_state lib cfg)" for s
  proof -
    have s: "rdns_timeout s = 0" "signer s = config_signer cfg" using settings_fields [OF that] assms(4) by simp_all
    obtain me view chain where me: "self_ip s (map header_line hs) peer_127 = me" "proxy_view s (map header_line hs) me = (view, chain)"
      by fastforce
    have "snd (routes lib w (get_with ''/judge'' q hs) s) = snd (judge lib w s (V4 (Ipv4Addr 127 0 0 1), 12345) (map header_line hs) p)"
      using assms(2) by (simp add: routes_def handle_def with_peer_def)
    then show ?thesis using judge_ready [OF s(1) me(1) [unfolded peer_127_def] me(2), of lib w p] s(2) by auto
  qed
  note ready = this
  have "\<exists>res. oneshot lib w cfg (get_with ''/judge'' q hs) = hardened (get_with ''/judge'' q hs) res \<and>
      (\<exists>body. res = signed_response lib (config_signer cfg) p body)"
    by (rule oneshot_ready [OF assms(1,3)]) (rule ready, assumption, simp)
  then show ?thesis by auto
qed

lemma signed_headers:
  assumes "signing_queries lib" and "sg = from_seed (signing_lib lib) seed e"
  shows "header_values (resp_headers (hardened req (signed_response lib sg p body))) (lit ''x-judge-signature'') =
      [as_bytes (sign (signing_lib lib) sg (challenge_of p) (text_of (without_lf (direct_ip p))) body)]"
    and "header_values (resp_headers (hardened req (signed_response lib sg p body))) (lit ''x-judge-key-id'') = [as_bytes (key_id sg)]"
    and "from_utf8_lossy (as_bytes (sign (signing_lib lib) sg n d b)) = sign (signing_lib lib) sg n d b"
proof -
  have visible: "visible_ascii (sign (signing_lib lib) sg n d b)" for n d b
    using assms(1) by (simp add: signing_queries_def sign_def)
  then have ok: "header_value_ok lib (sign (signing_lib lib) sg n d b)" "header_value_ok lib (key_id sg)" for n d b
    using assms key_id_visible [of "signing_lib lib" seed e] by (simp_all add: signing_queries_def)
  show "header_values (resp_headers (hardened req (signed_response lib sg p body))) (lit ''x-judge-signature'') =
      [as_bytes (sign (signing_lib lib) sg (challenge_of p) (text_of (without_lf (direct_ip p))) body)]"
    "header_values (resp_headers (hardened req (signed_response lib sg p body))) (lit ''x-judge-key-id'') = [as_bytes (key_id sg)]"
    by (simp_all add: hardened_def signed_response_def Let_def ok header_values_insert text_of_def [symmetric])
  show "from_utf8_lossy (as_bytes (sign (signing_lib lib) sg n d b)) = sign (signing_lib lib) sg n d b"
    using visible [of n d b] by (intro from_utf8_lossy_as_bytes) (auto simp: visible_ascii_def valid_str_def is_scalar_def list_all_iff)
qed

lemma signed_answer_eq:
  assumes "calm_world w" and "parse_query lib (map_option lit q) = Inr p" and "signing_queries lib"
    and "sg = from_seed (signing_lib lib) seed e"
  shows "\<exists>body. signed_answer lib w (test_config sg 1000000 0) q =
    Some (sign (signing_lib lib) sg (challenge_of p) (text_of (without_lf (direct_ip p))) body, body)"
proof -
  have "config_signer (test_config sg 1000000 0) = sg" by (simp add: test_config_def)
  then obtain body where "oneshot lib w (test_config sg 1000000 0) (get_with ''/judge'' q []) =
      hardened (get_with ''/judge'' q []) (signed_response lib sg p body)"
    using judge_is_signed [OF assms(1,2), of "test_config sg 1000000 0" "[]"] by auto
  moreover have "resp_status (signed_response lib sg p body) = 200" by (simp add: signed_response_def Let_def)
  ultimately show ?thesis
    by (simp add: signed_answer_def hardened_headers signed_headers [OF assms(3,4)] Let_def)
qed

lemma test_nonces:
  "valid_nonce (lit ''abcdefgh12'')" "\<not> valid_nonce (lit ''short'')"
  "10 \<notin> set (lit ''abcdefgh12'')" "10 \<notin> set (lit ''otherNonce1'')" "10 \<notin> set (lit ''1.1.1.1'')" "10 \<notin> set (lit ''2.2.2.2'')"
  by (simp_all add: valid_nonce_iff) (simp_all add: str_eval is_ascii_alphanumeric_def)

text \<open>The messages of the tests are pairwise different.\<close>

lemma test_messages_distinct: "distinct (test_messages body)"
proof -
  have "valid_str []" "valid_str (lit ''1.1.1.1'' @ [13])" "10 \<notin> set (lit ''1.1.1.1'' @ [13])"
    using test_nonces by (simp_all add: valid_str_parts is_scalar_def)
  moreover have "lit ''1.1.1.1'' \<noteq> lit ''1.1.1.1'' @ [13]" "lit ''abcdefgh12'' \<noteq> []" "lit ''otherNonce1'' \<noteq> []"
    "lit ''1.1.1.1'' \<noteq> []" "lit ''2.2.2.2'' \<noteq> []" "lit ''2.2.2.2'' \<noteq> lit ''1.1.1.1'' @ [13]" "as_bytes (lit ''forged'') @ 10 # body \<noteq> body"
    by (auto simp: str_eval)
  ultimately show ?thesis
    using test_nonces by (simp add: test_messages_def message_injective)
qed

definition verifier_fits :: "('r, 'l, 'v, 'k) app_libs \<Rightarrow> verifier \<Rightarrow> 'k signer \<Rightarrow> bool" where
  "verifier_fits lib verify sg \<longleftrightarrow> (\<forall>body. tells_apart (signing_lib lib) verify (key sg) (test_messages body))"

lemma checked_test_message:
  assumes "signature_libs (signing_lib lib)" and "sg = from_seed (signing_lib lib) seed e" and "verifier_fits lib verify sg"
    and "i < 7" and "j < 7" and "test_messages body ! i = message n d b" and "test_messages body ! j = m"
  shows "checked (signing_lib lib) verify (public_key sg) (sign (signing_lib lib) sg n d b) m = Some (i = j)"
proof -
  have len: "length (test_messages body) = 7" by (simp add: test_messages_def)
  have "message n d b \<in> set (test_messages body)" "m \<in> set (test_messages body)"
    using assms(4-7) len nth_mem by metis+
  then have "checked (signing_lib lib) verify (public_key sg) (sign (signing_lib lib) sg n d b) m = Some (m = message n d b)"
    using assms(1,2,3) by (intro checked_signature) (auto simp: verifier_fits_def)
  also have "m = message n d b \<longleftrightarrow> i = j"
    using nth_eq_iff_index_eq [OF test_messages_distinct, of i body j] assms(4-7) len by auto
  finally show ?thesis .
qed

lemma test_challenges:
  "challenge_of \<lparr>direct_ip = d, nonce = Some (lit ''abcdefgh12'')\<rparr> = lit ''abcdefgh12''"
  "challenge_of \<lparr>direct_ip = d, nonce = Some (lit ''short'')\<rparr> = []" "challenge_of \<lparr>direct_ip = d, nonce = None\<rparr> = []"
  "text_of (without_lf (Some (lit ''1.1.1.1''))) = lit ''1.1.1.1''" "text_of (without_lf None) = []"
  "text_of (without_lf (Some (lit ''1.1.1.1'' @ [13]))) = lit ''1.1.1.1'' @ [13]"
  "text_of (without_lf (Some (lit ''1.1.1.1'' @ 10 # lit ''forged''))) = []"
  using test_nonces by (simp_all add: challenge_of_def without_lf_def text_of_def)

lemma signature_tests_pass:
  assumes "calm_world w" and "router_libs lib from_slice" and "signing_queries lib" and "signature_libs (signing_lib lib)"
    and "sg = from_seed (signing_lib lib) seed e" and "verifier_fits lib verify sg"
  shows "line_feed_in_direct_ip_cannot_move_bytes_into_the_body lib verify w sg"
    "absent_values_and_invalid_nonce_sign_as_empty lib verify w sg"
    "other_direct_ip_forms_stay_bound_to_the_signature lib verify w sg"
proof -
  note answer = signed_answer_eq [OF assms(1) _ assms(3,5)]
  note checks = checked_test_message [OF assms(4,5,6)]
  have signer: "config_signer (test_config sg 1000000 0) = sg" by (simp add: test_config_def)
  obtain b1 where b1: "signed_answer lib w (test_config sg 1000000 0) (Some ''direct_ip=1.1.1.1%0Aforged&nonce=abcdefgh12'') =
      Some (sign (signing_lib lib) sg (lit ''abcdefgh12'') [] b1, b1)"
    using answer [of "Some ''direct_ip=1.1.1.1%0Aforged&nonce=abcdefgh12''"] assms(3)
    by (auto simp: signing_queries_def query_means_def test_challenges)
  show "line_feed_in_direct_ip_cannot_move_bytes_into_the_body lib verify w sg"
    unfolding line_feed_in_direct_ip_cannot_move_bytes_into_the_body_def Let_def b1 option.case prod.case answer_verifies_def signer
    using checks [of 4 3 b1 "lit ''abcdefgh12''" "[]" b1] checks [of 4 0 b1 "lit ''abcdefgh12''" "[]" b1]
      checks [of 4 4 b1 "lit ''abcdefgh12''" "[]" b1]
    by (simp add: test_messages_def)
  have empty: "\<exists>b. signed_answer lib w (test_config sg 1000000 0) q = Some (sign (signing_lib lib) sg [] [] b, b)"
    if "q = None \<or> q = Some ''nonce=short''" for q
    using that answer [of q] assms(2,3)
    by (auto simp: signing_queries_def query_means_def router_libs_def test_challenges)
  have "answer_verifies lib verify (test_config sg 1000000 0) (sign (signing_lib lib) sg [] [] b) '''' [] b = Some True" for b
    using checks [of 5 5 b "[]" "[]" b] by (simp add: answer_verifies_def signer test_messages_def lit_Nil)
  then show "absent_values_and_invalid_nonce_sign_as_empty lib verify w sg"
    using empty [of None] empty [of "Some ''nonce=short''"]
    by (auto simp: absent_values_and_invalid_nonce_sign_as_empty_def Let_def)
  obtain b2 where b2: "signed_answer lib w (test_config sg 1000000 0) (Some ''direct_ip=1.1.1.1%0D&nonce=abcdefgh12'') =
      Some (sign (signing_lib lib) sg (lit ''abcdefgh12'') (lit ''1.1.1.1'' @ [13]) b2, b2)"
    using answer [of "Some ''direct_ip=1.1.1.1%0D&nonce=abcdefgh12''"] assms(3)
    by (auto simp: signing_queries_def query_means_def test_challenges)
  let ?twice = "get_with ''/judge'' (Some ''direct_ip=1.1.1.1&direct_ip=2.2.2.2&nonce=abcdefgh12'') []"
  obtain res where res: "parse_query lib (Some (lit ''direct_ip=1.1.1.1&direct_ip=2.2.2.2&nonce=abcdefgh12'')) = Inl res"
    "resp_status res = 400" "header_values (resp_headers res) (lit ''x-judge-signature'') = []"
    using assms(3) by (auto simp: signing_queries_def split: sum.splits)
  have "oneshot lib w (test_config sg 1000000 0) ?twice = hardened ?twice res"
    by (rule oneshot_routes [OF assms(1)]) (simp_all add: is_monitoring_def routes_def handle_def with_peer_def res(1))
  then show "other_direct_ip_forms_stay_bound_to_the_signature lib verify w sg"
    unfolding other_direct_ip_forms_stay_bound_to_the_signature_def Let_def b2 option.case prod.case answer_verifies_def signer
    using checks [of 6 0 b2 "lit ''abcdefgh12''" "lit ''1.1.1.1'' @ [13]" b2]
      checks [of 6 6 b2 "lit ''abcdefgh12''" "lit ''1.1.1.1'' @ [13]" b2] res(2,3)
    by (simp add: test_messages_def hardened_def header_values_insert)
qed

lemma key_answer:
  assumes "calm_world w" and "router_libs lib from_slice" and "rate_per_minute cfg \<noteq> 0"
  shows "json_answer lib from_slice w cfg (get_with ''/key'' None []) =
    J_Obj [(lit ''alg'', J_Str (lit ''ed25519'')), (lit ''key_id'', J_Str (key_id (config_signer cfg))),
      (lit ''public_key'', J_Str (public_key (config_signer cfg)))]"
proof -
  let ?req = "get_with ''/key'' None []"
  let ?s = "served_state w (test_state lib cfg) ?req"
  have "signer ?s = config_signer cfg" using settings_fields [OF served_settings, of w "test_state lib cfg" ?req] by simp
  then have ready: "snd (routes lib w ?req ?s) = Ready (json_response lib 200 (J_Obj [(lit ''alg'', J_Str (lit ''ed25519'')),
      (lit ''key_id'', J_Str (key_id (config_signer cfg))), (lit ''public_key'', J_Str (public_key (config_signer cfg)))]))"
    by (simp add: routes_def handle_def key_ep_def)
  have "\<not> is_monitoring (req_path ?req)" by (simp add: is_monitoring_def)
  from oneshot_routes [OF assms(1,3) this ready] assms(2) show ?thesis
    by (simp add: json_answer_def hardened_headers router_libs_def)
qed

lemma published_key_test_passes:
  assumes "calm_world w" and "router_libs lib from_slice" and "signing_queries lib" and "signature_libs (signing_lib lib)"
    and "generated = from_seed (signing_lib lib) random True"
    and "verifier_fits lib verify generated" and "verifier_fits lib verify (from_seed (signing_lib lib) seed_bytes False)"
  shows "judge_answers_are_signed_with_the_published_key lib from_slice verify w generated"
proof -
  let ?req = "get_with ''/judge'' (Some ''direct_ip=1.1.1.1&nonce=abcdefgh12'') []"
  let ?p = "\<lparr>direct_ip = Some (lit ''1.1.1.1''), nonce = Some (lit ''abcdefgh12'')\<rparr>"
  have query: "parse_query lib (map_option lit (Some ''direct_ip=1.1.1.1&nonce=abcdefgh12'')) = Inr ?p"
    using assms(3) by (simp add: signing_queries_def query_means_def)
  have pass: "header_values (resp_headers (oneshot lib w (test_config sg 1000000 0) ?req)) (lit ''x-judge-key-id'') = [as_bytes (key_id sg)] \<and>
      (\<exists>v. header_values (resp_headers (oneshot lib w (test_config sg 1000000 0) ?req)) (lit ''x-judge-signature'') = [v] \<and>
        list_all (\<lambda>(n, d, ok). checked (signing_lib lib) verify (public_key sg) (from_utf8_lossy v)
            (message (lit n) (lit d) (resp_body (oneshot lib w (test_config sg 1000000 0) ?req))) = Some ok)
          [(''abcdefgh12'', ''1.1.1.1'', True), (''otherNonce1'', ''1.1.1.1'', False), (''abcdefgh12'', ''2.2.2.2'', False)])"
    if sg: "sg = from_seed (signing_lib lib) seed e" and fits: "verifier_fits lib verify sg" for sg seed e
  proof -
    have "config_signer (test_config sg 1000000 0) = sg" by (simp add: test_config_def)
    then obtain body where body: "oneshot lib w (test_config sg 1000000 0) ?req = hardened ?req (signed_response lib sg ?p body)"
      using judge_is_signed [OF assms(1) query, of "test_config sg 1000000 0" "[]"] by auto
    note checks = checked_test_message [OF assms(4) sg fits, of 0 _ body "lit ''abcdefgh12''" "lit ''1.1.1.1''" body]
    show ?thesis
      using checks [of 0] checks [of 1] checks [of 2]
      by (simp add: body signed_headers [OF assms(3) sg] hardened_headers test_challenges test_messages_def)
  qed
  have signer: "config_signer (test_config sg 1000000 0) = sg" for sg by (simp add: test_config_def)
  show ?thesis
    unfolding judge_answers_are_signed_with_the_published_key_def seed_accepted [OF assms(4)] sum.case
    using pass [OF assms(5,6)] pass [OF refl assms(7)]
    by (auto simp: key_answer [OF assms(1,2)] signer)
qed

end
