(* ===== verification/Test_Databases.thy ===== *)
theory Test_Databases
  imports Handlers
begin

unbundle bit_operations_syntax

text \<open>
  The writer of test databases (\<open>test_mmdb\<close> of \<open>src/geo.rs\<close>): a file with one IPv4 network of 24
  bits and one record, in the MaxMind DB format. The last section follows addresses through the
  search tree of the bytes it writes.
\<close>

section \<open>Integers and floating-point numbers as bytes\<close>

text \<open>\<open>to_be_bytes\<close>: the \<open>n\<close> bytes of an unsigned integer, the most significant first.\<close>

fun be_bytes :: "nat \<Rightarrow> nat \<Rightarrow> u8 list" where
  "be_bytes 0 v = []"
| "be_bytes (Suc n) v = of_nat (v div 256 ^ n) # be_bytes n v"

lemma length_be_bytes [simp]: "length (be_bytes n v) = n"
  by (induction n) simp_all

text \<open>\<open>f64::to_be_bytes\<close>, for zero and the normal range: sign, biased exponent and the 52 bits after the point.\<close>

definition f64_bits :: "rat \<Rightarrow> nat" where
  "f64_bits x =
     (if x = 0 then 0
      else (let e = binary_exponent \<bar>x\<bar>;
                fraction = nat \<lfloor>(\<bar>x\<bar> / 2 powi e - 1) * 2 ^ 52\<rfloor>
            in (if x < 0 then 2 ^ 63 else 0) + nat (e + 1023) * 2 ^ 52 + fraction))"

definition f64_be_bytes :: "rat \<Rightarrow> u8 list" where
  "f64_be_bytes x = be_bytes 8 (f64_bits x)"

section \<open>Data fields\<close>

text \<open>A panic is \<open>None\<close>; what two writers append is appended in order.\<close>

definition PREFIX_LEN :: nat where
  "PREFIX_LEN = 24"

definition METADATA_MARKER :: "u8 list" where
  "METADATA_MARKER = [0xAB, 0xCD, 0xEF] @ as_bytes (lit ''MaxMind.com'')"

definition control :: "u8 \<Rightarrow> nat \<Rightarrow> u8 list option" where
  "control kind sz =
     (if \<not> sz < 285 then None
      else (let type_bits = (if 7 < kind then 0 else kind)
            in Some ([push_bit 5 type_bits OR of_nat (min sz 29)] @
                     (if 7 < kind then [kind - 7] else []) @
                     (if 29 \<le> sz then [of_nat (sz - 29)] else []))))"

fun then_write :: "u8 list option \<Rightarrow> u8 list option \<Rightarrow> u8 list option" where
  "then_write (Some a) (Some b) = Some (a @ b)"
| "then_write _ _ = None"

definition write_all :: "u8 list option list \<Rightarrow> u8 list option" where
  "write_all ws = foldr then_write ws (Some [])"

definition encode_str :: "ustr \<Rightarrow> u8 list option" where
  "encode_str s = then_write (control 2 (length (as_bytes s))) (Some (as_bytes s))"

fun encode :: "json \<Rightarrow> u8 list option" where
  "encode (J_Str s) = encode_str s"
| "encode (J_F64 x) = then_write (control 3 8) (Some (f64_be_bytes x))"
| "encode (J_Nat n) = then_write (control 6 4) (if n < 2 ^ 32 then Some (be_bytes 4 n) else None)"
| "encode (J_Obj m) =
     then_write (control 7 (length m)) (write_all (map (\<lambda>p. then_write (encode_str (fst p)) (encode (snd p))) m))"
| "encode (J_Arr a) = then_write (control 11 (length a)) (write_all (map encode a))"
| "encode (J_Bool _) = None"
| "encode J_Null = None"

section \<open>The file\<close>

text \<open>The two records of the node for one bit of the prefix.\<close>

definition node_records :: "u32 \<Rightarrow> nat \<Rightarrow> nat list" where
  "node_records bits depth =
     (let next = (if depth + 1 = PREFIX_LEN then PREFIX_LEN + 16 else depth + 1)
      in if drop_bit (31 - depth) bits AND 1 = 0 then [next, PREFIX_LEN] else [PREFIX_LEN, next])"

definition search_tree :: "u32 \<Rightarrow> u8 list" where
  "search_tree bits = concat (map (\<lambda>depth. concat (map (\<lambda>r. tl (be_bytes 4 r)) (node_records bits depth))) [0..<PREFIX_LEN])"

definition typed_entry :: "string \<Rightarrow> u8 \<Rightarrow> u8 list \<Rightarrow> u8 list option" where
  "typed_entry name kind bytes = write_all [encode_str (lit name), control kind (length bytes), Some bytes]"

definition metadata :: "string \<Rightarrow> u8 list option" where
  "metadata db_type =
     write_all
       [control 7 9,
        typed_entry ''binary_format_major_version'' 5 (be_bytes 2 2),
        typed_entry ''binary_format_minor_version'' 5 (be_bytes 2 0),
        typed_entry ''ip_version'' 5 (be_bytes 2 4),
        typed_entry ''record_size'' 5 (be_bytes 2 24),
        typed_entry ''node_count'' 6 (be_bytes 4 PREFIX_LEN),
        typed_entry ''build_epoch'' 9 (be_bytes 8 1700000000),
        encode_str (lit ''database_type''), encode (J_Str (lit db_type)),
        encode_str (lit ''description''), encode (J_Obj [(lit ''en'', J_Str (lit ''proxpulse-judge test''))]),
        encode_str (lit ''languages''), encode (J_Arr [J_Str (lit ''en'')])]"

definition network_bits :: "u8 list \<Rightarrow> u32" where
  "network_bits octs = foldl (\<lambda>n b. push_bit 8 n OR ucast b) 0 octs"

definition write_db :: "string \<Rightarrow> u8 list \<Rightarrow> json \<Rightarrow> u8 list option" where
  "write_db db_type network v =
     write_all
       [Some (search_tree (network_bits network)), Some (replicate 16 0), encode v, Some METADATA_MARKER,
        metadata db_type]"

definition city_record :: json where
  "city_record = J_Obj
     [(lit ''city'', J_Obj [(lit ''names'', J_Obj [(lit ''en'', J_Str (lit ''Frankfurt''))])]),
      (lit ''country'', J_Obj [(lit ''iso_code'', J_Str (lit ''DE'')), (lit ''names'', J_Obj [(lit ''en'', J_Str (lit ''Germany''))])]),
      (lit ''location'', J_Obj [(lit ''latitude'', J_F64 (fl (501 / 10))), (lit ''longitude'', J_F64 (fl (86 / 10)))])]"

definition asn_record :: json where
  "asn_record = J_Obj
     [(lit ''autonomous_system_number'', J_Nat 64500),
      (lit ''autonomous_system_organization'', J_Str (lit ''Example Hosting GmbH''))]"

text \<open>The files written into a directory: name, database type, network and record.\<close>

type_synonym test_db = "string \<times> u8 list \<times> json"

definition write_city_and_asn :: "(string \<times> test_db) list" where
  "write_city_and_asn =
     [(''GeoLite2-City.mmdb'', ''GeoLite2-City'', [203, 0, 113, 0], city_record),
      (''GeoLite2-ASN.mmdb'', ''GeoLite2-ASN'', [203, 0, 113, 0], asn_record)]"

section \<open>The search tree\<close>

text \<open>
  A search as the format prescribes it: from node 0, one bit of the address after the other
  chooses the left or the right 24-bit record of the node; a record that is not below the number
  of nodes ends the search.
\<close>

definition be_value :: "u8 list \<Rightarrow> nat" where
  "be_value bs = foldl (\<lambda>n b. 256 * n + unat b) 0 bs"

definition record_at :: "u8 list \<Rightarrow> nat \<Rightarrow> bool \<Rightarrow> nat" where
  "record_at file node right = be_value (take 3 (drop (6 * node + (if right then 3 else 0)) file))"

fun search :: "u8 list \<Rightarrow> bool list \<Rightarrow> nat \<Rightarrow> nat" where
  "search file [] node = node"
| "search file (b # bs) node = (if node < PREFIX_LEN then search file bs (record_at file node b) else node)"

definition address_bits :: "u32 \<Rightarrow> bool list" where
  "address_bits a = map (\<lambda>i. bit a (31 - i)) [0..<32]"

lemma unat_low_byte: "unat (of_nat n :: u8) = n mod 256"
  by (simp add: unat_of_nat)

lemma be_three: "n < 2 ^ 24 \<Longrightarrow> be_value (tl (be_bytes 4 n)) = n"
proof -
  assume n: "n < 2 ^ 24"
  have four: "4 = Suc (Suc (Suc (Suc 0)))" by simp
  have "tl (be_bytes 4 n) = [of_nat (n div 65536), of_nat (n div 256), of_nat n]"
    unfolding four be_bytes.simps by simp
  then have "be_value (tl (be_bytes 4 n)) = 256 * (256 * (n div 65536 mod 256) + n div 256 mod 256) + n mod 256"
    by (simp add: be_value_def unat_low_byte)
  also have "n div 65536 mod 256 = n div 256 div 256" using n by (simp add: div_mult2_eq [symmetric])
  finally show ?thesis by (simp add: div_mult_mod_eq mult.commute)
qed

lemma length_be_three: "length (tl (be_bytes 4 n)) = 3"
  by simp

text \<open>The bytes of a node are its two records.\<close>

definition node_bytes :: "u32 \<Rightarrow> nat \<Rightarrow> u8 list" where
  "node_bytes bits depth = concat (map (\<lambda>r. tl (be_bytes 4 r)) (node_records bits depth))"

lemma node_records_small: "r \<in> set (node_records bits depth) \<Longrightarrow> depth < PREFIX_LEN \<Longrightarrow> r < 2 ^ 24"
  by (auto simp: node_records_def PREFIX_LEN_def Let_def split: if_splits)

lemma length_node_records: "length (node_records bits depth) = 2"
  by (simp add: node_records_def Let_def)

lemma length_node_bytes: "length (node_bytes bits depth) = 6"
  by (simp add: node_bytes_def node_records_def length_be_three Let_def)

lemma drop_blocks:
  assumes "\<And>i. length (f i) = k" and "d < n"
  shows "drop (k * d) (concat (map f [0..<n]) @ rest) = f d @ concat (map f [Suc d..<n]) @ rest"
proof -
  have "[0..<n] = [0..<d] @ d # [Suc d..<n]" using assms(2) upt_add_eq_append [of 0 d "n - d"] upt_conv_Cons [of d n] by simp
  moreover have "length (concat (map f [0..<d])) = k * d" by (simp add: length_concat comp_def assms(1) sum_list_triv)
  ultimately show ?thesis by simp
qed

lemma take_half:
  assumes "drop n file = l @ r @ ys" and "length l = k" and "length r = k"
  shows "take k (drop (n + (if right then k else 0)) file) = (if right then r else l)"
proof -
  have "drop (n + (if right then k else 0)) file = drop (if right then k else 0) (drop n file)" by (simp add: add.commute)
  then show ?thesis using assms by simp
qed

lemma record_written:
  assumes "d < PREFIX_LEN"
  shows "record_at (search_tree bits @ rest) d right = node_records bits d ! (if right then 1 else 0)"
proof -
  obtain l r where lr: "node_records bits d = [l, r]"
    using length_node_records [of bits d] by (auto simp: numeral_2_eq_2 length_Suc_conv)
  then have small: "l < 2 ^ 24" "r < 2 ^ 24" using node_records_small [OF _ assms, of _ bits] by auto
  have "search_tree bits = concat (map (node_bytes bits) [0..<PREFIX_LEN])"
    by (simp add: search_tree_def node_bytes_def [abs_def])
  then have "drop (6 * d) (search_tree bits @ rest) =
      (tl (be_bytes 4 l) @ tl (be_bytes 4 r)) @ concat (map (node_bytes bits) [Suc d..<PREFIX_LEN]) @ rest"
    using drop_blocks [of "node_bytes bits" 6, OF length_node_bytes assms] by (simp add: node_bytes_def [of _ d] lr)
  then have "take 3 (drop (6 * d + (if right then 3 else 0)) (search_tree bits @ rest)) =
      (if right then tl (be_bytes 4 r) else tl (be_bytes 4 l))"
    by (intro take_half length_be_three) simp
  then show ?thesis using small by (simp add: record_at_def be_three lr split: if_splits)
qed

text \<open>The search leaves the prefix at the first bit that differs.\<close>

lemma node_choice:
  "node_records bits d ! (if b then 1 else 0) =
     (if b = bit bits (31 - d) then (if Suc d = PREFIX_LEN then PREFIX_LEN + 16 else Suc d) else PREFIX_LEN)"
proof -
  have "drop_bit (31 - d) bits AND 1 = 0 \<longleftrightarrow> \<not> bit bits (31 - d)"
    by (simp add: and_one_eq bit_iff_odd_drop_bit even_iff_mod_2_eq_zero)
  then show ?thesis by (auto simp: node_records_def Let_def)
qed

lemma search_ended: "PREFIX_LEN \<le> node \<Longrightarrow> search file bs node = node"
  by (cases bs) simp_all

lemma search_from:
  assumes "d < PREFIX_LEN" and "length bs = 32 - d"
  shows "search (search_tree bits @ rest) bs d =
    (if \<forall>i < PREFIX_LEN - d. bs ! i = bit bits (31 - (d + i)) then PREFIX_LEN + 16 else PREFIX_LEN)"
  using assms
proof (induction "PREFIX_LEN - d" arbitrary: d bs)
  case (Suc n)
  obtain b bs' where bs: "bs = b # bs'" using Suc.prems by (cases bs) (auto simp: PREFIX_LEN_def)
  let ?rest = "\<forall>i < PREFIX_LEN - Suc d. bs' ! i = bit bits (31 - (Suc d + i))"
  have all: "(\<forall>i < PREFIX_LEN - d. bs ! i = bit bits (31 - (d + i))) \<longleftrightarrow> b = bit bits (31 - d) \<and> ?rest"
  proof -
    have "PREFIX_LEN - d = Suc (PREFIX_LEN - Suc d)" using Suc.prems(1) by simp
    then show ?thesis by (simp add: bs All_less_Suc2)
  qed
  have step: "search (search_tree bits @ rest) bs d = search (search_tree bits @ rest) bs'
      (if b = bit bits (31 - d) then (if Suc d = PREFIX_LEN then PREFIX_LEN + 16 else Suc d) else PREFIX_LEN)"
    using Suc.prems(1) by (simp add: bs record_written node_choice)
  show ?case
  proof (cases "b = bit bits (31 - d) \<and> Suc d < PREFIX_LEN")
    case True
    then have "search (search_tree bits @ rest) bs' (Suc d) = (if ?rest then PREFIX_LEN + 16 else PREFIX_LEN)"
      using Suc bs by (intro Suc.hyps(1)) auto
    then show ?thesis using True by (simp add: step all)
  next
    case False
    then have "b = bit bits (31 - d) \<Longrightarrow> Suc d = PREFIX_LEN" using Suc.prems(1) by linarith
    then show ?thesis by (auto simp: step all search_ended)
  qed
qed simp

text \<open>
  A search in a written file finds the record, right behind the 16 zero bytes, exactly for the
  addresses of the network, and otherwise the mark for no data.
\<close>

lemma write_db_tree:
  "write_db db_type network v = Some file \<Longrightarrow> \<exists>rest. file = search_tree (network_bits network) @ rest"
proof -
  have "then_write (Some a) w = Some file \<Longrightarrow> \<exists>rest. file = a @ rest" for a w by (cases w) auto
  then show "write_db db_type network v = Some file \<Longrightarrow> \<exists>rest. file = search_tree (network_bits network) @ rest"
    unfolding write_db_def write_all_def foldr.simps comp_def by blast
qed

lemma written_tree_covers_network:
  assumes "write_db db_type network v = Some file"
  shows "search file (address_bits a) 0 =
    (if take_bit 24 (drop_bit 8 a) = take_bit 24 (drop_bit 8 (network_bits network)) then PREFIX_LEN + 16 else PREFIX_LEN)"
proof -
  obtain rest where written: "file = search_tree (network_bits network) @ rest" using write_db_tree [OF assms] by blast
  have "(\<forall>i < PREFIX_LEN. address_bits a ! i = bit (network_bits network) (31 - i)) \<longleftrightarrow>
      (\<forall>i < 24. bit a (31 - i) = bit (network_bits network) (31 - i))"
    by (simp add: PREFIX_LEN_def address_bits_def)
  also have "\<dots> \<longleftrightarrow> (\<forall>n < 24. bit a (8 + n) = bit (network_bits network) (8 + n))"
  proof (rule iffI; intro allI impI)
    fix n :: nat assume "\<forall>i < 24. bit a (31 - i) = bit (network_bits network) (31 - i)" "n < 24"
    then show "bit a (8 + n) = bit (network_bits network) (8 + n)" by (auto dest!: spec [of _ "23 - n"])
  next
    fix i :: nat assume "\<forall>n < 24. bit a (8 + n) = bit (network_bits network) (8 + n)" "i < 24"
    then show "bit a (31 - i) = bit (network_bits network) (31 - i)" by (auto dest!: spec [of _ "23 - i"])
  qed
  also have "\<dots> \<longleftrightarrow> take_bit 24 (drop_bit 8 a) = take_bit 24 (drop_bit 8 (network_bits network))"
    by (auto simp: bit_eq_iff bit_simps) (drule spec, drule mp, rule less_trans, assumption, simp, simp)+
  finally have "(\<forall>i < PREFIX_LEN. address_bits a ! i = bit (network_bits network) (31 - i)) \<longleftrightarrow>
      take_bit 24 (drop_bit 8 a) = take_bit 24 (drop_bit 8 (network_bits network))" .
  then show ?thesis
    using search_from [of 0 "address_bits a" "network_bits network" rest] by (simp add: written PREFIX_LEN_def address_bits_def)
qed

text \<open>The same over the four octets of an address.\<close>

lemma octet_bit: "bit (b :: u8) n \<Longrightarrow> n < 8"
  using bit_imp_le_length [of b n] by simp

lemma bit_network:
  "n < 32 \<Longrightarrow> bit (network_bits [a, b, c, d]) n =
     (if n < 8 then bit d n else if n < 16 then bit c (n - 8) else if n < 24 then bit b (n - 16) else bit a (n - 24))"
  by (auto simp: network_bits_def bit_simps dest: octet_bit)

lemma same_network:
  "take_bit 24 (drop_bit 8 (network_bits [a, b, c, d])) = take_bit 24 (drop_bit 8 (network_bits [a', b', c', d'])) \<longleftrightarrow>
     a = a' \<and> b = b' \<and> c = c'"
proof
  assume same: "take_bit 24 (drop_bit 8 (network_bits [a, b, c, d])) = take_bit 24 (drop_bit 8 (network_bits [a', b', c', d']))"
  have bits: "bit (network_bits [a, b, c, d]) (8 + n) = bit (network_bits [a', b', c', d']) (8 + n)" if "n < 24" for n
    using arg_cong [OF same, of "\<lambda>w. bit w n"] that by (simp add: bit_simps)
  have "bit c n = bit c' n" "bit b n = bit b' n" "bit a n = bit a' n" if "n < 8" for n
    using that bits [of n] bits [of "8 + n"] bits [of "16 + n"] by (simp_all add: bit_network)
  then show "a = a' \<and> b = b' \<and> c = c'" by (auto simp: bit_eq_iff)
next
  assume "a = a' \<and> b = b' \<and> c = c'"
  then show "take_bit 24 (drop_bit 8 (network_bits [a, b, c, d])) = take_bit 24 (drop_bit 8 (network_bits [a', b', c', d']))"
    by (auto simp: bit_eq_iff bit_simps bit_network)
qed

lemma written_tree_covers_addresses:
  assumes "write_db db_type [a, b, c, d] v = Some written"
  shows "search written (address_bits (network_bits (octets (Ipv4Addr w x y z)))) 0 =
    (if w = a \<and> x = b \<and> y = c then PREFIX_LEN + 16 else PREFIX_LEN)"
  using written_tree_covers_network [OF assms] same_network [of w x y z a b c d] by simp

text \<open>The writer writes every record of the tests.\<close>

lemma then_write_ok: "(then_write a b \<noteq> None) \<longleftrightarrow> a \<noteq> None \<and> b \<noteq> None"
  by (cases a; cases b) simp_all

lemma write_all_ok: "(write_all ws \<noteq> None) \<longleftrightarrow> list_all (\<lambda>w. w \<noteq> None) ws"
proof (induction ws)
  case (Cons w ws)
  have "write_all (w # ws) = then_write w (write_all ws)" by (simp add: write_all_def)
  with Cons show ?case by (simp only: then_write_ok list_all_iff) simp
qed (simp add: write_all_def)

lemma control_ok: "(control kind n \<noteq> None) \<longleftrightarrow> n < 285"
  by (simp add: control_def Let_def)

lemma length_ascii: "list_all (\<lambda>c. c < 0x80) t \<Longrightarrow> length (as_bytes t) = length t"
  by (simp add: as_bytes_ascii)

lemma encode_str_ok: "list_all (\<lambda>c. c < 0x80) t \<Longrightarrow> length t < 285 \<Longrightarrow> encode_str t \<noteq> None"
  by (simp only: encode_str_def then_write_ok control_ok length_ascii) simp

lemma records_written:
  "encode city_record \<noteq> None" "encode asn_record \<noteq> None"
  by (simp_all only: city_record_def asn_record_def encode.simps then_write_ok write_all_ok list.map list.pred_inject fst_conv snd_conv)
    (simp_all add: control_def encode_str_ok str_eval)

end
