(* ===== verification/Geo_Tests.thy ===== *)
theory Geo_Tests
  imports Route_Tests Test_Databases
begin

text \<open>
  The tests of \<open>src/geo.rs\<close>, and the router test that reads databases, as boolean definitions over
  the model. The reader of the files is a library: that it reads a test file as the format
  says is \<open>reads_file\<close>. JSON values are those of \<open>serde_json\<close> (\<open>serde_lib\<close>).
\<close>

section \<open>Libraries\<close>

text \<open>\<open>Value::get\<close>, \<open>as_str\<close>, \<open>as_f64\<close>, \<open>as_i64\<close>, \<open>as_u64\<close>, \<open>is_null\<close> and the size of an object.\<close>

fun serde_get :: "json \<Rightarrow> ustr \<Rightarrow> json option" where
  "serde_get (J_Obj m) k = map_of m k"
| "serde_get _ k = None"

fun serde_str :: "json \<Rightarrow> ustr option" where
  "serde_str (J_Str s) = Some s"
| "serde_str _ = None"

fun serde_f64 :: "json \<Rightarrow> rat option" where
  "serde_f64 (J_F64 x) = Some x"
| "serde_f64 (J_Nat n) = Some (fl (of_nat n))"
| "serde_f64 _ = None"

fun serde_u64 :: "json \<Rightarrow> nat option" where
  "serde_u64 (J_Nat n) = (if n < 2 ^ 64 then Some n else None)"
| "serde_u64 _ = None"

fun serde_i64 :: "json \<Rightarrow> int option" where
  "serde_i64 (J_Nat n) = (if n < 2 ^ 63 then Some (int n) else None)"
| "serde_i64 _ = None"

fun serde_len :: "json \<Rightarrow> nat option" where
  "serde_len (J_Obj m) = Some (length m)"
| "serde_len _ = None"

definition serde_lib :: "('r, 'l, json) geo_lib \<Rightarrow> bool" where
  "serde_lib lib \<longleftrightarrow>
     json_get lib = serde_get \<and> json_str lib = serde_str \<and> json_f64 lib = serde_f64 \<and> json_u64 lib = serde_u64 \<and>
     json_i64 lib = serde_i64 \<and> json_null lib = (\<lambda>v. v = J_Null) \<and> json_object_len lib = serde_len"

text \<open>
  What \<open>maxminddb\<close> makes of a file the writer wrote: the record for the addresses of the network, no
  data for other IPv4 addresses, an error for IPv6 addresses, and the metadata.
\<close>

definition in_network :: "u8 list \<Rightarrow> ipv4_addr \<Rightarrow> bool" where
  "in_network network a \<longleftrightarrow> take 3 (octets a) = take 3 network"

fun reads_file :: "('r, 'l, json) geo_lib \<Rightarrow> 'r \<Rightarrow> test_db \<Rightarrow> bool" where
  "reads_file lib r (db_type, network, v) \<longleftrightarrow>
     database_type lib r = lit db_type \<and> reader_verify lib r = Inr () \<and>
     (\<forall>a. \<exists>l. reader_lookup lib r (V4 a) = Inr l \<and>
        (if in_network network a then has_data lib l \<and> decode lib l = Inr (Some v) else \<not> has_data lib l)) \<and>
     (\<forall>a. \<exists>e. reader_lookup lib r (V6 a) = Inl e)"

definition holds_files :: "('r, 'l, json) geo_lib \<Rightarrow> 'r geo_fs \<Rightarrow> (string \<times> test_db) list \<Rightarrow> bool" where
  "holds_files lib fs files \<longleftrightarrow>
     (\<forall>n. file_exists fs n \<longleftrightarrow> n \<in> set (map (\<lambda>f. lit (fst f)) files)) \<and>
     dir_entries fs = Some (map (\<lambda>f. Some (lit (fst f))) files) \<and>
     list_all (\<lambda>f. \<exists>r. open_readfile fs (lit (fst f)) = Some r \<and> reads_file lib r (snd f)) files"

section \<open>The tests\<close>

definition MAXMIND_ATTRIBUTION :: ustr where
  "MAXMIND_ATTRIBUTION = lit ''This product includes GeoLite2 Data created by MaxMind, available from https://www.maxmind.com''"

definition real_mmdb_files_are_read_and_verified :: "('r, 'l, json) geo_lib \<Rightarrow> 'r geo_fs \<Rightarrow> bool" where
  "real_mmdb_files_are_read_and_verified lib fs \<longleftrightarrow>
     (let pool = open_pool lib fs;
          info = geo_lookup lib pool (lit ''203.0.113.7'');
          mapped = geo_lookup lib pool (lit ''::ffff:203.0.113.7'')
      in map_of (sources pool) (lit ''city'') = Some (lit ''GeoLite2-City.mmdb'') \<and>
         map_of (sources pool) (lit ''asn'') = Some (lit ''GeoLite2-ASN.mmdb'') \<and>
         verify_pool lib pool = Inr () \<and> attributions lib pool = [MAXMIND_ATTRIBUTION] \<and>
         error info = None \<and> country info = Some (lit ''Germany'') \<and> country_code info = Some (lit ''DE'') \<and>
         city info = Some (lit ''Frankfurt'') \<and> latitude info = Some (fl (501 / 10)) \<and> longitude info = Some (fl (86 / 10)) \<and>
         asn info = Some 64500 \<and> aso info = Some (lit ''Example Hosting GmbH'') \<and>
         country_code mapped = Some (lit ''DE'') \<and>
         error (geo_lookup lib pool (lit ''198.51.100.1'')) = Some (lit ''not found'') \<and>
         error (geo_lookup lib pool (lit ''2001:db8::1'')) \<noteq> None)"

definition mismatched_database_type_is_ignored :: "('r, 'l, json) geo_lib \<Rightarrow> 'r geo_fs \<Rightarrow> bool" where
  "mismatched_database_type_is_ignored lib fs \<longleftrightarrow>
     (let pool = open_pool lib fs
      in sources pool = [] \<and> error (geo_lookup lib pool (lit ''203.0.113.7'')) = Some (lit ''no db''))"

definition mismatched_files :: "(string \<times> test_db) list" where
  "mismatched_files =
     [(''GeoLite2-City.mmdb'', ''GeoLite2-ASN'', [203, 0, 113, 0], J_Obj [(lit ''autonomous_system_number'', J_Nat 64500)])]"

definition dbip_files_get_dbip_attribution :: "('r, 'l, json) geo_lib \<Rightarrow> 'r geo_fs \<Rightarrow> bool" where
  "dbip_files_get_dbip_attribution lib fs \<longleftrightarrow>
     (let pool = open_pool lib fs
      in attributions lib pool = [lit ''IP Geolocation by DB-IP (https://db-ip.com)''] \<and>
         country_code (geo_lookup lib pool (lit ''203.0.113.7'')) = Some (lit ''DE''))"

definition dbip_files :: "(string \<times> test_db) list" where
  "dbip_files =
     [(''dbip-city-lite.mmdb'', ''DBIP-City-Lite'', [203, 0, 113, 0],
       J_Obj [(lit ''country'', J_Obj [(lit ''iso_code'', J_Str (lit ''DE''))])])]"

definition maxmind_shaped_record :: "('r, 'l, json) geo_lib \<Rightarrow> bool" where
  "maxmind_shaped_record lib \<longleftrightarrow>
     (let v = J_Obj
            [(lit ''city'', J_Obj [(lit ''names'', J_Obj [(lit ''en'', J_Str (lit ''Frankfurt''))])]),
             (lit ''country'', J_Obj [(lit ''iso_code'', J_Str (lit ''DE'')), (lit ''names'', J_Obj [(lit ''en'', J_Str (lit ''Germany''))])]),
             (lit ''location'', J_Obj [(lit ''latitude'', J_F64 (fl (501 / 10))), (lit ''longitude'', J_F64 (fl (86 / 10)))])];
          out = apply_city lib v geo_info_default
      in city out = Some (lit ''Frankfurt'') \<and> country_code out = Some (lit ''DE'') \<and> country out = Some (lit ''Germany'') \<and>
         latitude out = Some (fl (501 / 10)))"

definition flat_shaped_record :: "('r, 'l, json) geo_lib \<Rightarrow> bool" where
  "flat_shaped_record lib \<longleftrightarrow>
     (let v = J_Obj
            [(lit ''city'', J_Str (lit ''Paris'')), (lit ''country'', J_Str (lit ''France'')), (lit ''country_code'', J_Str (lit ''FR'')),
             (lit ''latitude'', J_F64 (fl (488 / 10))), (lit ''longitude'', J_F64 (fl (23 / 10)))];
          out = apply_city lib v geo_info_default
      in city out = Some (lit ''Paris'') \<and> country_code out = Some (lit ''FR''))"

definition asn_record_variants :: "('r, 'l, json) geo_lib \<Rightarrow> bool" where
  "asn_record_variants lib \<longleftrightarrow>
     (let v = J_Obj [(lit ''autonomous_system_number'', J_Nat 9009), (lit ''autonomous_system_organization'', J_Str (lit ''M-net''))];
          out = apply_asn lib v geo_info_default;
          v2 = J_Obj [(lit ''asn'', J_Nat 123), (lit ''org'', J_Str (lit ''Example''))];
          out2 = apply_asn lib v2 geo_info_default
      in asn out = Some 9009 \<and> aso out = Some (lit ''M-net'') \<and> asn out2 = Some 123)"

definition invalid_ip_without_db :: "('r, 'l, json) geo_lib \<Rightarrow> bool" where
  "invalid_ip_without_db lib \<longleftrightarrow>
     (let pool = open_pool lib NO_GEO_DIR
      in error (geo_lookup lib pool (lit ''not-an-ip'')) = Some (lit ''invalid ip'') \<and>
         error (geo_lookup lib pool (lit ''8.8.8.8'')) = Some (lit ''no db'') \<and> isl (verify_pool lib pool))"

section \<open>Records\<close>

lemmas record_eval = apply_city_def apply_asn_def get_str_def get_f64_def get_u32_def geo_info_default_def country_paths_def
  country_code_paths_def city_paths_def latitude_paths_def longitude_paths_def aso_paths_def asn_paths_def

lemma record_tests_pass:
  assumes "serde_lib lib"
  shows "maxmind_shaped_record lib" "flat_shaped_record lib" "asn_record_variants lib"
  using assms unfolding serde_lib_def
  by (simp_all add: maxmind_shaped_record_def flat_shaped_record_def asn_record_variants_def record_eval Let_def)

lemma invalid_ip_test_passes: "invalid_ip_without_db lib"
  by (simp add: invalid_ip_without_db_def open_pool_def open_first_def db_candidates_def NO_GEO_DIR_def geo_lookup_def
      has_any_field_def geo_info_default_def verify_pool_def result_bind_def addr_eval str_eval Let_def)

section \<open>Files\<close>

lemma lookup_in_file:
  assumes "reads_file lib r (db_type, network, v)"
  shows "lookup_value lib r (V4 a) = Inr (if in_network network a then Some v else None)"
    and "\<exists>e. lookup_value lib r (V6 b) = Inl e"
proof -
  obtain l where "reader_lookup lib r (V4 a) = Inr l"
    "if in_network network a then has_data lib l \<and> decode lib l = Inr (Some v) else \<not> has_data lib l"
    using assms by auto
  then show "lookup_value lib r (V4 a) = Inr (if in_network network a then Some v else None)"
    by (simp add: lookup_value_def result_bind_def split: if_splits)
  obtain e where "reader_lookup lib r (V6 b) = Inl e" using assms by auto
  then show "\<exists>e. lookup_value lib r (V6 b) = Inl e" by (simp add: lookup_value_def result_bind_def)
qed

text \<open>Which file is opened for which kind, by name and by the type inside.\<close>

lemma str_contains_Nil: "str_contains [] n \<longleftrightarrow> n = []"
  by (auto simp: str_contains_iff)

lemma str_contains_Cons: "str_contains (c # s) n \<longleftrightarrow> take (length n) (c # s) = n \<or> str_contains s n"
proof
  assume "str_contains (c # s) n"
  then obtain a b where ab: "c # s = a @ n @ b" unfolding str_contains_iff by blast
  show "take (length n) (c # s) = n \<or> str_contains s n"
  proof (cases a)
    case Nil
    then show ?thesis using ab by simp
  next
    case (Cons x xs)
    then show ?thesis using ab unfolding str_contains_iff by auto
  qed
next
  assume "take (length n) (c # s) = n \<or> str_contains s n"
  then show "str_contains (c # s) n"
  proof
    assume "take (length n) (c # s) = n"
    then have "c # s = [] @ n @ drop (length n) (c # s)" by (metis append_Nil append_take_drop_id)
    then show ?thesis unfolding str_contains_iff by blast
  next
    assume "str_contains s n"
    then obtain a b where "s = a @ n @ b" unfolding str_contains_iff by blast
    then have "c # s = (c # a) @ n @ b" by simp
    then show ?thesis unfolding str_contains_iff by blast
  qed
qed

lemmas file_eval = str_contains_Nil str_contains_Cons path_extension_def str_eval

lemma patterns:
  "db_pattern CITY_CANDIDATES = lit ''city''" "db_pattern COUNTRY_CANDIDATES = lit ''country''"
  "db_pattern ASN_CANDIDATES = lit ''asn''"
  by (simp_all add: db_pattern_def CITY_CANDIDATES_def COUNTRY_CANDIDATES_def ASN_CANDIDATES_def file_eval)

lemma file_kinds:
  "str_contains (to_ascii_lowercase (lit ''GeoLite2-City'')) (lit ''city'')"
  "\<not> str_contains (to_ascii_lowercase (lit ''GeoLite2-City'')) (lit ''country'')"
  "\<not> str_contains (to_ascii_lowercase (lit ''GeoLite2-City'')) (lit ''asn'')"
  "str_contains (to_ascii_lowercase (lit ''GeoLite2-ASN'')) (lit ''asn'')"
  "\<not> str_contains (to_ascii_lowercase (lit ''GeoLite2-ASN'')) (lit ''city'')"
  "str_contains (to_ascii_lowercase (lit ''DBIP-City-Lite'')) (lit ''city'')"
  "str_contains (to_ascii_lowercase (lit ''GeoLite2-City.mmdb'')) (lit ''city'')"
  "\<not> str_contains (to_ascii_lowercase (lit ''GeoLite2-City.mmdb'')) (lit ''country'')"
  "\<not> str_contains (to_ascii_lowercase (lit ''GeoLite2-City.mmdb'')) (lit ''asn'')"
  "str_contains (to_ascii_lowercase (lit ''GeoLite2-ASN.mmdb'')) (lit ''asn'')"
  "\<not> str_contains (to_ascii_lowercase (lit ''GeoLite2-ASN.mmdb'')) (lit ''city'')"
  "\<not> str_contains (to_ascii_lowercase (lit ''GeoLite2-ASN.mmdb'')) (lit ''country'')"
  "\<not> str_contains (to_ascii_lowercase (lit ''dbip-city-lite.mmdb'')) (lit ''asn'')"
  "\<not> str_contains (to_ascii_lowercase (lit ''dbip-city-lite.mmdb'')) (lit ''country'')"
  "str_contains (to_ascii_lowercase (lit ''dbip-city-lite.mmdb'')) (lit ''city'')"
  by (simp_all add: file_eval)

lemma extensions:
  "path_extension (lit ''GeoLite2-City.mmdb'') = Some (lit ''mmdb'')"
  "path_extension (lit ''GeoLite2-ASN.mmdb'') = Some (lit ''mmdb'')"
  "path_extension (lit ''dbip-city-lite.mmdb'') = Some (lit ''mmdb'')"
  by (simp_all add: file_eval)

text \<open>The candidates are the known names that exist, and no file is a candidate twice.\<close>

lemma known_names:
  "filter (\<lambda>n. n \<in> {lit ''GeoLite2-City.mmdb'', lit ''GeoLite2-ASN.mmdb''}) CITY_CANDIDATES = [lit ''GeoLite2-City.mmdb'']"
  "filter (\<lambda>n. n \<in> {lit ''GeoLite2-City.mmdb'', lit ''GeoLite2-ASN.mmdb''}) COUNTRY_CANDIDATES = []"
  "filter (\<lambda>n. n \<in> {lit ''GeoLite2-City.mmdb'', lit ''GeoLite2-ASN.mmdb''}) ASN_CANDIDATES = [lit ''GeoLite2-ASN.mmdb'']"
  "filter (\<lambda>n. n \<in> {lit ''GeoLite2-City.mmdb''}) CITY_CANDIDATES = [lit ''GeoLite2-City.mmdb'']"
  "filter (\<lambda>n. n \<in> {lit ''GeoLite2-City.mmdb''}) COUNTRY_CANDIDATES = []"
  "filter (\<lambda>n. n \<in> {lit ''GeoLite2-City.mmdb''}) ASN_CANDIDATES = []"
  "filter (\<lambda>n. n \<in> {lit ''dbip-city-lite.mmdb''}) CITY_CANDIDATES = [lit ''dbip-city-lite.mmdb'']"
  "filter (\<lambda>n. n \<in> {lit ''dbip-city-lite.mmdb''}) COUNTRY_CANDIDATES = []"
  "filter (\<lambda>n. n \<in> {lit ''dbip-city-lite.mmdb''}) ASN_CANDIDATES = []"
  by (simp_all add: CITY_CANDIDATES_def COUNTRY_CANDIDATES_def ASN_CANDIDATES_def str_eval)

lemma kind_names: "lit ''city'' \<noteq> lit ''asn''" "lit ''asn'' \<noteq> lit ''city''"
  by (simp_all add: str_eval)

lemma addresses_in_files:
  "parse_ip (lit ''203.0.113.7'') = Some (V4 (Ipv4Addr 203 0 113 7))"
  "parse_ip (lit ''::ffff:203.0.113.7'') = Some (V6 (Ipv6Addr 0 0 0 0 0 0xFFFF 0xCB00 0x7107))"
  "parse_ip (lit ''198.51.100.1'') = Some (V4 (Ipv4Addr 198 51 100 1))"
  "parse_ip (lit ''2001:db8::1'') = Some (V6 (Ipv6Addr 0x2001 0xDB8 0 0 0 0 0 1))"
  "to_canonical (V6 (Ipv6Addr 0 0 0 0 0 0xFFFF 0xCB00 0x7107)) = V4 (Ipv4Addr 203 0 113 7)"
  "to_canonical (V6 (Ipv6Addr 0x2001 0xDB8 0 0 0 0 0 1)) = V6 (Ipv6Addr 0x2001 0xDB8 0 0 0 0 0 1)"
  "in_network [203, 0, 113, 0] (Ipv4Addr 203 0 113 7)" "\<not> in_network [203, 0, 113, 0] (Ipv4Addr 198 51 100 1)"
  by (simp_all add: in_network_def addr_eval str_eval)

text \<open>The directory of a test that wrote one file, and of the test that wrote two.\<close>

lemma one_file:
  assumes "holds_files lib fs [(n, db)]"
  obtains r where "open_readfile fs (lit n) = Some r" "reads_file lib r db"
    "file_exists fs = (\<lambda>m. m \<in> {lit n})" "dir_entries fs = Some [Some (lit n)]"
  using assms by (auto simp: holds_files_def fun_eq_iff)

lemma two_files:
  assumes "holds_files lib fs [(n, db), (n', db')]"
  obtains r r' where "open_readfile fs (lit n) = Some r" "reads_file lib r db"
    "open_readfile fs (lit n') = Some r'" "reads_file lib r' db'"
    "file_exists fs = (\<lambda>m. m \<in> {lit n, lit n'})" "dir_entries fs = Some [Some (lit n), Some (lit n')]"
  using assms by (auto simp: holds_files_def fun_eq_iff)

lemmas open_eval = open_pool_def open_first_def db_candidates_def patterns file_kinds extensions known_names kind_names
  List.map_filter_simps map_insert_def

lemma opened_city_and_asn:
  assumes "holds_files lib fs write_city_and_asn"
  obtains c a where "open_pool lib fs = \<lparr>city_db = Some c, country_db = None, asn_db = Some a,
      sources = [(lit ''asn'', lit ''GeoLite2-ASN.mmdb''), (lit ''city'', lit ''GeoLite2-City.mmdb'')]\<rparr>"
    "reads_file lib c (''GeoLite2-City'', [203, 0, 113, 0], city_record)"
    "reads_file lib a (''GeoLite2-ASN'', [203, 0, 113, 0], asn_record)"
proof -
  obtain c a where r: "open_readfile fs (lit ''GeoLite2-City.mmdb'') = Some c" "open_readfile fs (lit ''GeoLite2-ASN.mmdb'') = Some a"
    "reads_file lib c (''GeoLite2-City'', [203, 0, 113, 0], city_record)"
    "reads_file lib a (''GeoLite2-ASN'', [203, 0, 113, 0], asn_record)"
    "file_exists fs = (\<lambda>m. m \<in> {lit ''GeoLite2-City.mmdb'', lit ''GeoLite2-ASN.mmdb''})"
    "dir_entries fs = Some [Some (lit ''GeoLite2-City.mmdb''), Some (lit ''GeoLite2-ASN.mmdb'')]"
    using assms unfolding write_city_and_asn_def by (rule two_files)
  then have types: "database_type lib c = lit ''GeoLite2-City''" "database_type lib a = lit ''GeoLite2-ASN''" by simp_all
  have "open_pool lib fs = \<lparr>city_db = Some c, country_db = None, asn_db = Some a,
      sources = [(lit ''asn'', lit ''GeoLite2-ASN.mmdb''), (lit ''city'', lit ''GeoLite2-City.mmdb'')]\<rparr>"
    by (simp only: open_pool_def open_first_def db_candidates_def r(5,6) known_names)
       (simp add: open_eval r(1,2) types)
  then show ?thesis using r that by blast
qed

lemma mismatch_test_passes:
  assumes "holds_files lib fs mismatched_files"
  shows "mismatched_database_type_is_ignored lib fs"
proof -
  obtain r where r: "open_readfile fs (lit ''GeoLite2-City.mmdb'') = Some r"
    "reads_file lib r (''GeoLite2-ASN'', [203, 0, 113, 0], J_Obj [(lit ''autonomous_system_number'', J_Nat 64500)])"
    "file_exists fs = (\<lambda>m. m \<in> {lit ''GeoLite2-City.mmdb''})" "dir_entries fs = Some [Some (lit ''GeoLite2-City.mmdb'')]"
    using assms unfolding mismatched_files_def by (rule one_file)
  have "open_pool lib fs = \<lparr>city_db = None, country_db = None, asn_db = None, sources = []\<rparr>"
    using r(2) by (simp only: open_pool_def open_first_def db_candidates_def r(3,4) known_names) (simp add: open_eval r(1))
  then show ?thesis
    by (simp add: mismatched_database_type_is_ignored_def geo_lookup_def addresses_in_files geo_info_default_def has_any_field_def)
qed

lemma dbip_test_passes:
  assumes "serde_lib lib" "holds_files lib fs dbip_files"
  shows "dbip_files_get_dbip_attribution lib fs"
proof -
  obtain r where r: "open_readfile fs (lit ''dbip-city-lite.mmdb'') = Some r"
    "reads_file lib r (''DBIP-City-Lite'', [203, 0, 113, 0], J_Obj [(lit ''country'', J_Obj [(lit ''iso_code'', J_Str (lit ''DE''))])])"
    "file_exists fs = (\<lambda>m. m \<in> {lit ''dbip-city-lite.mmdb''})" "dir_entries fs = Some [Some (lit ''dbip-city-lite.mmdb'')]"
    using assms(2) unfolding dbip_files_def by (rule one_file)
  have type: "database_type lib r = lit ''DBIP-City-Lite''" using r(2) by simp
  have pool: "open_pool lib fs = \<lparr>city_db = Some r, country_db = None, asn_db = None, sources = [(lit ''city'', lit ''dbip-city-lite.mmdb'')]\<rparr>"
    by (simp only: open_pool_def open_first_def db_candidates_def r(3,4) known_names) (simp add: open_eval r(1) type)
  have "notice_of (to_ascii_lowercase (lit ''dbip-city-lite.mmdb'')) = Some DBIP_NOTICE"
    "notice_of (to_ascii_lowercase (lit ''DBIP-City-Lite'')) = Some DBIP_NOTICE"
    by (simp_all add: notice_of_def file_eval)
  then have "attributions lib (open_pool lib fs) = [lit ''IP Geolocation by DB-IP (https://db-ip.com)'']"
    by (simp add: attributions_def db_labels_def pool type List.map_filter_simps DBIP_NOTICE_def)
  moreover have "country_code (geo_lookup lib (open_pool lib fs) (lit ''203.0.113.7'')) = Some (lit ''DE'')"
    using assms(1) unfolding serde_lib_def
    by (simp add: geo_lookup_def pool addresses_in_files apply_db_def lookup_in_file(1) [OF r(2)] is_empty_record_def record_eval)
      (simp add: has_any_field_def Let_def)
  ultimately show ?thesis by (simp add: dbip_files_get_dbip_attribution_def)
qed

text \<open>What the two written records say.\<close>

lemma written_records:
  assumes "serde_lib lib"
  shows "apply_city lib city_record (geo_info_default\<lparr>ip := t\<rparr>) =
      \<lparr>ip = t, error = None, country = Some (lit ''Germany''), country_code = Some (lit ''DE''), city = Some (lit ''Frankfurt''),
       latitude = Some (fl (501 / 10)), longitude = Some (fl (86 / 10)), asn = None, aso = None\<rparr>"
    and "asn out = None \<Longrightarrow> aso out = None \<Longrightarrow> apply_asn lib asn_record out =
      out\<lparr>asn := Some 64500, aso := Some (lit ''Example Hosting GmbH'')\<rparr>"
    and "\<not> is_empty_record lib city_record" "\<not> is_empty_record lib asn_record"
  using assms unfolding serde_lib_def
  by (simp_all add: city_record_def asn_record_def record_eval is_empty_record_def Let_def)

text \<open>The pool of the two files, and what it says of a covered address.\<close>

lemma covered_by_files:
  assumes "serde_lib lib" and "reads_file lib c (''GeoLite2-City'', [203, 0, 113, 0], city_record)"
    and "reads_file lib a (''GeoLite2-ASN'', [203, 0, 113, 0], asn_record)"
    and "parse_ip t = Some x" "to_canonical x = V4 y" "in_network [203, 0, 113, 0] y"
  shows "geo_lookup lib \<lparr>city_db = Some c, country_db = None, asn_db = Some a, sources = ss\<rparr> t =
      \<lparr>ip = t, error = None, country = Some (lit ''Germany''), country_code = Some (lit ''DE''), city = Some (lit ''Frankfurt''),
       latitude = Some (fl (501 / 10)), longitude = Some (fl (86 / 10)), asn = Some 64500, aso = Some (lit ''Example Hosting GmbH'')\<rparr>"
  using assms(4-6)
  by (simp add: geo_lookup_def apply_db_def lookup_in_file(1) [OF assms(2)] lookup_in_file(1) [OF assms(3)] written_records [OF assms(1)])
    (simp add: has_any_field_def Let_def)

lemma attributed_files:
  assumes "reads_file lib c (''GeoLite2-City'', [203, 0, 113, 0], city_record)"
    and "reads_file lib a (''GeoLite2-ASN'', [203, 0, 113, 0], asn_record)"
  shows "attributions lib \<lparr>city_db = Some c, country_db = None, asn_db = Some a,
      sources = [(lit ''asn'', lit ''GeoLite2-ASN.mmdb''), (lit ''city'', lit ''GeoLite2-City.mmdb'')]\<rparr> = [MAXMIND_ATTRIBUTION]"
proof -
  have "notice_of (to_ascii_lowercase (lit n)) = Some MAXMIND_ATTRIBUTION"
    if "n \<in> {''GeoLite2-City.mmdb'', ''GeoLite2-ASN.mmdb'', ''GeoLite2-City'', ''GeoLite2-ASN''}" for n
    using that by (elim insertE emptyE) (simp_all add: notice_of_def file_eval MAXMIND_ATTRIBUTION_def GEOLITE_NOTICE_def)
  moreover have "database_type lib c = lit ''GeoLite2-City''" "database_type lib a = lit ''GeoLite2-ASN''" using assms by simp_all
  ultimately show ?thesis by (simp add: attributions_def db_labels_def List.map_filter_simps)
qed

lemma real_files_test_passes:
  assumes "serde_lib lib" "holds_files lib fs write_city_and_asn"
  shows "real_mmdb_files_are_read_and_verified lib fs"
proof -
  obtain c a where pool: "open_pool lib fs = \<lparr>city_db = Some c, country_db = None, asn_db = Some a,
      sources = [(lit ''asn'', lit ''GeoLite2-ASN.mmdb''), (lit ''city'', lit ''GeoLite2-City.mmdb'')]\<rparr>"
    and c: "reads_file lib c (''GeoLite2-City'', [203, 0, 113, 0], city_record)"
    and a: "reads_file lib a (''GeoLite2-ASN'', [203, 0, 113, 0], asn_record)"
    using assms(2) by (rule opened_city_and_asn)
  note lookups = geo_lookup_def pool apply_db_def lookup_in_file(1) [OF c] lookup_in_file(1) [OF a]
    written_records [OF assms(1)]
  note covered = covered_by_files [OF assms(1) c a]
  have missed: "error (geo_lookup lib (open_pool lib fs) (lit ''198.51.100.1'')) = Some (lit ''not found'')"
    by (simp add: lookups addresses_in_files) (simp add: geo_info_default_def has_any_field_def Let_def)
  obtain e e' where v6: "lookup_value lib c (V6 (Ipv6Addr 0x2001 0xDB8 0 0 0 0 0 1)) = Inl e"
    "lookup_value lib a (V6 (Ipv6Addr 0x2001 0xDB8 0 0 0 0 0 1)) = Inl e'"
    using lookup_in_file(2) [OF c] lookup_in_file(2) [OF a] by blast
  have reported: "error (geo_lookup lib (open_pool lib fs) (lit ''2001:db8::1'')) \<noteq> None"
    by (simp add: lookups addresses_in_files v6) (simp add: geo_info_default_def has_any_field_def Let_def)
  have verified: "verify_pool lib (open_pool lib fs) = Inr ()"
    using c a by (simp add: verify_pool_def pool result_bind_def)
  show ?thesis
    using attributed_files [OF c a] covered [OF addresses_in_files(1) to_canonical.simps(1) addresses_in_files(7)]
      covered [OF addresses_in_files(2,5,7)] missed reported verified
    by (simp add: real_mmdb_files_are_read_and_verified_def pool kind_names)
qed

section \<open>A judge answer from the files\<close>

fun first_item :: "json \<Rightarrow> json" where
  "first_item (J_Arr (v # _)) = v"
| "first_item _ = J_Null"

definition judge_reads_real_geo_databases ::
  "('r, 'l, json, 'k) app_libs \<Rightarrow> (u8 list \<Rightarrow> json) \<Rightarrow> ('r, 'k) request_world \<Rightarrow> 'r geo_fs \<Rightarrow> 'k signer \<Rightarrow> bool" where
  "judge_reads_real_geo_databases lib from_slice w fs sg \<longleftrightarrow>
     (let state = app_state_new (open_pool (geo_db_lib lib) fs) (test_config sg 1000000 0);
          req = get_with ''/judge'' None [(''x-forwarded-for'', ''203.0.113.7'')];
          v = from_slice (resp_body (snd (build_app lib w req state)))
      in member v ''ip'' = j_text ''203.0.113.7'' \<and> member (member v ''geo'') ''country_code'' = j_text ''DE'' \<and>
         member (member v ''geo'') ''asn'' = J_Nat 64500 \<and> member (member v ''geo_source'') ''city'' = j_text ''GeoLite2-City.mmdb'' \<and>
         member v ''ip_type'' = j_text ''datacenter'' \<and>
         str_contains (text_or_empty (first_item (member v ''attribution''))) (lit ''MaxMind''))"

text \<open>The answer of \<open>/judge\<close> when the address is not cached and reverse DNS is off.\<close>

lemma judge_uncached:
  assumes "geo_evict w = id" and "geo_cache s = Map.empty" and "rdns_timeout s = 0" and "self_ip s hs (Some conn) = me"
    and "geo_lookup (geo_db_lib lib) (geo s) me = g"
  shows "\<exists>s' view chain level signals. snd (judge lib w s conn hs p) = Ready (signed_response lib (signer s) p
      (judge_body lib s' me view chain level g (fst (classify_ip (unicode_alnum lib) (aso g) None)) signals)) \<and> geo s' = geo s"
proof -
  let ?s = "s\<lparr>geo_cache := [me \<mapsto> g]\<rparr>"
  have "geo_cached (geo_db_lib lib) (geo_evict w) s me = (?s, g)" by (simp add: geo_cached_def assms)
  moreover have "rdns_timeout ?s = 0" by (simp add: assms(3))
  ultimately show ?thesis
    by (simp add: judge_def assms(4) rdns_off await_def Let_def split_def) (rule exI [of _ ?s], auto)
qed

lemma covered_client: "client_ip None (Some (lit ''203.0.113.7'')) (lit ''127.0.0.1'') True True = lit ''203.0.113.7''"
  by (simp add: client_ip_def split_xff_def clean_host_def normalize_host_def is_ascii_digit_def addr_eval str_eval)

definition covered_info :: "ustr \<Rightarrow> geo_info" where
  "covered_info t =
     \<lparr>ip = t, error = None, country = Some (lit ''Germany''), country_code = Some (lit ''DE''), city = Some (lit ''Frankfurt''),
      latitude = Some (fl (501 / 10)), longitude = Some (fl (86 / 10)), asn = Some 64500, aso = Some (lit ''Example Hosting GmbH'')\<rparr>"

lemma covered_members:
  "member (json_geo (covered_info t)) ''country_code'' = j_text ''DE''" "member (json_geo (covered_info t)) ''asn'' = J_Nat 64500"
  "aso (covered_info t) = Some (lit ''Example Hosting GmbH'')"
  by (simp_all add: covered_info_def json_geo_def opt_field_def)

lemma hosting_org: "fst (classify_ip ua (Some (lit ''Example Hosting GmbH'')) None) = lit ''datacenter''"
  by (simp add: decided word_search)


lemma judge_geo_test_passes:
  assumes "calm_world w" and "router_libs lib from_slice" and "serde_lib (geo_db_lib lib)" and "holds_files (geo_db_lib lib) fs write_city_and_asn"
  shows "judge_reads_real_geo_databases lib from_slice w fs sg"
proof -
  let ?glib = "geo_db_lib lib"
  let ?s = "app_state_new (open_pool ?glib fs) (test_config sg 1000000 0)"
  let ?req = "get_with ''/judge'' None [(''x-forwarded-for'', ''203.0.113.7'')]"
  let ?t = "served_state w ?s ?req"
  let ?me = "lit ''203.0.113.7''"
  obtain c a where pool: "open_pool ?glib fs = \<lparr>city_db = Some c, country_db = None, asn_db = Some a,
      sources = [(lit ''asn'', lit ''GeoLite2-ASN.mmdb''), (lit ''city'', lit ''GeoLite2-City.mmdb'')]\<rparr>"
    and c: "reads_file ?glib c (''GeoLite2-City'', [203, 0, 113, 0], city_record)"
    and a: "reads_file ?glib a (''GeoLite2-ASN'', [203, 0, 113, 0], asn_record)"
    using assms(4) by (rule opened_city_and_asn)
  have t: "geo ?t = open_pool ?glib fs" "geo_cache ?t = Map.empty" "rdns_timeout ?t = 0"
    by (simp_all add: served_state_def app_state_new_def test_config_def)
  have me: "self_ip ?t (map header_line [(''x-forwarded-for'', ''203.0.113.7'')]) peer_127 = ?me"
    using exit_ip [of lib sg 1000000 0 "''203.0.113.7''"] covered_client
    by (simp only: self_ip_def served_state_def test_state_def) (simp add: app_state_new_def test_config_def)
  have "geo_lookup ?glib (geo ?t) ?me = covered_info ?me"
    unfolding t(1) unfolding pool covered_info_def
    by (rule covered_by_files [OF assms(3) c a addresses_in_files(1) to_canonical.simps(1) addresses_in_files(7)])
  then obtain g where g: "geo_lookup ?glib (geo ?t) ?me = g" "member (json_geo g) ''country_code'' = j_text ''DE''"
      "member (json_geo g) ''asn'' = J_Nat 64500" "aso g = Some (lit ''Example Hosting GmbH'')"
    using covered_members by simp
  obtain p where p: "parse_query lib None = Inr p" using assms(2) by (simp add: router_libs_def)
  have "geo_evict w = id" using assms(1) by (simp add: calm_world_def)
  from judge_uncached [OF this t(2,3) me [unfolded peer_127_def] g(1), where p = p]
  obtain s' view chain level signals where ready: "snd (routes lib w ?req ?t) = Ready (signed_response lib (signer ?t) p
      (judge_body lib s' ?me view chain level g (lit ''datacenter'') signals))" "geo s' = open_pool ?glib fs"
    by (auto simp: routes_def handle_def with_peer_def p g(4) hosting_org t(1))
  have "\<not> is_monitoring (req_path ?req)" by (simp add: is_monitoring_def)
  from first_request [OF assms(1) _ this _ _ ready(1)]
  have "snd (build_app lib w ?req ?s) = hardened ?req (signed_response lib (signer ?t) p
      (judge_body lib s' ?me view chain level g (lit ''datacenter'') signals))"
    by (simp add: app_state_new_def test_config_def MAX_CONCURRENCY_def)
  moreover have "from_slice (json_text lib j) = j" for j using assms(2) by (simp add: router_libs_def)
  moreover have "str_contains MAXMIND_ATTRIBUTION (lit ''MaxMind'')" by (simp add: MAXMIND_ATTRIBUTION_def file_eval)
  ultimately show ?thesis
    by (simp add: judge_reads_real_geo_databases_def hardened_def judge_body_def Let_def g(2,3) sources_or_null_def ready(2) pool
        json_map_def json_strs_def attributed_files [OF c a])
qed

text \<open>A reader and a directory of that kind exist: a database is its own reader, and a directory a list of files.\<close>

definition test_reader :: "(test_db, json option, json) geo_lib" where
  "test_reader =
     \<lparr>reader_lookup = (\<lambda>(_, network, v) a.
        case a of V4 a \<Rightarrow> Inr (if in_network network a then Some v else None) | V6 _ \<Rightarrow> Inl (lit ''IPv6 address in IPv4 database'')),
      has_data = (\<lambda>l. l \<noteq> None), decode = Inr, database_type = (\<lambda>(t, _). lit t), reader_verify = (\<lambda>_. Inr ()),
      json_get = serde_get, json_str = serde_str, json_f64 = serde_f64, json_i64 = serde_i64, json_u64 = serde_u64,
      json_null = (\<lambda>v. v = J_Null), json_object_len = serde_len\<rparr>"

definition test_dir :: "(string \<times> test_db) list \<Rightarrow> test_db geo_fs" where
  "test_dir files =
     (let named = map (\<lambda>(n, db). (lit n, db)) files
      in \<lparr>file_exists = (\<lambda>n. map_of named n \<noteq> None), dir_entries = Some (map (\<lambda>f. Some (fst f)) named),
          open_readfile = map_of named\<rparr>)"

lemma test_reader_reads: "reads_file test_reader r r" "serde_lib test_reader"
  by (cases r; simp add: test_reader_def) (simp add: serde_lib_def test_reader_def)

lemma test_dirs_hold:
  "holds_files test_reader (test_dir write_city_and_asn) write_city_and_asn"
  "holds_files test_reader (test_dir mismatched_files) mismatched_files"
  "holds_files test_reader (test_dir dbip_files) dbip_files"
  by (simp_all add: holds_files_def test_dir_def write_city_and_asn_def mismatched_files_def dbip_files_def str_eval
      del: reads_file.simps) (auto simp: test_reader_reads simp del: reads_file.simps)

text \<open>The libraries of the router tests with this reader.\<close>

definition geo_test_libs :: "(test_db, json option, json, u8 list) app_libs" where
  "geo_test_libs =
     \<lparr>geo_db_lib = test_reader, signing_lib = signing_lib test_libs, unicode_alnum = unicode_alnum test_libs,
      json_text = json_text test_libs, parse_query = parse_query test_libs, header_value_ok = header_value_ok test_libs,
      header_to_str = header_to_str test_libs, no_connect_info = no_connect_info test_libs,
      unrouted = unrouted test_libs\<rparr>"

lemma geo_test_libs_fit:
  "router_libs geo_test_libs number_value" "serde_lib (geo_db_lib geo_test_libs)"
  "holds_files (geo_db_lib geo_test_libs) (test_dir write_city_and_asn) write_city_and_asn"
  using test_libs_fit test_reader_reads(2) test_dirs_hold(1) by (simp_all add: geo_test_libs_def router_libs_def)

end
