(* ===== verification/Log_And_Signals.thy ===== *)
theory Log_And_Signals
  imports App_Layers Serve_Loop
begin

text \<open>
  What surrounds the requests: the access log (\<open>access_log_mw\<close> of \<open>src/app.rs\<close>), a layer between the
  counters and the response headers, and the shutdown signal of \<open>src/main.rs\<close>. The subscriber that
  prints the lines and the delivery of signals are libraries.
\<close>

section \<open>Access log\<close>

record access_line =
  line_method :: ustr
  line_path :: ustr
  line_status :: nat
  line_ms :: nat

text \<open>
  A service that may write one line. Whether the debug level is on decides the subscriber; the two
  clock readings are those of \<open>Instant::now\<close> and \<open>elapsed\<close>, in nanoseconds.
\<close>

type_synonym ('r, 'k) logged_service =
  "request \<Rightarrow> ('r, 'k) app_state \<Rightarrow> ('r, 'k) app_state \<times> response \<times> access_line option"

definition access_log_mw :: "bool \<Rightarrow> nat \<Rightarrow> nat \<Rightarrow> ('r, 'k) service \<Rightarrow> ('r, 'k) logged_service" where
  "access_log_mw debug_on started now inner req s =
     (let meth = req_method req;
          path = req_path req;
          (s, res) = inner req s;
          line = \<lparr>line_method = meth, line_path = path, line_status = resp_status res,
                  line_ms = (now - started) div 10 ^ 6\<rparr>
      in (s, res, if debug_on then Some line else None))"

text \<open>The layers of \<open>build_app\<close> with this one: the counters see the response it passes on.\<close>

definition build_app_logged ::
  "('r, 'l, 'v, 'k) app_libs \<Rightarrow> ('r, 'k) request_world \<Rightarrow> bool \<Rightarrow> nat \<Rightarrow> nat \<Rightarrow> ('r, 'k) logged_service" where
  "build_app_logged lib w debug_on started now req s =
     (let (s', res, line) = access_log_mw debug_on started now
            (response_headers_mw (rate_limit_mw lib w (concurrency_mw lib w (timeout_mw lib (routes lib w))))) req s;
          (s, res) = metrics_mw (\<lambda>_ _. (s', res)) req s
      in (s, head_only req res, line))"

text \<open>
  Logging changes neither the state nor the response. A line names the status that is sent, also
  for a request that a layer further inside refused or gave up, and it does not hold the query, where
  the checker puts its address and its nonce.
\<close>

lemma logging_is_transparent:
  "build_app_logged lib w debug_on started now req s =
     (let (s', res) = build_app lib w req s
      in (s', res,
          if debug_on then Some \<lparr>line_method = req_method req, line_path = req_path req, line_status = resp_status res,
            line_ms = (now - started) div 10 ^ 6\<rparr> else None))"
  by (simp add: build_app_logged_def access_log_mw_def build_app_def metrics_mw_def Let_def split_def)

lemma quiet_by_default: "snd (snd (build_app_logged lib w False started now req s)) = None"
  by (simp add: logging_is_transparent Let_def split_def)

section \<open>The shutdown signal\<close>

text \<open>
  Registering a handler fails, or yields a source that is ready at some time or never. \<open>ctrl_c\<close>
  reports a failed registration at once, and \<open>ok\<close> takes that for the signal; without a source of
  \<open>SIGTERM\<close>, or on another system (\<open>None\<close>), that arm is pending for ever.
\<close>

type_synonym 'e signal_source = "'e + nat option"

fun ctrl_c_arm :: "'e signal_source \<Rightarrow> nat option" where
  "ctrl_c_arm (Inl e) = Some 0"
| "ctrl_c_arm (Inr t) = t"

fun terminate_arm :: "'e signal_source option \<Rightarrow> nat option" where
  "terminate_arm None = None"
| "terminate_arm (Some (Inl e)) = None"
| "terminate_arm (Some (Inr t)) = t"

fun select_first :: "nat option \<Rightarrow> nat option \<Rightarrow> nat option" where
  "select_first None y = y"
| "select_first x None = x"
| "select_first (Some t) (Some t') = Some (min t t')"

text \<open>When the future resolves, if it does.\<close>

definition shutdown_signal :: "'e signal_source \<Rightarrow> 'e signal_source option \<Rightarrow> nat option" where
  "shutdown_signal ctrl_c terminate = select_first (ctrl_c_arm ctrl_c) (terminate_arm terminate)"

lemma select_first_iff: "select_first x y = Some t \<longleftrightarrow> t \<in> set_option x \<union> set_option y \<and> (\<forall>t' \<in> set_option x \<union> set_option y. t \<le> t')"
  by (cases "(x, y)" rule: select_first.cases) (auto simp: min_def)

text \<open>With both handlers in place the server shuts down at the first of the two signals, and only then.\<close>

lemma shutdown_at_first_signal:
  "shutdown_signal (Inr c) (Some (Inr m)) = Some t \<longleftrightarrow>
     t \<in> set_option c \<union> set_option m \<and> (\<forall>t' \<in> set_option c \<union> set_option m. t \<le> t')"
  "shutdown_signal (Inr c) (Some (Inr m)) = None \<longleftrightarrow> c = None \<and> m = None"
  unfolding shutdown_signal_def by (simp_all add: select_first_iff) (cases c; cases m; simp)

text \<open>
  The two arms treat a handler that cannot be registered differently: without \<open>SIGTERM\<close> the server
  goes on until Ctrl-C, without Ctrl-C it shuts down as soon as it has started.
\<close>

lemma failed_sigterm_handler_is_ignored: "shutdown_signal (Inr c) (Some (Inl e)) = c"
  by (cases c) (simp_all add: shutdown_signal_def)

lemma failed_ctrl_c_handler_shuts_down: "shutdown_signal (Inl e) terminate = Some 0"
  by (cases "terminate_arm terminate") (simp_all add: shutdown_signal_def)

text \<open>Then the loop may drain and return without having accepted anybody.\<close>

lemma shutdown_before_serving:
  assumes "serve_init lm s"
  shows "\<exists>s'. serve_step\<^sup>*\<^sup>* s s' \<and> loop s' = Stopped \<and> conns s' = Map.empty"
proof -
  have "serve_step s (s\<lparr>signalled := True\<rparr>)" by (rule signal)
  moreover have "serve_step (s\<lparr>signalled := True\<rparr>) (leave_loop (s\<lparr>signalled := True\<rparr>))"
    by (rule stop_waiting) (use assms in \<open>simp_all add: serve_init_def\<close>)
  moreover have "serve_step (leave_loop (s\<lparr>signalled := True\<rparr>)) ((leave_loop (s\<lparr>signalled := True\<rparr>))\<lparr>loop := Stopped\<rparr>)"
    by (rule drained) (use assms in \<open>simp_all add: serve_init_def leave_loop_def\<close>)
  ultimately have "serve_step\<^sup>*\<^sup>* s ((leave_loop (s\<lparr>signalled := True\<rparr>))\<lparr>loop := Stopped\<rparr>)"
    by (meson converse_rtranclp_into_rtranclp rtranclp.rtrancl_refl)
  moreover have "conns s = Map.empty" using assms by (simp add: serve_init_def)
  ultimately show ?thesis by (force simp: leave_loop_def)
qed

end
