(* ===== verification/Spec2Isabelle.thy ===== *)
theory Spec2Isabelle
  imports Whole_Program Service_Promises Logic_Tests Limit_Tests Config_Tests Signature_Tests Geo_Tests
    Log_And_Signals
begin

text \<open>
  A verification development for proxpulse-judge, the self-hosted proxy-check backend under
  \<open>src/src\<close>. A checker asks the service through the proxy it tests; the service says which address
  it saw, what the proxy added to the request, whether that gives the checker away
  (\<open>transparent\<close>, \<open>anonymous\<close>, \<open>elite\<close>), where the address is and what kind of network it belongs
  to, and signs the answer.

  \<^bold>\<open>The program and its parts.\<close> \<open>main.rs\<close> reads the configuration (\<open>config.rs\<close>), opens the geo
  databases (\<open>geo.rs\<close>), builds the shared state and the router (\<open>app.rs\<close>) and runs the accept loop
  (\<open>server.rs\<close>). Every request passes the layers of \<open>build_app\<close>: counters (\<open>metrics.rs\<close>), response
  headers, rate limiter (\<open>ratelimit.rs\<close>), request slots, deadline, and then a handler, which
  derives the client address and the view of the headers and calls the decision logic (\<open>logic.rs\<close>),
  the databases, reverse DNS and the signer (\<open>sign.rs\<close>). All requests share one \<open>AppState\<close>.

  \<^bold>\<open>The theories.\<close>

  \<^item> \<open>Judge_Prelude\<close>, \<open>Rust_Str\<close>, \<open>Utf8_Bytes\<close>, \<open>Ip_Addr\<close>, \<open>Float64\<close>: what the source uses of the
    standard library. Texts are lists of code points with the string functions as written in the
    library documentation; UTF-8 encoding and lossy decoding; addresses with their parser and
    printer (round trip \<open>parse_show_ip\<close>); binary64 rounding, with the locale \<open>rounding\<close> as the
    interface of rounded arithmetic.
  \<^item> \<open>Host_Chain\<close> (\<open>split_xff\<close> to \<open>normalize_chain\<close> of \<open>logic.rs\<close>): the forwarded entries and the
    client address; locale \<open>address_text\<close>. Normalized texts are equal exactly when the addresses
    are; our own hops are cut from the chain and nothing else.
  \<^item> \<open>Anonymity\<close> (\<open>anonymity_level\<close> and what it calls): the verdict as a decision about leaks and
    telltale headers, its exactness, and its independence of the order of the headers.
  \<^item> \<open>Ip_Classify\<close> (\<open>classify_ip\<close>): the network type as the first rule that applies.
  \<^item> \<open>Signed_Answers\<close> (\<open>sign.rs\<close>): keys, nonces and the signed message.
  \<^item> \<open>Env_Config\<close> (\<open>config.rs\<close>): every variable, every error, and what an accepted configuration
    guarantees.
  \<^item> \<open>Rate_Limit\<close> (\<open>ratelimit.rs\<close>): token buckets in binary64 arithmetic; bursts, long-run rate,
    delays, isolation of clients; the limiter as a machine. \<open>visits\<close> are the accesses of one key,
    each with whether the cache had dropped its bucket, and \<open>alone\<close> runs them with nobody else there;
    \<open>early_losses\<close> counts the drops that can add to the rate.
  \<^item> \<open>Metrics_Text\<close> (\<open>metrics.rs\<close>) and \<open>Geo_Pool\<close> (\<open>geo.rs\<close>): counters with their text form; opening,
    looking up and attributing databases.
  \<^item> \<open>Request_View\<close> (\<open>app.rs\<close>, to \<open>geo_cached\<close>): the shared state, header joining, the client
    address of a request and the view of its headers; verdicts from end to end.
  \<^item> \<open>Public_Address\<close> (\<open>is_public_ip\<close>): the predicate equals a list of address blocks.
  \<^item> \<open>Step_Machine\<close>: reachable states, invariants, and the contract \<open>permit_pool\<close> of a semaphore
    whose permits are held by tasks. It is interpreted four times: for the resolver calls
    (\<open>Rdns_Lookup\<close>), the request slots (\<open>Request_Slots\<close>, and with everything else a request does in
    \<open>Service_Machine\<close>) and the connections (\<open>Serve_Loop\<close>).
  \<^item> \<open>Rdns_Lookup\<close> (\<open>maybe_rdns\<close>): one call as a function, and the steps of a call
    (\<open>start_step\<close>) and of its resolver task (\<open>call_step\<close>). The locale \<open>rdns_host\<close> is what a machine
    needs to be a host of such calls; in it every execution of the function is a run. It is
    interpreted for the machine of the calls alone and for the machine of the whole service. What
    other tasks do at an await point is a run from the state the call is suspended in (\<open>meanwhile\<close>).
  \<^item> \<open>Handlers\<close>, \<open>App_Layers\<close>, \<open>Judge_Answers\<close> (\<open>app.rs\<close>, the rest): handlers as functions to
    responses over JSON values, the layers as functions on services, \<open>build_app\<close> with the router
    around them, which takes the body off a response to \<open>HEAD\<close>; what holds of every response, of
    refused and counted requests, and of the signature of a judge answer.
  \<^item> \<open>Request_Slots\<close>: \<open>concurrency_mw\<close> alone with all requests in flight.
  \<^item> \<open>Request_Phases\<close>: the handlers cut at their await points. Only \<open>/type\<close> and \<open>/judge\<close> suspend,
    with the locals that live across the suspension as the datatype \<open>pending\<close>.
  \<^item> \<open>Service_Machine\<close>: all requests in flight, each moving through the layers one access to the
    shared state at a time (\<open>arrival\<close>, \<open>progress\<close>), among the steps of the resolver calls; the
    accounts of slots, counters and limiter. \<open>Service_Answers\<close>: what every answer is, and that each
    request can get one. \<open>Service_Runs\<close>: an execution of the function \<open>build_app\<close> is a run of the
    machine, if the others do at the await points it reaches (\<open>interleaves\<close>) what the machine lets
    them do there; the example has one request served and another taking a slot meanwhile.
    \<open>Service_Promises\<close>: signatures and the configured rate under load.
  \<^item> \<open>Serve_Loop\<close> (\<open>server.rs\<close>): the accept loop as a step relation.
  \<^item> \<open>Program_Main\<close> (\<open>main.rs\<close>): the health probe and what \<open>main\<close> decides; the two checks it offers
    are about the address and the databases of the service it would start.
  \<^item> \<open>Whole_Program\<close>: the accept loop beside the service, every request with the peer of the
    connection it came over; each part by itself is a run of its own machine.
  \<^item> \<open>Log_And_Signals\<close>: \<open>access_log_mw\<close> between the counters and the response headers, which changes
    neither state nor response, and \<open>shutdown_signal\<close> of \<open>main.rs\<close>.
  \<^item> \<open>Logic_Tests\<close>, \<open>Limit_Tests\<close>, \<open>Config_Tests\<close>, \<open>Metrics_Tests\<close>, \<open>App_Tests\<close>, \<open>Route_Tests\<close>,
    \<open>Sign_Tests\<close>, \<open>Signature_Tests\<close>, \<open>Geo_Tests\<close>: the unit tests of the repository that are about its
    own code, each as a boolean definition over the model, and proofs that they hold. The router
    tests go through all layers of \<open>build_app\<close>; what they need of the libraries is \<open>router_libs\<close>, which
    \<open>test_libs\<close> satisfies. The signature tests add a verifier that tells the messages of a test apart,
    the database tests a reader that reads a written file (\<open>reads_file\<close>).
  \<^item> \<open>Test_Databases\<close> (\<open>test_mmdb\<close> of \<open>geo.rs\<close>): the writer of those files, byte by byte; walking its
    search tree finds the record for the addresses of the network and for no other.

  \<^bold>\<open>How the code is represented.\<close> A \<open>Result\<close> is a sum with the error on the left, a panic that the
  types do not exclude is \<open>None\<close>. A \<open>HashMap\<close> is an association list with distinct keys; a
  \<open>HeaderMap\<close> is the list of its lines, each a lower-case name with the bytes of the value. The
  caches are maps. What a cache library drops by itself (capacity, lifetime) is an argument of the
  operations: any function for the definitions, a function that only removes entries where a
  theorem needs that. The burst at one instant is stated for a cache that keeps the bucket, the rate
  over time with what a dropped bucket adds to it, which is nothing if the cache does what its
  library documents (\<open>keeps_fresh\<close>). A semaphore is its number of free permits. Durations and instants are
  nanoseconds. Integers whose width matters are words, token counts are binary64 values given as
  rationals with \<open>fl\<close> after every operation.

  An asynchronous function is modelled twice. As a function it gets a record of what it meets
  (\<open>rdns_world\<close>, \<open>request_world\<close>): the clock readings, whether a permit came in time, how a wait
  ended, and for every await point a function that stands for what other tasks did to the shared
  state meanwhile. A handler that is still suspended at the request deadline is \<open>Dropped\<close> at its
  await point, with the effects it had until then. As a step relation all requests run
  interleaved: one step is what happens between two accesses to the shared state, a timeout and the
  departure of a client are steps that are always possible at an await point, and the caches may
  lose entries at any time. Field \<open>limiter_log\<close> of the machine is a history for the proofs.

  \<^bold>\<open>Parameters.\<close> Code outside the repository is a field of a record with documented behaviour as
  named hypotheses: \<open>geo_lib\<close> (the database reader and JSON values), \<open>crypto\<close> (Ed25519, SHA-256,
  base64), \<open>app_libs\<close> (printing JSON, reading a query, legal header values, what axum answers
  itself), \<open>config_env\<close> (environment, header-name syntax, the syntax of numbers), \<open>os\<close> (arguments,
  directories, sockets), and the resolver as the relation \<open>answers\<close>. \<open>libs_ok\<close> and \<open>header_map_ok\<close>
  name what is relied on. Each is instantiated by a concrete value in the witnesses.

  \<^bold>\<open>What the theorems show.\<close> The verdict is exact: transparent and elite mean what the
  documentation says, no spelling of the caller's address hides a leak, adding headers never makes
  the verdict look cleaner, and nothing the operator's own reverse proxy adds is held against the
  proxy. Client headers are believed only as configured. A judge answer is signed over exactly
  the nonce, the direct address and the body that are sent. The limiter admits exactly the
  configured burst and rate and announces delays that suffice; clients do not take each other's
  tokens and can matter to each other only by making the cache drop a bucket, which admits its
  client. At most 16 resolver calls, 512 requests in the handlers and 4096 connections exist at
  once, whatever is slow, fails, panics or goes away, and no permit is lost. With all requests
  interleaved, an answer is one of three fixed refusals or the one the request gets alone, up to the
  counters and the name of its own address (\<open>Service_Answers\<close>); the counters are exact; every
  request can be answered by at most seven steps of its own; and in a deployment without trusted
  proxies nobody is charged or judged under another address than that of his connection. Probes
  always answer, a refused request changes only counters and the refill of its bucket, and every
  response carries its security headers. Lookups take the first value found; the health probe ends
  and reads only the status line; \<open>--healthcheck\<close> and \<open>--check-geo\<close> examine the address and the
  databases of the service; the loop of \<open>serve\<close> never accepts after it drains and never waits for a
  client to shut down.

  \<^bold>\<open>Bounds.\<close> No definition uses fuel: loops over data are structural recursions, \<open>match_from\<close>,
  \<open>show_radix\<close> and the read loop of the probe are total with a measure, and what may go on forever
  (the accept loop, requests, resolver tasks) is a step relation.

  \<^bold>\<open>Not modelled.\<close> Log lines other than those of \<open>access_log_mw\<close>, the tracing setup of \<open>main.rs\<close>, the
  delivery of signals, socket options and HTTP parsing (hyper), the passing of time inside the step
  relations (a timeout is a step that is always possible), the two tests of \<open>server.rs\<close> that talk to a
  socket, temporary directories, scripts and container files. The texts of configuration errors are
  constructors.
\<close>

end
